(* ===== verification/Trona_Prelude.thy ===== *)
theory Trona_Prelude
  imports Main "HOL-Library.Word" "HOL-Library.Monad_Syntax"
begin

text \<open>
  Shared vocabulary of the development: the machine types of the Rust sources,
  saturating and checked arithmetic of the Rust standard library, page
  alignment, and the generic facts on words, bitmaps, lists and first-match
  loops that the component theories rely on.

  The crates are built with optimisation and without overflow checks, so
  \<open>+\<close>, \<open>-\<close> and \<open>*\<close> on the fixed-width types wrap; this is exactly the
  arithmetic of \<^typ>\<open>'a word\<close>.
\<close>

unbundle bit_operations_syntax

type_synonym u8 = "8 word"
type_synonym u16 = "16 word"
type_synonym u32 = "32 word"
type_synonym u64 = "64 word"
type_synonym cap = u64

named_theorems word_nat_simps \<open>reading word arithmetic as arithmetic on naturals\<close>
named_theorems bitmap_simps \<open>reading and updating one bit of a bitmap of words\<close>

section \<open>Arithmetic of the Rust standard library\<close>

text \<open>\<open>saturating_sub\<close> and \<open>checked_add\<close> of the unsigned integer types.\<close>

definition saturating_sub :: "'a::len word \<Rightarrow> 'a word \<Rightarrow> 'a word" where
  "saturating_sub a b = (if a < b then 0 else a - b)"

definition saturating_add :: "'a::len word \<Rightarrow> 'a word \<Rightarrow> 'a word" where
  "saturating_add a b = (if a + b < a then - 1 else a + b)"

definition checked_add :: "'a::len word \<Rightarrow> 'a word \<Rightarrow> 'a word option" where
  "checked_add a b = (if a + b < a then None else Some (a + b))"

definition checked_mul :: "'a::len word \<Rightarrow> 'a word \<Rightarrow> 'a word option" where
  "checked_mul a b = (if 2 ^ LENGTH('a) \<le> unat a * unat b then None else Some (a * b))"

section \<open>Words read as naturals\<close>

lemma unat_add_le:
  fixes a b :: "'a::len word"
  assumes "unat a + unat b < 2 ^ LENGTH('a)"
  shows "unat (a + b) = unat a + unat b"
  using assms by (simp add: unat_word_ariths)

lemma unat_sub_le:
  fixes a b :: "'a::len word"
  assumes "b \<le> a"
  shows "unat (a - b) = unat a - unat b"
  using assms by (rule unat_sub)

lemma unat_lt64 [simp]: "unat (a :: u64) < 18446744073709551616"
  using unsigned_less [of a] by simp

lemma unat_lt32 [simp]: "unat (a :: u32) < 4294967296"
  using unsigned_less [of a] by simp

lemma unat_max32: "unat (- 1 :: u32) = 4294967295"
  by (simp add: unsigned_minus_1_eq_mask mask_eq_exp_minus_1)

lemma unat_of_nat_lt32:
  assumes "n < 4294967296"
  shows "unat (of_nat n :: u32) = n"
  using assms by (simp add: unat_of_nat take_bit_nat_eq_self)

lemma unat_of_nat_lt64:
  assumes "n < 18446744073709551616"
  shows "unat (of_nat n :: u64) = n"
  using assms by (simp add: unat_of_nat take_bit_nat_eq_self)

lemma unat_saturating_sub [word_nat_simps]:
  "unat (saturating_sub a b) = unat a - unat b"
proof (cases "a < b")
  case True
  then show ?thesis by (simp add: saturating_sub_def word_less_nat_alt)
next
  case False
  then have "b \<le> a" by simp
  with False show ?thesis by (simp add: saturating_sub_def unat_sub_le)
qed

lemma add_mod_once:
  fixes a b k :: nat
  assumes "\<not> a + b < k" "a < k" "b < k"
  shows "(a + b) mod k = a + b - k"
  using assms by (simp add: mod_if)

lemma word_add_less_iff:
  fixes a b :: "'a::len word"
  shows "a + b < a \<longleftrightarrow> 2 ^ LENGTH('a) \<le> unat a + unat b"
proof (cases "unat a + unat b < 2 ^ LENGTH('a)")
  case True
  then show ?thesis by (simp add: word_less_nat_alt unat_add_le)
next
  case False
  have lt: "unat a < 2 ^ LENGTH('a)" "unat b < 2 ^ LENGTH('a)"
    by simp_all
  have "unat (a + b) = unat a + unat b - 2 ^ LENGTH('a)"
    using False lt by (simp add: unat_word_ariths add_mod_once del: unsigned_less)
  with False lt show ?thesis by (simp add: word_less_nat_alt del: unsigned_less)
qed

lemma checked_add_Some:
  fixes a b c :: "'a::len word"
  shows "checked_add a b = Some c \<longleftrightarrow> unat c = unat a + unat b"
proof
  assume "checked_add a b = Some c"
  then have "\<not> a + b < a" "c = a + b"
    by (auto simp: checked_add_def split: if_splits)
  then show "unat c = unat a + unat b"
    by (simp add: word_add_less_iff unat_add_le)
next
  assume c: "unat c = unat a + unat b"
  have "unat c < 2 ^ LENGTH('a)" by simp
  with c have "unat a + unat b < 2 ^ LENGTH('a)" by simp
  moreover from this have "c = a + b"
    using c by (simp add: word_unat_eq_iff unat_add_le)
  ultimately show "checked_add a b = Some c"
    by (simp add: checked_add_def word_add_less_iff)
qed

lemma checked_add_None:
  fixes a b :: "'a::len word"
  shows "checked_add a b = None \<longleftrightarrow> 2 ^ LENGTH('a) \<le> unat a + unat b"
  by (simp add: checked_add_def word_add_less_iff)

lemma checked_mul_Some:
  fixes a b c :: "'a::len word"
  assumes "checked_mul a b = Some c"
  shows "unat c = unat a * unat b"
  using assms by (auto simp: checked_mul_def unat_word_ariths split: if_splits)

lemma checked_mul_None:
  fixes a b :: "'a::len word"
  shows "checked_mul a b = None \<longleftrightarrow> 2 ^ LENGTH('a) \<le> unat a * unat b"
  by (simp add: checked_mul_def)

lemma bit_unat_less:
  fixes w :: "'a::len word"
  assumes "unat w < 2 ^ k" "bit w n"
  shows "n < k"
proof -
  from assms(2) have "bit (unat w) n"
    by (simp add: bit_unsigned_iff bit_imp_possible_bit)
  then have "odd (unat w div 2 ^ n)" by (simp add: bit_iff_odd)
  then have "2 ^ n \<le> unat w"
    by (metis div_less even_zero not_le)
  with assms(1) have "(2::nat) ^ n < 2 ^ k" by linarith
  then show ?thesis by simp
qed

lemma mask_32_u64: "(0xFFFFFFFF :: u64) = mask 32"
  by (simp add: mask_eq_exp_minus_1)

section \<open>Alignment\<close>

text \<open>Rounding down to a power of two is \<open>w & !(2 ^ k - 1)\<close>.\<close>

lemma and_not_mask_word:
  fixes w :: "'a::len word"
  shows "w AND NOT (mask k) = push_bit k (drop_bit k w)"
  by (rule bit_word_eqI) (auto simp: bit_simps)

lemma unat_and_not_mask:
  fixes w :: "'a::len word"
  shows "unat (w AND NOT (mask k)) = unat w div 2 ^ k * 2 ^ k"
proof -
  have "unat w div 2 ^ k * 2 ^ k \<le> unat w" by simp
  also have "unat w < 2 ^ LENGTH('a)" by simp
  finally have lt: "unat w div 2 ^ k * 2 ^ k < 2 ^ LENGTH('a)" .
  have "unat (push_bit k (drop_bit k w)) = take_bit LENGTH('a) (push_bit k (drop_bit k (unat w)))"
    by (simp add: unsigned_push_bit_eq unsigned_drop_bit_eq take_bit_nat_eq_self)
  also have "\<dots> = unat w div 2 ^ k * 2 ^ k"
    using lt by (simp add: push_bit_eq_mult drop_bit_eq_div take_bit_nat_eq_self)
  finally show ?thesis by (simp add: and_not_mask_word)
qed

section \<open>Bitmaps\<close>

text \<open>The bit tests of the sources are \<open>w & (1 << b)\<close>.\<close>

lemma and_bit_mask [bitmap_simps]:
  fixes w :: u64
  assumes "b < 64"
  shows "w AND 2 ^ b = 0 \<longleftrightarrow> \<not> bit w b"
proof -
  have *: "bit (w AND 2 ^ b) n \<longleftrightarrow> n = b \<and> bit w b" for n
    using assms by (auto simp: bit_simps)
  show ?thesis
  proof
    assume "w AND 2 ^ b = 0"
    with * [of b] show "\<not> bit w b" by simp
  next
    assume "\<not> bit w b"
    with * show "w AND 2 ^ b = 0" by (simp add: bit_eq_iff)
  qed
qed

lemma bit_or_mask [bitmap_simps]:
  fixes w :: u64
  assumes "b < 64"
  shows "bit (w OR 2 ^ b) n \<longleftrightarrow> bit w n \<or> n = b"
  using assms by (auto simp: bit_simps)

lemma bit_and_not_mask [bitmap_simps]:
  fixes w :: u64
  assumes "b < 64"
  shows "bit (w AND NOT (2 ^ b)) n \<longleftrightarrow> bit w n \<and> n \<noteq> b"
  using assms by (auto simp: bit_simps dest: bit_imp_le_length)

lemma div_mod_64_eq_iff: "(i::nat) div 64 = j div 64 \<and> i mod 64 = j mod 64 \<longleftrightarrow> i = j"
  by (metis div_mult_mod_eq)

section \<open>First-match loops\<close>

text \<open>
  A \<open>for\<close> loop over a range of indices that returns at the first index with a
  property is \<^const>\<open>find\<close> on that range.
\<close>

lemma find_upt_Some:
  assumes "find P [a..<b] = Some i"
  shows "a \<le> i" "i < b" "P i" "\<And>j. a \<le> j \<Longrightarrow> j < i \<Longrightarrow> \<not> P j"
proof -
  from assms obtain k where k: "k < length [a..<b]" "P ([a..<b] ! k)"
      "i = [a..<b] ! k" "\<forall>j<k. \<not> P ([a..<b] ! j)"
    by (auto simp: find_Some_iff)
  then show "a \<le> i" "i < b" "P i" by auto
  fix j assume "a \<le> j" "j < i"
  with k(1,3) have "j - a < k" "[a..<b] ! (j - a) = j" by auto
  with k(4) show "\<not> P j" by metis
qed

lemma find_upt_None:
  "find P [a..<b] = None \<longleftrightarrow> (\<forall>i. a \<le> i \<and> i < b \<longrightarrow> \<not> P i)"
  by (auto simp: find_None_iff)

section \<open>Lists of fixed length\<close>

lemma set_update_mem:
  assumes "x \<in> set (xs[i := y])"
  shows "x = y \<or> x \<in> set xs"
  using assms by (meson insertE set_update_subset_insert subsetD)

lemma sum_list_remove_nth:
  fixes f :: "'a \<Rightarrow> nat"
  assumes "i < length xs"
  shows "(\<Sum>x\<leftarrow>xs[i := y]. f x) + f (xs ! i) = (\<Sum>x\<leftarrow>xs. f x) + f y"
  using assms
proof (induction xs arbitrary: i)
  case Nil
  then show ?case by simp
next
  case (Cons x xs)
  then show ?case by (cases i) (auto simp: add_ac)
qed

section \<open>Sums and rotations\<close>

lemma fold_add_sum:
  fixes f :: "nat \<Rightarrow> 'a::comm_monoid_add"
  shows "fold (\<lambda>i acc. acc + f i) [0..<n] 0 = (\<Sum>i<n. f i)"
  by (induction n) simp_all

lemma unat_sum_bounded:
  fixes f :: "nat \<Rightarrow> 'a::len word"
  assumes "(\<Sum>i<n. unat (f i)) < 2 ^ LENGTH('a)"
  shows "unat (\<Sum>i<n. f i) = (\<Sum>i<n. unat (f i))"
  using assms
proof (induction n)
  case 0
  then show ?case by simp
next
  case (Suc n)
  then have "unat (\<Sum>i<n. f i) = (\<Sum>i<n. unat (f i))" by simp
  with Suc.prems show ?case by (simp add: unat_add_le)
qed

lemma rotate_cover:
  fixes a n i :: nat
  assumes "i < n"
  shows "\<exists>off<n. (a + off) mod n = i"
proof (intro exI conjI)
  let ?off = "(i + (n - a mod n)) mod n"
  show "?off < n" using assms by simp
  have "(a + ?off) mod n = (a mod n + (i + (n - a mod n))) mod n" by (simp add: mod_simps)
  also have "a mod n + (i + (n - a mod n)) = i + n"
    using assms mod_less_divisor [of n a] by linarith
  finally show "(a + ?off) mod n = i" using assms by simp
qed

text \<open>A loop that stores \<open>n\<close> values at consecutive indices of an array.\<close>

lemma length_fold_list_update [simp]:
  "length (fold (\<lambda>i xs. xs[off + i := f i]) is xs) = length xs"
  by (induction "is" arbitrary: xs) simp_all

lemma fold_list_update_eq:
  assumes "off + n \<le> length xs"
  shows "fold (\<lambda>i xs. xs[off + i := f i]) [0..<n] xs = take off xs @ map f [0..<n] @ drop (off + n) xs"
  using assms
proof (induction n)
  case (Suc n)
  then have "drop (off + n) xs = xs ! (off + n) # drop (off + Suc n) xs"
    by (simp add: Cons_nth_drop_Suc)
  with Suc show ?case by (simp add: list_update_append)
qed simp

end
