(* ===== verification/Kernel_Abi.thy ===== *)
theory Kernel_Abi
  imports Trona_Prelude
begin

text \<open>
  The kernel interface of the substrate: the constants of
  \<^verbatim>\<open>uapi/consts/kernel.rs\<close> and \<^verbatim>\<open>uapi/consts/server.rs\<close>, the shared IPC
  buffer page and the per-thread IPC context of \<^verbatim>\<open>uapi/types/core.rs\<close>, and the
  system call of \<^verbatim>\<open>substrate/syscall.rs\<close>.

  The kernel itself is not part of the repository.  It is a parameter of every
  definition that traps: a function from the call number, the six argument
  registers, the contents of the IPC buffer page (if one is bound) and an
  opaque kernel state to the two result registers, the new contents of the
  page and the new kernel state.  The same function stands for everything that
  happens outside the calling thread while it is in the kernel.
\<close>

section \<open>System call numbers\<close>

abbreviation (input) SYS_SEND :: u64 where "SYS_SEND \<equiv> 0"
abbreviation (input) SYS_RECV :: u64 where "SYS_RECV \<equiv> 1"
abbreviation (input) SYS_CALL :: u64 where "SYS_CALL \<equiv> 2"
abbreviation (input) SYS_REPLY_RECV :: u64 where "SYS_REPLY_RECV \<equiv> 3"
abbreviation (input) SYS_NBSEND :: u64 where "SYS_NBSEND \<equiv> 4"
abbreviation (input) SYS_SIGNAL :: u64 where "SYS_SIGNAL \<equiv> 5"
abbreviation (input) SYS_WAIT :: u64 where "SYS_WAIT \<equiv> 6"
abbreviation (input) SYS_POLL :: u64 where "SYS_POLL \<equiv> 7"
abbreviation (input) SYS_YIELD :: u64 where "SYS_YIELD \<equiv> 8"
abbreviation (input) SYS_INVOKE :: u64 where "SYS_INVOKE \<equiv> 9"
abbreviation (input) SYS_DEBUG_PUTCHAR :: u64 where "SYS_DEBUG_PUTCHAR \<equiv> 10"
abbreviation (input) SYS_DEBUG_DUMP_STATE :: u64 where "SYS_DEBUG_DUMP_STATE \<equiv> 11"
abbreviation (input) SYS_CLOCK_GETTIME :: u64 where "SYS_CLOCK_GETTIME \<equiv> 12"
abbreviation (input) SYS_NANOSLEEP :: u64 where "SYS_NANOSLEEP \<equiv> 13"
abbreviation (input) SYS_DEBUG_PUTSTR :: u64 where "SYS_DEBUG_PUTSTR \<equiv> 14"
abbreviation (input) SYS_DEBUG_PUTBUF :: u64 where "SYS_DEBUG_PUTBUF \<equiv> 15"
abbreviation (input) SYS_DEBUG_CONSOLE_CONTROL :: u64 where "SYS_DEBUG_CONSOLE_CONTROL \<equiv> 16"
abbreviation (input) SYS_SET_INVOKE_DEPTHS :: u64 where "SYS_SET_INVOKE_DEPTHS \<equiv> 17"
abbreviation (input) SYS_FUTEX :: u64 where "SYS_FUTEX \<equiv> 18"
abbreviation (input) SYS_GETRANDOM :: u64 where "SYS_GETRANDOM \<equiv> 19"
abbreviation (input) SYS_SHUTDOWN :: u64 where "SYS_SHUTDOWN \<equiv> 20"
abbreviation (input) SYS_SEND_TIMED :: u64 where "SYS_SEND_TIMED \<equiv> 21"
abbreviation (input) SYS_RECV_TIMED :: u64 where "SYS_RECV_TIMED \<equiv> 22"
abbreviation (input) SYS_RECV_ANY :: u64 where "SYS_RECV_ANY \<equiv> 23"
abbreviation (input) SYS_REPLY_RECV_ANY :: u64 where "SYS_REPLY_RECV_ANY \<equiv> 24"
abbreviation (input) SYS_RECV_ANY_TIMED :: u64 where "SYS_RECV_ANY_TIMED \<equiv> 25"
abbreviation (input) SYS_REPLY_RECV_ANY_TIMED :: u64 where "SYS_REPLY_RECV_ANY_TIMED \<equiv> 26"
abbreviation (input) SYS_NOTIF_RETURN :: u64 where "SYS_NOTIF_RETURN \<equiv> 27"
abbreviation (input) SYS_THREAD_EXIT :: u64 where "SYS_THREAD_EXIT \<equiv> 28"
abbreviation (input) IPC_RECV_SOURCE_NOTIFICATION :: u64 where "IPC_RECV_SOURCE_NOTIFICATION \<equiv> 0xFFFFFFFFFFFFFFFF"
abbreviation (input) FUTEX_WAIT :: u64 where "FUTEX_WAIT \<equiv> 0"
abbreviation (input) FUTEX_WAKE :: u64 where "FUTEX_WAKE \<equiv> 1"
abbreviation (input) FUTEX_WAIT_TIMEOUT :: u64 where "FUTEX_WAIT_TIMEOUT \<equiv> 2"

section \<open>Invocation labels\<close>

abbreviation (input) CNODE_COPY :: u64 where "CNODE_COPY \<equiv> 0x10"
abbreviation (input) CNODE_MINT :: u64 where "CNODE_MINT \<equiv> 0x11"
abbreviation (input) CNODE_MOVE :: u64 where "CNODE_MOVE \<equiv> 0x12"
abbreviation (input) CNODE_MUTATE :: u64 where "CNODE_MUTATE \<equiv> 0x13"
abbreviation (input) CNODE_DELETE :: u64 where "CNODE_DELETE \<equiv> 0x14"
abbreviation (input) CNODE_REVOKE :: u64 where "CNODE_REVOKE \<equiv> 0x15"
abbreviation (input) CNODE_SAVE_CALLER :: u64 where "CNODE_SAVE_CALLER \<equiv> 0x16"
abbreviation (input) CNODE_SET_GUARD :: u64 where "CNODE_SET_GUARD \<equiv> 0x17"
abbreviation (input) CNODE_GET_INFO :: u64 where "CNODE_GET_INFO \<equiv> 0x18"
abbreviation (input) UNTYPED_RETYPE :: u64 where "UNTYPED_RETYPE \<equiv> 0x20"
abbreviation (input) UNTYPED_RESET :: u64 where "UNTYPED_RESET \<equiv> 0x21"
abbreviation (input) SC_CONFIGURE :: u64 where "SC_CONFIGURE \<equiv> 0x30"
abbreviation (input) SC_BIND :: u64 where "SC_BIND \<equiv> 0x31"
abbreviation (input) TCB_CONFIGURE :: u64 where "TCB_CONFIGURE \<equiv> 0x40"
abbreviation (input) TCB_RESUME :: u64 where "TCB_RESUME \<equiv> 0x41"
abbreviation (input) TCB_SUSPEND :: u64 where "TCB_SUSPEND \<equiv> 0x42"
abbreviation (input) TCB_SET_SPACE :: u64 where "TCB_SET_SPACE \<equiv> 0x43"
abbreviation (input) TCB_WRITE_REGISTERS :: u64 where "TCB_WRITE_REGISTERS \<equiv> 0x46"
abbreviation (input) TCB_SET_IPC_BUFFER :: u64 where "TCB_SET_IPC_BUFFER \<equiv> 0x48"
abbreviation (input) TCB_BIND_NOTIFICATION :: u64 where "TCB_BIND_NOTIFICATION \<equiv> 0x49"
abbreviation (input) TCB_SET_FAULT_HANDLER :: u64 where "TCB_SET_FAULT_HANDLER \<equiv> 0x4B"
abbreviation (input) TCB_COPY_FPU :: u64 where "TCB_COPY_FPU \<equiv> 0x4C"
abbreviation (input) TCB_SET_TLS_BASE :: u64 where "TCB_SET_TLS_BASE \<equiv> 0x4D"
abbreviation (input) TCB_SET_NOTIFICATION_DISPATCHER :: u64 where "TCB_SET_NOTIFICATION_DISPATCHER \<equiv> 0x4E"
abbreviation (input) TCB_GET_SPACE_INFO :: u64 where "TCB_GET_SPACE_INFO \<equiv> 0x4F"
abbreviation (input) VSPACE_MAP :: u64 where "VSPACE_MAP \<equiv> 0x50"
abbreviation (input) VSPACE_UNMAP :: u64 where "VSPACE_UNMAP \<equiv> 0x51"
abbreviation (input) VSPACE_MAP_PT :: u64 where "VSPACE_MAP_PT \<equiv> 0x52"
abbreviation (input) VSPACE_WALK :: u64 where "VSPACE_WALK \<equiv> 0x53"
abbreviation (input) VSPACE_COPY_PAGE :: u64 where "VSPACE_COPY_PAGE \<equiv> 0x54"
abbreviation (input) VSPACE_MAP_DEVICE :: u64 where "VSPACE_MAP_DEVICE \<equiv> 0x55"
abbreviation (input) VSPACE_CLONE_COW_PAGE :: u64 where "VSPACE_CLONE_COW_PAGE \<equiv> 0x56"
abbreviation (input) VSPACE_MAP_DEVICE_RANGE :: u64 where "VSPACE_MAP_DEVICE_RANGE \<equiv> 0x57"
abbreviation (input) VSPACE_PROTECT :: u64 where "VSPACE_PROTECT \<equiv> 0x58"
abbreviation (input) VSPACE_MAP_DEMAND :: u64 where "VSPACE_MAP_DEMAND \<equiv> 0x59"
abbreviation (input) VSPACE_MAP_DEMAND_RANGE :: u64 where "VSPACE_MAP_DEMAND_RANGE \<equiv> 0x5A"
abbreviation (input) VSPACE_COW_RESOLVE :: u64 where "VSPACE_COW_RESOLVE \<equiv> 0x5B"
abbreviation (input) VSPACE_SET_COW_POOL :: u64 where "VSPACE_SET_COW_POOL \<equiv> 0x5C"
abbreviation (input) VSPACE_SET_COW_NOTIF :: u64 where "VSPACE_SET_COW_NOTIF \<equiv> 0x5D"
abbreviation (input) VSPACE_REPLENISH_COW_POOL :: u64 where "VSPACE_REPLENISH_COW_POOL \<equiv> 0x5E"
abbreviation (input) VSPACE_PROTECT_RANGE :: u64 where "VSPACE_PROTECT_RANGE \<equiv> 0x5F"
abbreviation (input) IRQ_CONTROL_GET :: u64 where "IRQ_CONTROL_GET \<equiv> 0x60"
abbreviation (input) IRQ_HANDLER_ACK :: u64 where "IRQ_HANDLER_ACK \<equiv> 0x61"
abbreviation (input) IRQ_HANDLER_SET_NOTIFICATION :: u64 where "IRQ_HANDLER_SET_NOTIFICATION \<equiv> 0x62"
abbreviation (input) IRQ_HANDLER_CLEAR :: u64 where "IRQ_HANDLER_CLEAR \<equiv> 0x63"
abbreviation (input) DEVICE_UNTYPED_CREATE :: u64 where "DEVICE_UNTYPED_CREATE \<equiv> 0x64"
abbreviation (input) IOPORT_IN8 :: u64 where "IOPORT_IN8 \<equiv> 0x70"
abbreviation (input) IOPORT_OUT8 :: u64 where "IOPORT_OUT8 \<equiv> 0x71"
abbreviation (input) IOPORT_IN16 :: u64 where "IOPORT_IN16 \<equiv> 0x72"
abbreviation (input) IOPORT_OUT16 :: u64 where "IOPORT_OUT16 \<equiv> 0x73"
abbreviation (input) IOPORT_IN32 :: u64 where "IOPORT_IN32 \<equiv> 0x74"
abbreviation (input) IOPORT_OUT32 :: u64 where "IOPORT_OUT32 \<equiv> 0x75"
abbreviation (input) IOPORT_CONFIGURE :: u64 where "IOPORT_CONFIGURE \<equiv> 0x76"
abbreviation (input) IOPORT_CREATE :: u64 where "IOPORT_CREATE \<equiv> 0x77"
abbreviation (input) MO_COMMIT :: u64 where "MO_COMMIT \<equiv> 0x90"
abbreviation (input) MO_DECOMMIT :: u64 where "MO_DECOMMIT \<equiv> 0x91"
abbreviation (input) MO_GET_SIZE :: u64 where "MO_GET_SIZE \<equiv> 0x92"
abbreviation (input) MO_CLONE :: u64 where "MO_CLONE \<equiv> 0x93"
abbreviation (input) MO_RESIZE :: u64 where "MO_RESIZE \<equiv> 0x94"
abbreviation (input) MO_READ :: u64 where "MO_READ \<equiv> 0x95"
abbreviation (input) MO_WRITE :: u64 where "MO_WRITE \<equiv> 0x96"
abbreviation (input) MO_HAS_PAGE :: u64 where "MO_HAS_PAGE \<equiv> 0x97"
abbreviation (input) VSPACE_MAP_MO :: u64 where "VSPACE_MAP_MO \<equiv> 0x97"
abbreviation (input) VSPACE_SHARE_RO_PAGE :: u64 where "VSPACE_SHARE_RO_PAGE \<equiv> 0x99"
abbreviation (input) VSPACE_FORK_RANGE :: u64 where "VSPACE_FORK_RANGE \<equiv> 0x9A"

section \<open>Error codes of the kernel\<close>

abbreviation (input) TRONA_OK :: u64 where "TRONA_OK \<equiv> 0"
abbreviation (input) TRONA_INVALID_CAPABILITY :: u64 where "TRONA_INVALID_CAPABILITY \<equiv> 1"
abbreviation (input) TRONA_INVALID_OPERATION :: u64 where "TRONA_INVALID_OPERATION \<equiv> 2"
abbreviation (input) TRONA_INSUFFICIENT_RIGHTS :: u64 where "TRONA_INSUFFICIENT_RIGHTS \<equiv> 3"
abbreviation (input) TRONA_INVALID_ARGUMENT :: u64 where "TRONA_INVALID_ARGUMENT \<equiv> 4"
abbreviation (input) TRONA_OUT_OF_MEMORY :: u64 where "TRONA_OUT_OF_MEMORY \<equiv> 5"
abbreviation (input) TRONA_NOT_FOUND :: u64 where "TRONA_NOT_FOUND \<equiv> 6"
abbreviation (input) TRONA_BUSY :: u64 where "TRONA_BUSY \<equiv> 7"
abbreviation (input) TRONA_ALREADY_EXISTS :: u64 where "TRONA_ALREADY_EXISTS \<equiv> 8"
abbreviation (input) TRONA_WOULD_BLOCK :: u64 where "TRONA_WOULD_BLOCK \<equiv> 9"
abbreviation (input) TRONA_BAD_ADDRESS :: u64 where "TRONA_BAD_ADDRESS \<equiv> 10"
abbreviation (input) TRONA_OUT_OF_RANGE :: u64 where "TRONA_OUT_OF_RANGE \<equiv> 11"
abbreviation (input) TRONA_CANCELLED :: u64 where "TRONA_CANCELLED \<equiv> 12"
abbreviation (input) TRONA_RESTART :: u64 where "TRONA_RESTART \<equiv> 13"
abbreviation (input) TRONA_DEADLOCK :: u64 where "TRONA_DEADLOCK \<equiv> 14"
abbreviation (input) TRONA_INTERRUPTED :: u64 where "TRONA_INTERRUPTED \<equiv> 15"
abbreviation (input) TRONA_SLOT_OCCUPIED :: u64 where "TRONA_SLOT_OCCUPIED \<equiv> 0x18"
abbreviation (input) TRONA_ALREADY_MAPPED :: u64 where "TRONA_ALREADY_MAPPED \<equiv> 0x19"
abbreviation (input) TRONA_ALREADY_BOUND :: u64 where "TRONA_ALREADY_BOUND \<equiv> 0x1A"
abbreviation (input) TRONA_IN_PROGRESS :: u64 where "TRONA_IN_PROGRESS \<equiv> 0x10"
abbreviation (input) TRONA_TOO_LARGE :: u64 where "TRONA_TOO_LARGE \<equiv> 0x11"
abbreviation (input) TRONA_NOT_SUPPORTED :: u64 where "TRONA_NOT_SUPPORTED \<equiv> 0x12"
abbreviation (input) TRONA_READONLY :: u64 where "TRONA_READONLY \<equiv> 0x13"
abbreviation (input) TRONA_NOT_DIRECTORY :: u64 where "TRONA_NOT_DIRECTORY \<equiv> 0x14"
abbreviation (input) TRONA_IS_DIRECTORY :: u64 where "TRONA_IS_DIRECTORY \<equiv> 0x15"
abbreviation (input) TRONA_LOOP :: u64 where "TRONA_LOOP \<equiv> 0x16"
abbreviation (input) TRONA_IO_ERROR :: u64 where "TRONA_IO_ERROR \<equiv> 0x17"
abbreviation (input) TRONA_PENDING :: u64 where "TRONA_PENDING \<equiv> 0x80"

section \<open>Error codes of the network servers\<close>

abbreviation (input) TRONA_CONN_REFUSED :: u64 where "TRONA_CONN_REFUSED \<equiv> 21"
abbreviation (input) TRONA_TIMED_OUT :: u64 where "TRONA_TIMED_OUT \<equiv> 22"
abbreviation (input) TRONA_DNS_NXDOMAIN :: u64 where "TRONA_DNS_NXDOMAIN \<equiv> 23"
abbreviation (input) TRONA_DNS_SERVER_FAIL :: u64 where "TRONA_DNS_SERVER_FAIL \<equiv> 24"
abbreviation (input) TRONA_PROTO_NOT_SUPPORTED :: u64 where "TRONA_PROTO_NOT_SUPPORTED \<equiv> 25"
abbreviation (input) TRONA_HOST_UNREACHABLE :: u64 where "TRONA_HOST_UNREACHABLE \<equiv> 26"
abbreviation (input) TRONA_NET_UNREACHABLE :: u64 where "TRONA_NET_UNREACHABLE \<equiv> 27"
abbreviation (input) TRONA_NO_BUFS :: u64 where "TRONA_NO_BUFS \<equiv> 28"
abbreviation (input) TRONA_CONN_RESET :: u64 where "TRONA_CONN_RESET \<equiv> 29"
abbreviation (input) TRONA_NOT_CONNECTED :: u64 where "TRONA_NOT_CONNECTED \<equiv> 30"
abbreviation (input) TRONA_IS_CONNECTED :: u64 where "TRONA_IS_CONNECTED \<equiv> 31"
abbreviation (input) TRONA_ADDR_IN_USE :: u64 where "TRONA_ADDR_IN_USE \<equiv> 32"

section \<open>Page mapping flags, well-known slots and rights\<close>

abbreviation (input) VSPACE_FLAG_WRITABLE :: u64 where "VSPACE_FLAG_WRITABLE \<equiv> 1"
abbreviation (input) VSPACE_FLAG_USER :: u64 where "VSPACE_FLAG_USER \<equiv> 2"
abbreviation (input) VSPACE_FLAG_EXECUTABLE :: u64 where "VSPACE_FLAG_EXECUTABLE \<equiv> 4"
abbreviation (input) VSPACE_FLAG_CACHE_DISABLE :: u64 where "VSPACE_FLAG_CACHE_DISABLE \<equiv> 8"
abbreviation (input) VSPACE_FLAG_WRITE_THROUGH :: u64 where "VSPACE_FLAG_WRITE_THROUGH \<equiv> 16"
abbreviation (input) VSPACE_FLAG_COW :: u64 where "VSPACE_FLAG_COW \<equiv> 32"
abbreviation (input) OBJ_UNTYPED :: u64 where "OBJ_UNTYPED \<equiv> 1"
abbreviation (input) OBJ_ENDPOINT :: u64 where "OBJ_ENDPOINT \<equiv> 2"
abbreviation (input) OBJ_NOTIFICATION :: u64 where "OBJ_NOTIFICATION \<equiv> 3"
abbreviation (input) OBJ_TCB :: u64 where "OBJ_TCB \<equiv> 4"
abbreviation (input) OBJ_CNODE :: u64 where "OBJ_CNODE \<equiv> 5"
abbreviation (input) OBJ_VSPACE :: u64 where "OBJ_VSPACE \<equiv> 6"
abbreviation (input) OBJ_FRAME :: u64 where "OBJ_FRAME \<equiv> 7"
abbreviation (input) OBJ_IRQ_HANDLER :: u64 where "OBJ_IRQ_HANDLER \<equiv> 8"
abbreviation (input) OBJ_IO_PORT :: u64 where "OBJ_IO_PORT \<equiv> 9"
abbreviation (input) OBJ_SCHED_CONTEXT :: u64 where "OBJ_SCHED_CONTEXT \<equiv> 10"
abbreviation (input) OBJ_MEMORY_OBJECT :: u64 where "OBJ_MEMORY_OBJECT \<equiv> 11"
abbreviation (input) CAP_SELF_TCB :: u64 where "CAP_SELF_TCB \<equiv> 0"
abbreviation (input) CAP_SELF_VSPACE :: u64 where "CAP_SELF_VSPACE \<equiv> 1"
abbreviation (input) CAP_SELF_CSPACE :: u64 where "CAP_SELF_CSPACE \<equiv> 2"
abbreviation (input) CAP_RIGHTS_ALL :: u64 where "CAP_RIGHTS_ALL \<equiv> 0xFFFFFFFF"

section \<open>Startup capability table\<close>

abbreviation (input) AT_TRONA_CSPACE_LAYOUT :: u64 where "AT_TRONA_CSPACE_LAYOUT \<equiv> 0x1005"
abbreviation (input) AT_TRONA_CSPACE_NTFN :: u64 where "AT_TRONA_CSPACE_NTFN \<equiv> 0x100A"
abbreviation (input) AT_TRONA_IPC_BUFFER :: u64 where "AT_TRONA_IPC_BUFFER \<equiv> 0x100C"
abbreviation (input) AT_TRONA_SC_CAP :: u64 where "AT_TRONA_SC_CAP \<equiv> 0x100E"
abbreviation (input) AT_TRONA_CAP_TABLE :: u64 where "AT_TRONA_CAP_TABLE \<equiv> 0x101C"
abbreviation (input) TRONA_CAP_TABLE_MAGIC :: u32 where "TRONA_CAP_TABLE_MAGIC \<equiv> 0x43544153"
abbreviation (input) TRONA_CAP_TABLE_VERSION :: u32 where "TRONA_CAP_TABLE_VERSION \<equiv> 1"
abbreviation (input) ROLE_PROCMGR_CONTROL :: u32 where "ROLE_PROCMGR_CONTROL \<equiv> 0x0001"
abbreviation (input) ROLE_SERVICE_EP :: u32 where "ROLE_SERVICE_EP \<equiv> 0x0002"
abbreviation (input) ROLE_NAMESRV_CLIENT :: u32 where "ROLE_NAMESRV_CLIENT \<equiv> 0x0003"
abbreviation (input) ROLE_VFS_CLIENT :: u32 where "ROLE_VFS_CLIENT \<equiv> 0x0004"
abbreviation (input) ROLE_MMSRV_CLIENT :: u32 where "ROLE_MMSRV_CLIENT \<equiv> 0x0005"
abbreviation (input) ROLE_MMSRV_AUTHORITY_RAW :: u32 where "ROLE_MMSRV_AUTHORITY_RAW \<equiv> 0x0006"
abbreviation (input) ROLE_RSRCSRV_CLIENT :: u32 where "ROLE_RSRCSRV_CLIENT \<equiv> 0x0007"
abbreviation (input) ROLE_RSRCSRV_AUTHORITY_RAW :: u32 where "ROLE_RSRCSRV_AUTHORITY_RAW \<equiv> 0x0008"
abbreviation (input) ROLE_CONSOLE_CLIENT :: u32 where "ROLE_CONSOLE_CLIENT \<equiv> 0x0009"
abbreviation (input) ROLE_SIGNAL_NTFN :: u32 where "ROLE_SIGNAL_NTFN \<equiv> 0x000A"
abbreviation (input) ROLE_READINESS_NTFN :: u32 where "ROLE_READINESS_NTFN \<equiv> 0x000B"
abbreviation (input) ROLE_INITRD_UNTYPED :: u32 where "ROLE_INITRD_UNTYPED \<equiv> 0x000C"
abbreviation (input) ROLE_FB_UNTYPED :: u32 where "ROLE_FB_UNTYPED \<equiv> 0x000D"
abbreviation (input) ROLE_PCI_IOPORT :: u32 where "ROLE_PCI_IOPORT \<equiv> 0x000E"
abbreviation (input) ROLE_COM1_IOPORT :: u32 where "ROLE_COM1_IOPORT \<equiv> 0x000F"
abbreviation (input) ROLE_WIN32SRV_CLIENT :: u32 where "ROLE_WIN32SRV_CLIENT \<equiv> 0x0010"
abbreviation (input) ROLE_CSPACE_NTFN :: u32 where "ROLE_CSPACE_NTFN \<equiv> 0x0011"
abbreviation (input) ROLE_SC_CAP :: u32 where "ROLE_SC_CAP \<equiv> 0x0012"
abbreviation (input) LOCAL_ROLE_BASE :: u32 where "LOCAL_ROLE_BASE \<equiv> 0x0100"
abbreviation (input) LOCAL_ROLE_END :: u32 where "LOCAL_ROLE_END \<equiv> 0x0FFF"

section \<open>CSpace expansion\<close>

abbreviation (input) CSPACE_EXPAND_BASE :: u64 where "CSPACE_EXPAND_BASE \<equiv> 1008"

abbreviation (input) MAX_CSPACE_EXPANSIONS :: nat where "MAX_CSPACE_EXPANSIONS \<equiv> 8"

section \<open>The IPC buffer page and the IPC context\<close>

record TronaResult =
  r_error :: u64
  r_value :: u64

text \<open>A message: label, number of valid registers, and 32 registers.\<close>

record TronaMsg =
  m_label :: u64
  m_length :: u64
  m_regs :: "u64 list"

definition TronaMsg_zeroed :: TronaMsg where
  "TronaMsg_zeroed = \<lparr>m_label = 0, m_length = 0, m_regs = replicate 32 0\<rparr>"

record IpcBuffer =
  ib_msg :: "u64 list"
  ib_badge :: u64
  ib_caps :: "u64 list"
  ib_receive_cnode :: u64
  ib_receive_index :: u64
  ib_receive_depth :: u64
  ib_timeout_ns :: u64
  ib_reserved :: "u64 list"

abbreviation (input) IPC_BUFFER_RESERVED_WORDS :: nat where
  "IPC_BUFFER_RESERVED_WORDS \<equiv> 465"

text \<open>
  The page seen as the array of words it is (the struct is \<open>repr(C)\<close> and every
  field is a \<open>u64\<close> or an array of them, so there is no padding).
\<close>

definition ipc_words :: "IpcBuffer \<Rightarrow> u64 list" where
  "ipc_words b = ib_msg b @ [ib_badge b] @ ib_caps b @
     [ib_receive_cnode b, ib_receive_index b, ib_receive_depth b, ib_timeout_ns b] @ ib_reserved b"

definition IpcBuffer_wf :: "IpcBuffer \<Rightarrow> bool" where
  "IpcBuffer_wf b \<longleftrightarrow> length (ib_msg b) = 34 \<and> length (ib_caps b) = 4 \<and>
     length (ib_reserved b) = IPC_BUFFER_RESERVED_WORDS"

text \<open>A page of zeros, as the kernel maps it.\<close>

definition zero_ipc_buffer :: IpcBuffer where
  "zero_ipc_buffer =
     \<lparr>ib_msg = replicate 34 0, ib_badge = 0, ib_caps = replicate 4 0, ib_receive_cnode = 0,
      ib_receive_index = 0, ib_receive_depth = 0, ib_timeout_ns = 0,
      ib_reserved = replicate IPC_BUFFER_RESERVED_WORDS 0\<rparr>"

text \<open>
  The calling thread and what it shares with the kernel: its IPC context (the
  buffer pointer, \<^const>\<open>None\<close> when null, and the number of staged
  capabilities) and the kernel's own state.
\<close>

record 'k machine =
  ipc_buffer :: "IpcBuffer option"
  send_cap_count :: int
  kern :: 'k

type_synonym 'k kernel =
  "u64 \<Rightarrow> u64 \<Rightarrow> u64 \<Rightarrow> u64 \<Rightarrow> u64 \<Rightarrow> u64 \<Rightarrow> u64 \<Rightarrow> IpcBuffer option \<Rightarrow> 'k \<Rightarrow>
   TronaResult \<times> IpcBuffer \<times> 'k"

section \<open>System calls\<close>

text \<open>
  The trap.  The kernel writes to the buffer page only when one is bound.
\<close>

definition syscall ::
  "'k kernel \<Rightarrow> u64 \<Rightarrow> u64 \<Rightarrow> u64 \<Rightarrow> u64 \<Rightarrow> u64 \<Rightarrow> u64 \<Rightarrow> u64 \<Rightarrow> 'k machine \<Rightarrow>
   TronaResult \<times> 'k machine" where
  "syscall K num a0 a1 a2 a3 a4 a5 m =
     (case K num a0 a1 a2 a3 a4 a5 (ipc_buffer m) (kern m) of
        (r, b, k) \<Rightarrow> (r, m\<lparr>ipc_buffer := map_option (\<lambda>_. b) (ipc_buffer m), kern := k\<rparr>))"

text \<open>Timed send and receive store the timeout in the page before trapping.\<close>

definition sys_send_timed ::
  "'k kernel \<Rightarrow> u64 \<Rightarrow> u64 \<Rightarrow> u64 \<Rightarrow> u64 \<Rightarrow> u64 \<Rightarrow> u64 \<Rightarrow> u64 \<Rightarrow> 'k machine \<Rightarrow>
   u64 \<times> 'k machine" where
  "sys_send_timed K cap msg_info mr0 mr1 mr2 mr3 timeout m =
     (case ipc_buffer m of
        None \<Rightarrow> (TRONA_INVALID_OPERATION, m)
      | Some b \<Rightarrow>
          (case syscall K SYS_SEND_TIMED cap msg_info mr0 mr1 mr2 mr3
                  (m\<lparr>ipc_buffer := Some (b\<lparr>ib_timeout_ns := timeout\<rparr>)\<rparr>) of
             (r, m') \<Rightarrow> (r_error r, m')))"

definition sys_recv_timed ::
  "'k kernel \<Rightarrow> u64 \<Rightarrow> u64 \<Rightarrow> 'k machine \<Rightarrow> TronaResult \<times> 'k machine" where
  "sys_recv_timed K cap timeout m =
     (case ipc_buffer m of
        None \<Rightarrow> (\<lparr>r_error = TRONA_INVALID_OPERATION, r_value = 0\<rparr>, m)
      | Some b \<Rightarrow>
          syscall K SYS_RECV_TIMED cap 0 0 0 0 0
            (m\<lparr>ipc_buffer := Some (b\<lparr>ib_timeout_ns := timeout\<rparr>)\<rparr>))"

definition sys_getrandom :: "'k kernel \<Rightarrow> 'k machine \<Rightarrow> u64 option \<times> 'k machine" where
  "sys_getrandom K m =
     (case syscall K SYS_GETRANDOM 0 0 0 0 0 0 m of
        (r, m') \<Rightarrow> (if r_error r = 0 then Some (r_value r) else None, m'))"

text \<open>The universal capability operation.\<close>

definition invoke ::
  "'k kernel \<Rightarrow> cap \<Rightarrow> u64 \<Rightarrow> u64 \<Rightarrow> u64 \<Rightarrow> u64 \<Rightarrow> u64 \<Rightarrow> 'k machine \<Rightarrow>
   TronaResult \<times> 'k machine" where
  "invoke K cap lbl arg0 arg1 arg2 arg3 m = syscall K SYS_INVOKE cap lbl arg0 arg1 arg2 arg3 m"

text \<open>
  Most wrappers return only \<open>error as i32\<close>: the low half of the error register
  as a signed number.
\<close>

definition err32 :: "u64 \<Rightarrow> int" where
  "err32 e = sint (ucast e :: u32)"

definition invoke_err ::
  "'k kernel \<Rightarrow> cap \<Rightarrow> u64 \<Rightarrow> u64 \<Rightarrow> u64 \<Rightarrow> u64 \<Rightarrow> u64 \<Rightarrow> 'k machine \<Rightarrow>
   int \<times> 'k machine" where
  "invoke_err K cap lbl arg0 arg1 arg2 arg3 m =
     (case invoke K cap lbl arg0 arg1 arg2 arg3 m of (r, m') \<Rightarrow> (err32 (r_error r), m'))"

section \<open>Facts\<close>

lemma IpcBuffer_words: "IpcBuffer_wf b \<Longrightarrow> length (ipc_words b) = 508"
  by (simp add: IpcBuffer_wf_def ipc_words_def)

lemma zero_ipc_buffer_wf [simp]: "IpcBuffer_wf zero_ipc_buffer"
  by (simp add: IpcBuffer_wf_def zero_ipc_buffer_def)

lemma syscall_bound [simp]:
  "ipc_buffer (snd (syscall K num a0 a1 a2 a3 a4 a5 m)) = None \<longleftrightarrow> ipc_buffer m = None"
  by (simp add: syscall_def split: prod.splits)

lemma syscall_send_cap_count [simp]:
  "send_cap_count (snd (syscall K num a0 a1 a2 a3 a4 a5 m)) = send_cap_count m"
  by (simp add: syscall_def split: prod.splits)

end
