(* ===== verification/Slot_Alloc.thy ===== *)
theory Slot_Alloc
  imports Kernel_Abi
begin

text \<open>
  The per-process CSpace slot allocator, \<^verbatim>\<open>substrate/slot_alloc.rs\<close>: a chain of
  at most sixteen segments, each a contiguous range of at most 4096 capability
  slots with a bitmap, and the protocol that asks the process manager for one
  more segment when the chain is full.

  The state of the allocator is the static \<open>SLOT_ALLOC\<close>.  Allocation, freeing and
  expansion change it under \<open>SLOT_LOCK\<close>; each definition below that models a locked
  section is therefore one atomic transformation of the state, and \<open>slot_step\<close>
  collects them as the steps that any number of threads may take in any order.
  Initialisation, which runs before there are other threads, and the queries
  (\<open>is_initialized\<close>, \<open>base\<close>, \<open>count\<close>, \<open>remaining\<close>, the depth) do not take the lock.

  Indices and lengths of type \<open>usize\<close> are naturals: they are bounded by the
  array sizes 16, 64 and 4096.
\<close>

section \<open>Data\<close>

abbreviation (input) SLOT_EXPAND_BITS_DEFAULT :: nat where "SLOT_EXPAND_BITS_DEFAULT \<equiv> 10"
abbreviation (input) MAX_SEGMENTS :: nat where "MAX_SEGMENTS \<equiv> 16"
abbreviation (input) MAX_SEGMENT_SLOTS :: nat where "MAX_SEGMENT_SLOTS \<equiv> 4096"
abbreviation (input) SEGMENT_BITMAP_WORDS :: nat where "SEGMENT_BITMAP_WORDS \<equiv> 64"

record Segment =
  sg_base :: cap
  sg_count :: u64
  sg_alloc_hint :: u64
  sg_used :: u64
  sg_bits :: "u64 list"

datatype SlotResult = SlotOk cap | WouldBlock | Exhausted

datatype ExpandState = Idle | Requested | ExpandFailed

datatype ExpandProgress = Completed | Pending | ProgressFailed

record SlotAllocState =
  segments :: "Segment list"
  seg_count :: nat
  active_seg :: nat
  initialized :: bool
  cspace_ntfn :: cap
  expand_state :: ExpandState
  root_bits :: u8
  expanded_depth :: u8
  cspace_expand_count :: nat

text \<open>A segment without an allocated slot.\<close>

definition new_segment :: "cap \<Rightarrow> u64 \<Rightarrow> Segment" where
  "new_segment base count =
     \<lparr>sg_base = base, sg_count = count, sg_alloc_hint = 0, sg_used = 0,
      sg_bits = replicate SEGMENT_BITMAP_WORDS 0\<rparr>"

definition SLOT_ALLOC :: SlotAllocState where
  "SLOT_ALLOC =
     \<lparr>segments = replicate MAX_SEGMENTS (new_segment 0 0), seg_count = 0, active_seg = 0,
      initialized = False, cspace_ntfn = 0, expand_state = Idle, root_bits = 0,
      expanded_depth = 0, cspace_expand_count = 0\<rparr>"

section \<open>Operations on one segment\<close>

definition segment_slot_index :: "Segment \<Rightarrow> cap \<Rightarrow> nat option" where
  "segment_slot_index seg slot =
     (if slot < sg_base seg then None
      else let idx = slot - sg_base seg
           in if sg_count seg \<le> idx then None else Some (unat idx))"

definition segment_is_used :: "Segment \<Rightarrow> nat \<Rightarrow> bool" where
  "segment_is_used seg idx =
     (let word = idx div 64; b = idx mod 64
      in sg_bits seg ! word AND push_bit b 1 \<noteq> 0)"

definition segment_mark_used :: "Segment \<Rightarrow> nat \<Rightarrow> Segment" where
  "segment_mark_used seg idx =
     (let word = idx div 64; b = idx mod 64
      in seg\<lparr>sg_bits := (sg_bits seg)[word := sg_bits seg ! word OR push_bit b 1],
             sg_used := sg_used seg + 1\<rparr>)"

definition segment_mark_free :: "Segment \<Rightarrow> nat \<Rightarrow> Segment" where
  "segment_mark_free seg idx =
     (let word = idx div 64; b = idx mod 64
      in seg\<lparr>sg_bits := (sg_bits seg)[word := sg_bits seg ! word AND NOT (push_bit b 1)],
             sg_used := saturating_sub (sg_used seg) 1\<rparr>)"

text \<open>
  The two loops look for the first free index from the hint to the end and then
  from the beginning to the hint; their common body is \<open>segment_take\<close>.
\<close>

definition segment_take :: "Segment \<Rightarrow> nat \<Rightarrow> cap option \<times> Segment" where
  "segment_take seg idx =
     (Some (sg_base seg + of_nat idx),
      (segment_mark_used seg idx)\<lparr>sg_alloc_hint := of_nat (idx + 1)\<rparr>)"

definition segment_alloc_single :: "Segment \<Rightarrow> cap option \<times> Segment" where
  "segment_alloc_single seg =
     (if sg_count seg \<le> sg_used seg then (None, seg)
      else let count = unat (sg_count seg);
               start = min (unat (sg_alloc_hint seg)) count
           in case find (\<lambda>idx. \<not> segment_is_used seg idx) [start..<count] of
                Some idx \<Rightarrow> segment_take seg idx
              | None \<Rightarrow>
                  (case find (\<lambda>idx. \<not> segment_is_used seg idx) [0..<start] of
                     Some idx \<Rightarrow> segment_take seg idx
                   | None \<Rightarrow> (None, seg)))"

text \<open>The scan for a run of \<open>n\<close> free indices, with the loop's two variables.\<close>

fun find_run :: "Segment \<Rightarrow> nat \<Rightarrow> nat list \<Rightarrow> nat \<Rightarrow> nat \<Rightarrow> nat option" where
  "find_run seg n [] run_start run_len = None"
| "find_run seg n (idx # idxs) run_start run_len =
     (if \<not> segment_is_used seg idx
      then let run_start' = (if run_len = 0 then idx else run_start);
               run_len' = run_len + 1
           in if run_len' = n then Some run_start'
              else find_run seg n idxs run_start' run_len'
      else find_run seg n idxs run_start 0)"

definition segment_alloc_contiguous :: "Segment \<Rightarrow> u64 \<Rightarrow> cap option \<times> Segment" where
  "segment_alloc_contiguous seg count =
     (if count = 0 \<or> saturating_sub (sg_count seg) (sg_used seg) < count then (None, seg)
      else if count = 1 then segment_alloc_single seg
      else case find_run seg (unat count) [0..<unat (sg_count seg)] 0 0 of
             Some run_start \<Rightarrow>
               (Some (sg_base seg + of_nat run_start),
                (fold (\<lambda>mark s. segment_mark_used s mark)
                   [run_start..<run_start + unat count] seg)
                  \<lparr>sg_alloc_hint := of_nat (run_start + unat count)\<rparr>)
           | None \<Rightarrow> (None, seg))"

definition segment_free :: "Segment \<Rightarrow> nat \<Rightarrow> bool \<times> Segment" where
  "segment_free seg idx =
     (if unat (sg_count seg) \<le> idx \<or> \<not> segment_is_used seg idx then (False, seg)
      else let seg' = segment_mark_free seg idx
           in (True, if of_nat idx \<le> sg_alloc_hint seg'
                     then seg'\<lparr>sg_alloc_hint := of_nat idx\<rparr> else seg'))"

section \<open>Initialisation and queries\<close>

text \<open>The loop that cuts the initial range into segments; it returns what is left over.\<close>

function (sequential) init_segments ::
  "cap \<Rightarrow> u64 \<Rightarrow> SlotAllocState \<Rightarrow> u64 \<times> SlotAllocState" where
  "init_segments next_base remaining st =
     (if remaining \<noteq> 0 \<and> seg_count st < MAX_SEGMENTS
      then let chunk = min remaining (of_nat MAX_SEGMENT_SLOTS);
               si = seg_count st
           in init_segments (next_base + chunk) (remaining - chunk)
                (st\<lparr>segments := (segments st)[si := new_segment next_base chunk],
                    seg_count := seg_count st + 1\<rparr>)
      else (remaining, st))"
  by pat_completeness auto
termination
  by (relation "measure (\<lambda>(b, r, st). MAX_SEGMENTS - seg_count st)") auto

definition slot_alloc_init :: "cap \<Rightarrow> u64 \<Rightarrow> u64 \<Rightarrow> SlotAllocState \<Rightarrow> SlotAllocState" where
  "slot_alloc_init base count ntfn state =
     (let st0 = state\<lparr>segments := map (\<lambda>_. new_segment 0 0) (segments state),
                      seg_count := 0, active_seg := 0, cspace_ntfn := ntfn,
                      expand_state := Idle, root_bits := 0, expanded_depth := 0,
                      cspace_expand_count := 0\<rparr>;
          st1 = (if count = 0 \<and> base \<noteq> 0
                 then st0\<lparr>segments := (segments st0)[0 := new_segment base 0], seg_count := 1\<rparr>
                 else st0)
      in case init_segments base count st1 of
           (remaining, st2) \<Rightarrow>
             let ok = (remaining = 0 \<and> (count \<noteq> 0 \<or> base \<noteq> 0));
                 st3 = st2\<lparr>initialized := ok\<rparr>
             in if \<not> ok then st3\<lparr>seg_count := 0\<rparr> else st3)"

definition slot_alloc_is_initialized :: "SlotAllocState \<Rightarrow> bool" where
  "slot_alloc_is_initialized st = initialized st"

definition slot_alloc_base :: "SlotAllocState \<Rightarrow> cap" where
  "slot_alloc_base st = (if 0 < seg_count st then sg_base (segments st ! 0) else 0)"

definition slot_alloc_count :: "SlotAllocState \<Rightarrow> u64" where
  "slot_alloc_count st =
     fold (\<lambda>i total. total + sg_count (segments st ! i)) [0..<seg_count st] 0"

definition slot_alloc_remaining :: "SlotAllocState \<Rightarrow> u64" where
  "slot_alloc_remaining st =
     (if \<not> initialized st then 0
      else fold (\<lambda>i remaining. remaining +
                   saturating_sub (sg_count (segments st ! i)) (sg_used (segments st ! i)))
             [0..<seg_count st] 0)"

definition observed_cspace_depth :: "SlotAllocState \<Rightarrow> u8" where
  "observed_cspace_depth st = expanded_depth st"

definition slot_invoke_depth :: "SlotAllocState \<Rightarrow> cap \<Rightarrow> u8" where
  "slot_invoke_depth st slot =
     (let depth = observed_cspace_depth st
      in if depth = 0 then 0
         else if CSPACE_EXPAND_BASE \<le> drop_bit SLOT_EXPAND_BITS_DEFAULT slot then depth else 0)"

section \<open>Allocation from the segment chain\<close>

text \<open>The loop over the chain, starting at the active segment and wrapping around.\<close>

fun alloc_scan ::
  "(Segment \<Rightarrow> cap option \<times> Segment) \<Rightarrow> nat list \<Rightarrow> SlotAllocState \<Rightarrow> cap option \<times> SlotAllocState"
where
  "alloc_scan take_from [] st = (None, st)"
| "alloc_scan take_from (off # offs) st =
     (let idx = (active_seg st + off) mod seg_count st
      in case take_from (segments st ! idx) of
           (Some slot, seg') \<Rightarrow>
             (Some slot, st\<lparr>segments := (segments st)[idx := seg'], active_seg := idx\<rparr>)
         | (None, seg') \<Rightarrow>
             alloc_scan take_from offs (st\<lparr>segments := (segments st)[idx := seg']\<rparr>))"

definition alloc_single_locked :: "SlotAllocState \<Rightarrow> cap option \<times> SlotAllocState" where
  "alloc_single_locked st =
     (if seg_count st = 0 then (None, st)
      else alloc_scan segment_alloc_single [0..<seg_count st] st)"

definition slot_alloc_fast :: "SlotAllocState \<Rightarrow> cap option \<times> SlotAllocState" where
  "slot_alloc_fast st = (if \<not> initialized st then (None, st) else alloc_single_locked st)"

definition slot_alloc_no_expand :: "SlotAllocState \<Rightarrow> cap option \<times> SlotAllocState" where
  "slot_alloc_no_expand st =
     (if \<not> slot_alloc_is_initialized st then (None, st) else slot_alloc_fast st)"

definition slot_alloc_consecutive_fast ::
  "u64 \<Rightarrow> SlotAllocState \<Rightarrow> cap option \<times> SlotAllocState" where
  "slot_alloc_consecutive_fast count st =
     (if \<not> initialized st \<or> count = 0 then (None, st)
      else alloc_scan (\<lambda>seg. segment_alloc_contiguous seg count) [0..<seg_count st] st)"

section \<open>Freeing\<close>

text \<open>The loop over the chain for the segment that owns the slot.\<close>

fun free_scan :: "cap \<Rightarrow> nat list \<Rightarrow> SlotAllocState \<Rightarrow> bool \<times> SlotAllocState" where
  "free_scan slot [] st = (False, st)"
| "free_scan slot (idx # idxs) st =
     (case segment_slot_index (segments st ! idx) slot of
        Some slot_idx \<Rightarrow>
          (case segment_free (segments st ! idx) slot_idx of
             (True, seg') \<Rightarrow>
               (True, st\<lparr>segments := (segments st)[idx := seg'],
                         active_seg := (if idx < active_seg st then idx else active_seg st)\<rparr>)
           | (False, seg') \<Rightarrow> (False, st\<lparr>segments := (segments st)[idx := seg']\<rparr>))
      | None \<Rightarrow> free_scan slot idxs st)"

definition slot_free_locked :: "cap \<Rightarrow> SlotAllocState \<Rightarrow> bool \<times> SlotAllocState" where
  "slot_free_locked slot st =
     (if \<not> initialized st then (False, st) else free_scan slot [0..<seg_count st] st)"

definition slot_free :: "cap \<Rightarrow> SlotAllocState \<Rightarrow> bool \<times> SlotAllocState" where
  "slot_free slot st = slot_free_locked slot st"

definition slot_free_range :: "cap \<Rightarrow> u64 \<Rightarrow> SlotAllocState \<Rightarrow> SlotAllocState" where
  "slot_free_range base count st =
     (if count = 0 then st
      else fold (\<lambda>off s. snd (slot_free_locked (base + of_nat off) s)) [0..<unat count] st)"

section \<open>The expansion protocol\<close>

text \<open>
  The query of the root CNode's size, made once.  The kernel leaves it in
  message word 2 of the IPC buffer.
\<close>

definition ensure_root_bits ::
  "'k kernel \<Rightarrow> SlotAllocState \<Rightarrow> 'k machine \<Rightarrow> SlotAllocState \<times> 'k machine" where
  "ensure_root_bits K st m =
     (if root_bits st = 0
      then case invoke K CAP_SELF_CSPACE CNODE_GET_INFO 0 0 0 0 m of
             (info, m') \<Rightarrow>
               (if r_error info = 0
                then case ipc_buffer m' of
                       Some b \<Rightarrow> (st\<lparr>root_bits := ucast (ib_msg b ! 2)\<rparr>, m')
                     | None \<Rightarrow> (st, m')
                else (st, m'))
      else (st, m))"

definition update_expansion_depth ::
  "'k kernel \<Rightarrow> SlotAllocState \<Rightarrow> 'k machine \<Rightarrow> SlotAllocState \<times> 'k machine" where
  "update_expansion_depth K st m =
     (case ensure_root_bits K st m of
        (st', m') \<Rightarrow>
          (if 0 < root_bits st'
           then st'\<lparr>expanded_depth := root_bits st' + of_nat SLOT_EXPAND_BITS_DEFAULT\<rparr>
           else st', m'))"

definition register_new_segment ::
  "'k kernel \<Rightarrow> cap \<Rightarrow> u64 \<Rightarrow> SlotAllocState \<Rightarrow> 'k machine \<Rightarrow> bool \<times> SlotAllocState \<times> 'k machine"
where
  "register_new_segment K base count st m =
     (if MAX_SEGMENTS \<le> seg_count st then (False, st\<lparr>expand_state := ExpandFailed\<rparr>, m)
      else if MAX_SEGMENT_SLOTS < unat count then (False, st\<lparr>expand_state := ExpandFailed\<rparr>, m)
      else let si = seg_count st
           in case update_expansion_depth K
                     (st\<lparr>segments := (segments st)[si := new_segment base count],
                         seg_count := seg_count st + 1, active_seg := si,
                         expand_state := Idle\<rparr>) m of
                (st', m') \<Rightarrow> (True, st', m'))"

definition write_invoke_depth :: "'k kernel \<Rightarrow> u8 \<Rightarrow> u8 \<Rightarrow> 'k machine \<Rightarrow> 'k machine" where
  "write_invoke_depth K d0 d1 m =
     snd (syscall K SYS_SET_INVOKE_DEPTHS (ucast d0) (ucast d1) 0 0 0 0 m)"

definition cnode_copy_depth ::
  "'k kernel \<Rightarrow> cap \<Rightarrow> u64 \<Rightarrow> cap \<Rightarrow> u64 \<Rightarrow> u64 \<Rightarrow> u8 \<Rightarrow> u8 \<Rightarrow> 'k machine \<Rightarrow> int \<times> 'k machine"
where
  "cnode_copy_depth K src_cnode src_slot dest_cnode dest_slot rights src_depth dest_depth m =
     invoke_err K src_cnode CNODE_COPY src_slot dest_cnode dest_slot rights
       (write_invoke_depth K src_depth dest_depth m)"

definition cnode_delete_depth ::
  "'k kernel \<Rightarrow> cap \<Rightarrow> u64 \<Rightarrow> u8 \<Rightarrow> 'k machine \<Rightarrow> int \<times> 'k machine" where
  "cnode_delete_depth K cnode slot depth m =
     invoke_err K cnode CNODE_DELETE slot 0 0 0 (write_invoke_depth K depth 0 m)"

definition poll_requested_expand_locked ::
  "'k kernel \<Rightarrow> SlotAllocState \<Rightarrow> cap \<Rightarrow> 'k machine \<Rightarrow>
   ExpandProgress \<times> SlotAllocState \<times> 'k machine" where
  "poll_requested_expand_locked K st ntfn m =
     (let probe_root_slot = CSPACE_EXPAND_BASE + of_nat (cspace_expand_count st);
          expanded = root_bits st + of_nat SLOT_EXPAND_BITS_DEFAULT;
          probe_addr = push_bit SLOT_EXPAND_BITS_DEFAULT probe_root_slot
      in case cnode_copy_depth K CAP_SELF_CSPACE CAP_SELF_TCB CAP_SELF_CSPACE probe_addr
                CAP_RIGHTS_ALL 0 expanded m of
           (err, m1) \<Rightarrow>
             if err \<noteq> 0
             then (Pending, st,
                   if ntfn \<noteq> 0 then snd (syscall K SYS_SIGNAL ntfn 0 0 0 0 0 m1) else m1)
             else let m2 = snd (cnode_delete_depth K CAP_SELF_CSPACE probe_addr expanded m1)
                  in if MAX_SEGMENTS \<le> seg_count st
                     then (ProgressFailed, st\<lparr>expand_state := ExpandFailed\<rparr>, m2)
                     else let si = seg_count st;
                              st' = st\<lparr>segments := (segments st)[si :=
                                          new_segment probe_addr (push_bit SLOT_EXPAND_BITS_DEFAULT 1)],
                                       seg_count := seg_count st + 1, active_seg := si,
                                       cspace_expand_count := cspace_expand_count st + 1,
                                       expand_state := Idle\<rparr>
                          in (Completed,
                              if 0 < root_bits st' then st'\<lparr>expanded_depth := expanded\<rparr> else st',
                              m2))"

text \<open>
  One turn of the loop of \<open>drive_cspace_expand_blocking\<close>: the section under the
  lock.  \<^const>\<open>None\<close> is the early \<open>return false\<close>.
\<close>

definition drive_locked ::
  "'k kernel \<Rightarrow> SlotAllocState \<Rightarrow> 'k machine \<Rightarrow>
   ExpandProgress option \<times> SlotAllocState \<times> 'k machine" where
  "drive_locked K st m =
     (if \<not> initialized st then (Some ProgressFailed, st, m)
      else let ntfn = cspace_ntfn st
           in if ntfn \<noteq> 0 \<and> cspace_expand_count st < MAX_CSPACE_EXPANSIONS
              then case ensure_root_bits K st m of
                     (st1, m1) \<Rightarrow>
                       (case expand_state st1 of
                          Idle \<Rightarrow>
                            (Some Pending, st1\<lparr>expand_state := Requested\<rparr>,
                             snd (syscall K SYS_SIGNAL ntfn 0 0 0 0 0 m1))
                        | Requested \<Rightarrow>
                            (case poll_requested_expand_locked K st1 ntfn m1 of
                               (p, st2, m2) \<Rightarrow> (Some p, st2, m2))
                        | ExpandFailed \<Rightarrow> (Some ProgressFailed, st1, m1))
              else (None, st, m))"

text \<open>The loop has no bound: \<^const>\<open>None\<close> means that it does not return.\<close>

partial_function (option) drive_cspace_expand_blocking ::
  "'k kernel \<Rightarrow> SlotAllocState \<Rightarrow> 'k machine \<Rightarrow> (bool \<times> SlotAllocState \<times> 'k machine) option"
where
  "drive_cspace_expand_blocking K st m =
     (case drive_locked K st m of
        (None, st', m') \<Rightarrow> Some (False, st', m')
      | (Some Completed, st', m') \<Rightarrow> Some (True, st', m')
      | (Some Pending, st', m') \<Rightarrow>
          drive_cspace_expand_blocking K st' (snd (syscall K SYS_YIELD 0 0 0 0 0 0 m'))
      | (Some ProgressFailed, st', m') \<Rightarrow> Some (False, st', m'))"

text \<open>The retry loops of \<open>slot_alloc\<close> and \<open>slot_alloc_consecutive\<close>, over their locked section.\<close>

primrec retry_expand ::
  "nat \<Rightarrow> 'k kernel \<Rightarrow> (SlotAllocState \<Rightarrow> cap option \<times> SlotAllocState) \<Rightarrow> SlotAllocState \<Rightarrow>
   'k machine \<Rightarrow> (cap option \<times> SlotAllocState \<times> 'k machine) option" where
  "retry_expand 0 K fast st m = Some (None, st, m)"
| "retry_expand (Suc n) K fast st m =
     (case fast st of
        (Some c, st') \<Rightarrow> Some (Some c, st', m)
      | (None, st') \<Rightarrow>
          do { (ok, st'', m') \<leftarrow> drive_cspace_expand_blocking K st' m;
               if \<not> ok then Some (None, st'', m') else retry_expand n K fast st'' m' })"

definition slot_alloc ::
  "'k kernel \<Rightarrow> SlotAllocState \<Rightarrow> 'k machine \<Rightarrow> (cap option \<times> SlotAllocState \<times> 'k machine) option"
where
  "slot_alloc K st m =
     (if \<not> slot_alloc_is_initialized st then Some (None, st, m)
      else retry_expand (MAX_SEGMENTS + 2) K slot_alloc_fast st m)"

definition slot_alloc_consecutive ::
  "'k kernel \<Rightarrow> u64 \<Rightarrow> SlotAllocState \<Rightarrow> 'k machine \<Rightarrow>
   (cap option \<times> SlotAllocState \<times> 'k machine) option" where
  "slot_alloc_consecutive K count st m =
     (if \<not> slot_alloc_is_initialized st \<or> count = 0 then Some (None, st, m)
      else retry_expand (MAX_SEGMENTS + 2) K (slot_alloc_consecutive_fast count) st m)"

definition slot_alloc_async_inner ::
  "'k kernel \<Rightarrow> SlotAllocState \<Rightarrow> 'k machine \<Rightarrow> SlotResult \<times> SlotAllocState \<times> 'k machine" where
  "slot_alloc_async_inner K st m =
     (if \<not> initialized st then (Exhausted, st, m)
      else case alloc_single_locked st of
             (Some slot, st1) \<Rightarrow> (SlotOk slot, st1, m)
           | (None, st1) \<Rightarrow>
               let ntfn = cspace_ntfn st1
               in (case expand_state st1 of
                     Idle \<Rightarrow>
                       (if ntfn = 0 \<or> MAX_CSPACE_EXPANSIONS \<le> cspace_expand_count st1
                        then (Exhausted, st1, m)
                        else case ensure_root_bits K st1 m of
                               (st2, m2) \<Rightarrow>
                                 (WouldBlock, st2\<lparr>expand_state := Requested\<rparr>,
                                  snd (syscall K SYS_SIGNAL ntfn 0 0 0 0 0 m2)))
                   | Requested \<Rightarrow>
                       (case poll_requested_expand_locked K st1 ntfn m of
                          (Completed, st2, m2) \<Rightarrow>
                            (case alloc_single_locked st2 of
                               (Some slot, st3) \<Rightarrow> (SlotOk slot, st3, m2)
                             | (None, st3) \<Rightarrow> (Exhausted, st3, m2))
                        | (Pending, st2, m2) \<Rightarrow> (WouldBlock, st2, m2)
                        | (ProgressFailed, st2, m2) \<Rightarrow> (Exhausted, st2, m2))
                   | ExpandFailed \<Rightarrow> (Exhausted, st1, m)))"

definition slot_alloc_async ::
  "'k kernel \<Rightarrow> SlotAllocState \<Rightarrow> 'k machine \<Rightarrow> SlotResult \<times> SlotAllocState \<times> 'k machine" where
  "slot_alloc_async K st m = slot_alloc_async_inner K st m"

section \<open>The invariant of a segment\<close>

text \<open>
  The indices in use, and the consistency of the bitmap with the counter.  Two
  segments have the same range when they agree on base and size.
\<close>

definition used_set :: "Segment \<Rightarrow> nat set" where
  "used_set seg = {i. i < unat (sg_count seg) \<and> segment_is_used seg i}"

definition segment_wf :: "Segment \<Rightarrow> bool" where
  "segment_wf seg \<longleftrightarrow>
     length (sg_bits seg) = SEGMENT_BITMAP_WORDS \<and>
     unat (sg_count seg) \<le> MAX_SEGMENT_SLOTS \<and>
     unat (sg_used seg) = card (used_set seg)"

definition same_range :: "Segment \<Rightarrow> Segment \<Rightarrow> bool" where
  "same_range s t \<longleftrightarrow> sg_base s = sg_base t \<and> sg_count s = sg_count t"

section \<open>Segments: facts\<close>

lemma segment_is_used_bit:
  "segment_is_used seg i \<longleftrightarrow> bit (sg_bits seg ! (i div 64)) (i mod 64)"
  by (simp add: segment_is_used_def Let_def bitmap_simps)

lemma mark_used_is_used:
  assumes "length (sg_bits seg) = 64" "i < 4096" "j < 4096"
  shows "segment_is_used (segment_mark_used seg i) j \<longleftrightarrow> j = i \<or> segment_is_used seg j"
proof -
  have lt: "i div 64 < 64" "j div 64 < 64" using assms by auto
  show ?thesis
  proof (cases "i div 64 = j div 64")
    case True
    then show ?thesis
      using lt assms div_mod_64_eq_iff [of i j]
      by (auto simp: segment_is_used_bit segment_mark_used_def Let_def bitmap_simps)
  next
    case False
    then have "i \<noteq> j" by auto
    with False lt assms show ?thesis
      by (simp add: segment_is_used_bit segment_mark_used_def Let_def)
  qed
qed

lemma mark_free_is_used:
  assumes "length (sg_bits seg) = 64" "i < 4096" "j < 4096"
  shows "segment_is_used (segment_mark_free seg i) j \<longleftrightarrow> j \<noteq> i \<and> segment_is_used seg j"
proof -
  have lt: "i div 64 < 64" "j div 64 < 64" using assms by auto
  show ?thesis
  proof (cases "i div 64 = j div 64")
    case True
    then show ?thesis
      using lt assms div_mod_64_eq_iff [of i j]
      by (auto simp: segment_is_used_bit segment_mark_free_def Let_def bitmap_simps)
  next
    case False
    then have "i \<noteq> j" by auto
    with False lt assms show ?thesis
      by (simp add: segment_is_used_bit segment_mark_free_def Let_def)
  qed
qed

lemma segment_mark_simps [simp]:
  "sg_base (segment_mark_used seg i) = sg_base seg"
  "sg_count (segment_mark_used seg i) = sg_count seg"
  "sg_used (segment_mark_used seg i) = sg_used seg + 1"
  "length (sg_bits (segment_mark_used seg i)) = length (sg_bits seg)"
  "sg_base (segment_mark_free seg i) = sg_base seg"
  "sg_count (segment_mark_free seg i) = sg_count seg"
  "sg_used (segment_mark_free seg i) = saturating_sub (sg_used seg) 1"
  "length (sg_bits (segment_mark_free seg i)) = length (sg_bits seg)"
  "sg_alloc_hint (segment_mark_free seg i) = sg_alloc_hint seg"
  by (simp_all add: segment_mark_used_def segment_mark_free_def Let_def)

lemma hint_irrelevant [simp]:
  "used_set (seg\<lparr>sg_alloc_hint := h\<rparr>) = used_set seg"
  "segment_wf (seg\<lparr>sg_alloc_hint := h\<rparr>) = segment_wf seg"
  by (simp_all add: used_set_def segment_wf_def segment_is_used_def)

lemma used_set_finite [simp]: "finite (used_set seg)"
  by (rule finite_subset [of _ "{..<unat (sg_count seg)}"]) (auto simp: used_set_def)

lemma used_set_le: "used_set seg \<subseteq> {..<unat (sg_count seg)}"
  by (auto simp: used_set_def)

lemma mark_used_wf:
  assumes "segment_wf seg" "i < unat (sg_count seg)" "i \<notin> used_set seg"
  shows "segment_wf (segment_mark_used seg i)"
    and "used_set (segment_mark_used seg i) = insert i (used_set seg)"
proof -
  have len: "length (sg_bits seg) = 64" and cnt: "unat (sg_count seg) \<le> 4096"
    using assms by (simp_all add: segment_wf_def)
  show us: "used_set (segment_mark_used seg i) = insert i (used_set seg)"
    using assms(2) cnt mark_used_is_used [OF len, of i]
    by (auto simp: used_set_def)
  have "card (used_set seg) \<le> 4096"
    using card_mono [OF _ used_set_le [of seg]] cnt by simp
  then have "unat (sg_used seg + 1) = Suc (unat (sg_used seg))"
    using assms(1) by (subst unat_add_le) (auto simp: segment_wf_def)
  with us show "segment_wf (segment_mark_used seg i)"
    using assms by (simp add: segment_wf_def)
qed

lemma mark_free_wf:
  assumes "segment_wf seg" "i \<in> used_set seg"
  shows "segment_wf (segment_mark_free seg i)"
    and "used_set (segment_mark_free seg i) = used_set seg - {i}"
proof -
  have len: "length (sg_bits seg) = 64" and cnt: "unat (sg_count seg) \<le> 4096"
    and i: "i < unat (sg_count seg)"
    using assms by (auto simp: segment_wf_def used_set_def)
  show us: "used_set (segment_mark_free seg i) = used_set seg - {i}"
    using i cnt mark_free_is_used [OF len, of i] by (auto simp: used_set_def)
  then show "segment_wf (segment_mark_free seg i)"
    using assms by (simp add: segment_wf_def word_nat_simps)
qed

lemma segment_take_spec:
  assumes "segment_wf seg" "i < unat (sg_count seg)" "\<not> segment_is_used seg i"
    and "segment_take seg i = (Some c, seg')"
  shows "c = sg_base seg + of_nat i \<and> same_range seg' seg \<and> segment_wf seg' \<and>
         used_set seg' = insert i (used_set seg)"
proof -
  have "i \<notin> used_set seg" using assms(3) by (simp add: used_set_def)
  with assms show ?thesis
    by (auto simp: segment_take_def same_range_def mark_used_wf)
qed

lemma segment_alloc_single_Some:
  assumes "segment_wf seg" "segment_alloc_single seg = (Some c, seg')"
  obtains i where "i < unat (sg_count seg)" "i \<notin> used_set seg" "c = sg_base seg + of_nat i"
    "same_range seg' seg" "segment_wf seg'" "used_set seg' = insert i (used_set seg)"
proof -
  let ?count = "unat (sg_count seg)"
  let ?start = "min (unat (sg_alloc_hint seg)) ?count"
  from assms(2) obtain i where t: "segment_take seg i = (Some c, seg')"
      and f: "find (\<lambda>idx. \<not> segment_is_used seg idx) [?start..<?count] = Some i \<or>
              find (\<lambda>idx. \<not> segment_is_used seg idx) [0..<?start] = Some i"
    by (auto simp: segment_alloc_single_def Let_def split: if_splits option.splits)
  from f have i: "i < ?count" "\<not> segment_is_used seg i"
    using find_upt_Some(2,3) by (force, blast)
  note i = i t
  with that segment_take_spec [OF assms(1) i] show thesis
    by (auto simp: used_set_def)
qed

lemma segment_alloc_single_None:
  assumes "segment_wf seg" "segment_alloc_single seg = (None, seg')"
  shows "seg' = seg \<and> used_set seg = {..<unat (sg_count seg)}"
proof (cases "sg_count seg \<le> sg_used seg")
  case True
  then have "unat (sg_count seg) \<le> card (used_set seg)"
    using assms(1) by (simp add: segment_wf_def word_le_nat_alt)
  then have "used_set seg = {..<unat (sg_count seg)}"
    by (intro card_seteq used_set_le) simp_all
  with True assms(2) show ?thesis by (simp add: segment_alloc_single_def)
next
  case False
  define start where "start = min (unat (sg_alloc_hint seg)) (unat (sg_count seg))"
  have le: "start \<le> unat (sg_count seg)" by (simp add: start_def)
  from False assms(2) have s: "seg' = seg"
    and n1: "find (\<lambda>idx. \<not> segment_is_used seg idx) [start..<unat (sg_count seg)] = None"
    and n2: "find (\<lambda>idx. \<not> segment_is_used seg idx) [0..<start] = None"
    by (auto simp: segment_alloc_single_def Let_def start_def segment_take_def split: option.splits)
  have "segment_is_used seg i" if "i < unat (sg_count seg)" for i
    using n1 n2 that by (cases "start \<le> i") (auto simp: find_upt_None)
  then show ?thesis using s by (auto simp: used_set_def)
qed


lemma find_run_Some:
  assumes "find_run seg n [a..<b] rs rl = Some r" "0 < n"
    and "rl \<le> a" "rl \<noteq> 0 \<Longrightarrow> rs = a - rl" "rl < n"
    and "\<And>j. a - rl \<le> j \<Longrightarrow> j < a \<Longrightarrow> \<not> segment_is_used seg j"
  shows "r + n \<le> b \<and> (\<forall>j. r \<le> j \<and> j < r + n \<longrightarrow> \<not> segment_is_used seg j)"
  using assms
proof (induction "b - a" arbitrary: a rs rl)
  case 0
  then show ?case by simp
next
  case (Suc k)
  then have ab: "a < b" "[a..<b] = a # [Suc a..<b]" by (simp_all add: upt_conv_Cons)
  show ?case
  proof (cases "segment_is_used seg a")
    case True
    then show ?thesis
      using Suc.prems Suc.hyps(2) ab by (intro Suc.hyps(1) [of "Suc a" rs 0]) auto
  next
    case False
    define rs' where "rs' = (if rl = 0 then a else rs)"
    have rs': "rs' = a - rl" using Suc.prems(4) by (auto simp: rs'_def)
    have free: "\<not> segment_is_used seg j" if "a - rl \<le> j" "j < Suc a" for j
      using that False Suc.prems(6) by (cases "j = a") auto
    show ?thesis
    proof (cases "rl + 1 = n")
      case True
      with Suc.prems(1) ab False rs' have "r = a - rl" by (simp add: rs'_def)
      with True Suc.prems(3) ab free show ?thesis by auto
    next
      case ne: False
      with Suc.prems(1) ab False have "find_run seg n [Suc a..<b] rs' (rl + 1) = Some r"
        by (simp add: rs'_def Let_def)
      with ne rs' Suc.prems Suc.hyps(2) ab free show ?thesis
        by (intro Suc.hyps(1) [of "Suc a" rs' "rl + 1"]) auto
    qed
  qed
qed

lemma find_run_None:
  assumes "find_run seg n [a..<b] rs rl = None" "0 < n" "rl < n" "rl \<le> a"
    and "\<And>r. r + n \<le> a \<Longrightarrow> \<exists>j. r \<le> j \<and> j < r + n \<and> segment_is_used seg j"
    and "\<And>r. r + rl < a \<Longrightarrow> \<exists>j. r \<le> j \<and> j < a \<and> segment_is_used seg j"
    and "r + n \<le> b"
  shows "\<exists>j. r \<le> j \<and> j < r + n \<and> segment_is_used seg j"
  using assms
proof (induction "b - a" arbitrary: a rs rl)
  case 0
  then have "r + n \<le> a" by simp
  with 0 show ?case by blast
next
  case (Suc k)
  then have ab: "a < b" "[a..<b] = a # [Suc a..<b]" by (simp_all add: upt_conv_Cons)
  show ?case
  proof (cases "segment_is_used seg a")
    case True
    have full: "\<exists>j. r \<le> j \<and> j < r + n \<and> segment_is_used seg j" if "r + n \<le> Suc a" for r
      using that True Suc.prems(2) Suc.prems(5) [of r] by (cases "r + n = Suc a") (auto intro!: exI [of _ a])
    have edge: "\<exists>j. r \<le> j \<and> j < Suc a \<and> segment_is_used seg j" if "r + 0 < Suc a" for r
      using that True by (intro exI [of _ a]) simp
    show ?thesis
    proof (rule Suc.hyps(1) [of "Suc a" rs 0])
      show "find_run seg n [Suc a..<b] rs 0 = None" using Suc.prems(1) ab True by simp
    qed (use Suc.prems(2,7) Suc.hyps(2) full edge in auto)
  next
    case False
    with Suc.prems(1) ab have ne: "rl + 1 \<noteq> n" by (auto simp: Let_def)
    from False ne Suc.prems(1) ab
    have f: "find_run seg n [Suc a..<b] (if rl = 0 then a else rs) (rl + 1) = None"
      by (simp add: Let_def)
    have edge: "\<exists>j. r \<le> j \<and> j < Suc a \<and> segment_is_used seg j" if "r + (rl + 1) < Suc a" for r
      using that Suc.prems(6) [of r] by (auto intro: less_SucI)
    have full: "\<exists>j. r \<le> j \<and> j < r + n \<and> segment_is_used seg j" if "r + n \<le> Suc a" for r
    proof (cases "r + n = Suc a")
      case True
      with ne Suc.prems(3) have "r + rl < a" by simp
      from Suc.prems(6) [OF this] True show ?thesis by auto
    next
      case False
      with that Suc.prems(5) [of r] show ?thesis by simp
    qed
    from f ne Suc.prems Suc.hyps(2) ab edge full show ?thesis
      by (intro Suc.hyps(1) [of "Suc a" "if rl = 0 then a else rs" "rl + 1"]) auto
  qed
qed


lemma mark_range_wf:
  assumes "segment_wf seg" "r + n \<le> unat (sg_count seg)" "{r..<r + n} \<inter> used_set seg = {}"
  defines "seg' \<equiv> fold (\<lambda>mark s. segment_mark_used s mark) [r..<r + n] seg"
  shows "segment_wf seg' \<and> used_set seg' = {r..<r + n} \<union> used_set seg \<and> same_range seg' seg"
  using assms(2,3) unfolding seg'_def
proof (induction n)
  case 0
  then show ?case using assms(1) by (simp add: same_range_def)
next
  case (Suc n)
  let ?s = "fold (\<lambda>mark s. segment_mark_used s mark) [r..<r + n] seg"
  have "{r..<r + n} \<inter> used_set seg = {}" using Suc.prems(2) by (fastforce simp: disjoint_iff)
  with Suc have IH: "segment_wf ?s" "used_set ?s = {r..<r + n} \<union> used_set seg" "same_range ?s seg"
    by auto
  moreover have "r + n \<notin> used_set ?s" using Suc.prems(2) IH(2) by (auto simp: disjoint_iff)
  moreover have "r + n < unat (sg_count ?s)" using Suc.prems(1) IH(3) by (simp add: same_range_def)
  ultimately show ?case
    using mark_used_wf [of ?s "r + n"] by (auto simp: same_range_def)
qed

lemma segment_alloc_contiguous_Some:
  assumes "segment_wf seg" "segment_alloc_contiguous seg count = (Some c, seg')"
  obtains i where "i + unat count \<le> unat (sg_count seg)" "{i..<i + unat count} \<inter> used_set seg = {}"
    "c = sg_base seg + of_nat i" "same_range seg' seg" "segment_wf seg'"
    "used_set seg' = {i..<i + unat count} \<union> used_set seg" "count \<noteq> 0"
proof (cases "count = 1")
  case True
  with assms(2) have "segment_alloc_single seg = (Some c, seg')"
    by (auto simp: segment_alloc_contiguous_def split: if_splits)
  then obtain i where "i < unat (sg_count seg)" "i \<notin> used_set seg" "c = sg_base seg + of_nat i"
      "same_range seg' seg" "segment_wf seg'" "used_set seg' = insert i (used_set seg)"
    using segment_alloc_single_Some [OF assms(1)] by metis
  with True show thesis by (intro that [of i]) simp_all
next
  case False
  with assms(2) obtain r where nz: "count \<noteq> 0"
      and r: "find_run seg (unat count) [0..<unat (sg_count seg)] 0 0 = Some r"
      and c: "c = sg_base seg + of_nat r"
      and s: "seg' = (fold (\<lambda>mark s. segment_mark_used s mark) [r..<r + unat count] seg)
                \<lparr>sg_alloc_hint := of_nat (r + unat count)\<rparr>"
    by (auto simp: segment_alloc_contiguous_def split: if_splits option.splits)
  have pos: "0 < unat count" using nz by (simp add: unat_gt_0)
  from find_run_Some [OF r pos] pos
  have run: "r + unat count \<le> unat (sg_count seg)" "{r..<r + unat count} \<inter> used_set seg = {}"
    by (auto simp: used_set_def)
  from mark_range_wf [OF assms(1) run] run c s nz show thesis
    by (intro that [of r]) (simp_all add: same_range_def)
qed

lemma segment_alloc_contiguous_None:
  assumes "segment_wf seg" "segment_alloc_contiguous seg count = (None, seg')"
  shows "seg' = seg"
    and "count \<noteq> 0 \<Longrightarrow> i + unat count \<le> unat (sg_count seg) \<Longrightarrow> {i..<i + unat count} \<inter> used_set seg \<noteq> {}"
proof -
  show s: "seg' = seg"
    using assms segment_alloc_single_None
    by (auto simp: segment_alloc_contiguous_def split: if_splits option.splits)
  assume nz: "count \<noteq> 0" and fit: "i + unat count \<le> unat (sg_count seg)"
  have pos: "0 < unat count" using nz by (simp add: unat_gt_0)
  consider (few) "saturating_sub (sg_count seg) (sg_used seg) < count"
    | (one) "count = 1" "segment_alloc_single seg = (None, seg')"
    | (run) "find_run seg (unat count) [0..<unat (sg_count seg)] 0 0 = None"
    using assms(2) nz by (auto simp: segment_alloc_contiguous_def split: if_splits option.splits)
  then show "{i..<i + unat count} \<inter> used_set seg \<noteq> {}"
  proof cases
    case few
    then have lt: "unat (sg_count seg) - card (used_set seg) < unat count"
      using assms(1) by (simp add: segment_wf_def word_less_nat_alt word_nat_simps)
    show ?thesis
    proof
      assume "{i..<i + unat count} \<inter> used_set seg = {}"
      then have "card ({i..<i + unat count} \<union> used_set seg) = unat count + card (used_set seg)"
        by (subst card_Un_disjoint) auto
      moreover have "{i..<i + unat count} \<union> used_set seg \<subseteq> {..<unat (sg_count seg)}"
        using fit used_set_le [of seg] by auto
      ultimately show False
        using lt card_mono [of "{..<unat (sg_count seg)}" "{i..<i + unat count} \<union> used_set seg"]
        by simp
    qed
  next
    case one
    with segment_alloc_single_None [OF assms(1) one(2)] fit show ?thesis by auto
  next
    case run
    have "\<exists>j\<ge>i. j < i + unat count \<and> segment_is_used seg j"
      by (rule find_run_None [OF run pos pos]) (use pos fit in auto)
    with fit show ?thesis by (auto simp: used_set_def disjoint_iff)
  qed
qed

lemma segment_free_spec:
  assumes "segment_wf seg" "segment_free seg i = (ok, seg')"
  shows "ok \<longleftrightarrow> i \<in> used_set seg" "same_range seg' seg" "segment_wf seg'"
    "used_set seg' = used_set seg - {i}" "\<not> ok \<Longrightarrow> seg' = seg"
proof -
  show ok: "ok \<longleftrightarrow> i \<in> used_set seg"
    using assms(2) by (auto simp: segment_free_def Let_def used_set_def split: if_splits)
  show un: "\<not> ok \<Longrightarrow> seg' = seg"
    using assms(2) by (auto simp: segment_free_def Let_def split: if_splits)
  have marked: "\<exists>h. seg' = (segment_mark_free seg i)\<lparr>sg_alloc_hint := h\<rparr>" if ok
    using assms(2) that
    by (auto simp: segment_free_def Let_def split: if_splits intro: exI [of _ "sg_alloc_hint seg"])
  have "same_range seg' seg \<and> segment_wf seg' \<and> used_set seg' = used_set seg - {i}"
  proof (cases ok)
    case True
    with marked ok mark_free_wf [OF assms(1)] show ?thesis by (auto simp: same_range_def)
  next
    case False
    with un ok assms(1) show ?thesis by (simp add: same_range_def)
  qed
  then show "same_range seg' seg" "segment_wf seg'" "used_set seg' = used_set seg - {i}"
    by simp_all
qed

end
