(* ===== verification/Slot_Pool.thy ===== *)
theory Slot_Pool
  imports Slot_Alloc
begin

text \<open>
  What the slot allocator promises.  A state of \<^verbatim>\<open>slot_alloc.rs\<close> is abstracted to
  two sets of slot numbers, the pool and the allocated slots; every locked
  section refines the obvious operation on these sets, the refinement is packed
  into the interface \<open>slot_pool\<close> that clients rely on, and the steps of any number
  of threads are shown never to hand out a slot that is still owned.
\<close>

section \<open>Abstraction and invariant\<close>

definition seg_slots :: "Segment \<Rightarrow> nat set" where
  "seg_slots seg = {unat (sg_base seg)..<unat (sg_base seg) + unat (sg_count seg)}"

definition seg_allocated :: "Segment \<Rightarrow> nat set" where
  "seg_allocated seg = (\<lambda>i. unat (sg_base seg) + i) ` used_set seg"

definition pool :: "SlotAllocState \<Rightarrow> nat set" where
  "pool st = (\<Union>i\<in>{..< seg_count st}. seg_slots (segments st ! i))"

definition allocated :: "SlotAllocState \<Rightarrow> nat set" where
  "allocated st = (\<Union>i\<in>{..< seg_count st}. seg_allocated (segments st ! i))"

text \<open>
  Expansion \<open>k\<close> places its 1024 slots at root slot \<open>1008 + k\<close>; all existing segments
  lie below the window of the next expansion.
\<close>

definition next_window :: "SlotAllocState \<Rightarrow> nat" where
  "next_window st = (1008 + cspace_expand_count st) * 1024"

definition slot_inv :: "SlotAllocState \<Rightarrow> bool" where
  "slot_inv st \<longleftrightarrow>
     length (segments st) = MAX_SEGMENTS \<and> seg_count st \<le> MAX_SEGMENTS \<and>
     (\<not> initialized st \<longrightarrow> seg_count st = 0) \<and>
     cspace_expand_count st \<le> seg_count st \<and>
     (\<forall>i < seg_count st. segment_wf (segments st ! i) \<and>
        unat (sg_base (segments st ! i)) + unat (sg_count (segments st ! i)) \<le> next_window st) \<and>
     (\<forall>i < seg_count st. \<forall>j < seg_count st. i \<noteq> j \<longrightarrow>
        seg_slots (segments st ! i) \<inter> seg_slots (segments st ! j) = {})"

section \<open>Threads\<close>

text \<open>
  The atomic steps of the threads of the process: each is one section under
  \<open>SLOT_LOCK\<close>.  The last rule is everything else that changes the kernel state.
\<close>

datatype slot_event = Granted "nat set" | Released "nat set" | Internal

inductive slot_step ::
  "'k kernel \<Rightarrow> SlotAllocState \<times> 'k machine \<Rightarrow> slot_event \<Rightarrow> SlotAllocState \<times> 'k machine \<Rightarrow> bool"
  for K :: "'k kernel" where
  alloc: "slot_alloc_fast st = (Some c, st') \<Longrightarrow>
    slot_step K (st, m) (Granted {unat c}) (st', m)"
| alloc_none: "slot_alloc_fast st = (None, st') \<Longrightarrow> slot_step K (st, m) Internal (st', m)"
| run: "slot_alloc_consecutive_fast n st = (Some c, st') \<Longrightarrow>
    slot_step K (st, m) (Granted {unat c..<unat c + unat n}) (st', m)"
| run_none: "slot_alloc_consecutive_fast n st = (None, st') \<Longrightarrow> slot_step K (st, m) Internal (st', m)"
| async: "slot_alloc_async_inner K st m = (SlotOk c, st', m') \<Longrightarrow>
    slot_step K (st, m) (Granted {unat c}) (st', m')"
| async_none: "slot_alloc_async_inner K st m = (r, st', m') \<Longrightarrow> r = WouldBlock \<or> r = Exhausted \<Longrightarrow>
    slot_step K (st, m) Internal (st', m')"
| free: "slot_free_locked slot st = (ok, st') \<Longrightarrow>
    slot_step K (st, m) (Released {unat slot}) (st', m)"
| free_range: "slot_free_range base n st = st' \<Longrightarrow>
    slot_step K (st, m) (Released ((\<lambda>off. unat (base + of_nat off)) ` {..<unat n})) (st', m)"
| drive: "drive_locked K st m = (p, st', m') \<Longrightarrow> slot_step K (st, m) Internal (st', m')"
| kernel: "slot_step K (st, m) Internal (st, m')"

inductive slot_run ::
  "'k kernel \<Rightarrow> SlotAllocState \<times> 'k machine \<Rightarrow> slot_event list \<Rightarrow> SlotAllocState \<times> 'k machine \<Rightarrow> bool"
  for K :: "'k kernel" where
  run_nil: "slot_run K s [] s"
| run_snoc: "slot_run K s es t \<Longrightarrow> slot_step K t e u \<Longrightarrow> slot_run K s (es @ [e]) u"

text \<open>The slots handed out and not yet returned after a sequence of events.\<close>

fun owned_after :: "nat set \<Rightarrow> slot_event \<Rightarrow> nat set" where
  "owned_after own (Granted G) = own \<union> G"
| "owned_after own (Released R) = own - R"
| "owned_after own Internal = own"

abbreviation owned :: "slot_event list \<Rightarrow> nat set" where
  "owned es \<equiv> foldl owned_after {} es"

fun step_effect :: "slot_event \<Rightarrow> nat set \<Rightarrow> nat set \<Rightarrow> bool" where
  "step_effect (Granted G) own own' \<longleftrightarrow> G \<inter> own = {} \<and> own' = own \<union> G"
| "step_effect (Released R) own own' \<longleftrightarrow> own' = own - R"
| "step_effect Internal own own' \<longleftrightarrow> own' = own"

text \<open>Repeated allocation until the first failure.\<close>

primrec alloc_n :: "('s \<Rightarrow> cap option \<times> 's) \<Rightarrow> nat \<Rightarrow> 's \<Rightarrow> cap list \<times> 's" where
  "alloc_n alloc 0 s = ([], s)"
| "alloc_n alloc (Suc n) s =
     (case alloc s of
        (None, s') \<Rightarrow> ([], s')
      | (Some c, s') \<Rightarrow> (case alloc_n alloc n s' of (cs, s'') \<Rightarrow> (c # cs, s'')))"

text \<open>
  What the process manager, which is not part of this repository, is relied on
  to do for an expansion to finish: every failed probe brings it closer to
  placing the sub-CNode (a rank of the machine state decreases over the signal
  and the yield that follow a failed probe), and querying the root CNode does
  not undo its work.
\<close>

definition probe_addr :: "SlotAllocState \<Rightarrow> u64" where
  "probe_addr st = push_bit 10 (1008 + of_nat (cspace_expand_count st))"

definition procmgr_answers :: "'k kernel \<Rightarrow> cap \<Rightarrow> u64 \<Rightarrow> ('k machine \<Rightarrow> nat) \<Rightarrow> bool" where
  "procmgr_answers K ntfn addr rank \<longleftrightarrow>
     (\<forall>m d err m1. cnode_copy_depth K CAP_SELF_CSPACE CAP_SELF_TCB CAP_SELF_CSPACE addr CAP_RIGHTS_ALL 0 d m
        = (err, m1) \<longrightarrow> err \<noteq> 0 \<longrightarrow>
           rank (snd (syscall K SYS_YIELD 0 0 0 0 0 0 (snd (syscall K SYS_SIGNAL ntfn 0 0 0 0 0 m1)))) < rank m) \<and>
     (\<forall>m. rank (snd (invoke K CAP_SELF_CSPACE CNODE_GET_INFO 0 0 0 0 m)) \<le> rank m)"

definition drive_post :: "SlotAllocState \<Rightarrow> bool \<times> SlotAllocState \<times> 'k machine \<Rightarrow> bool" where
  "drive_post st r \<longleftrightarrow> (slot_inv st \<longrightarrow> (case r of (ok, st', _) \<Rightarrow>
     slot_inv st' \<and> allocated st' = allocated st \<and> initialized st' = initialized st \<and>
     pool st' = (if ok then pool st \<union> {next_window st..<next_window st + 1024} else pool st)))"

section \<open>One segment inside the chain\<close>

lemma seg_allocated_subset: "seg_allocated seg \<subseteq> seg_slots seg"
  by (auto simp: seg_allocated_def seg_slots_def used_set_def)

lemma allocated_subset_pool: "allocated st \<subseteq> pool st"
  using seg_allocated_subset by (fastforce simp: allocated_def pool_def)

lemma finite_pool [simp]: "finite (pool st)"
  by (simp add: pool_def seg_slots_def)

lemma finite_allocated [simp]: "finite (allocated st)"
  using finite_subset [OF allocated_subset_pool] by simp

lemma slot_inv_seg:
  assumes "slot_inv st" "i < seg_count st"
  shows "i < length (segments st)" "segment_wf (segments st ! i)"
    "unat (sg_base (segments st ! i)) + unat (sg_count (segments st ! i)) \<le> next_window st"
  using assms by (auto simp: slot_inv_def)

lemma next_window_bound: "slot_inv st \<Longrightarrow> next_window st \<le> 1048576"
  by (auto simp: slot_inv_def next_window_def)

lemma slot_inv_unat:
  assumes "slot_inv st" "i < seg_count st" "j < unat (sg_count (segments st ! i))"
  shows "unat (sg_base (segments st ! i) + of_nat j) = unat (sg_base (segments st ! i)) + j"
proof -
  have "unat (sg_base (segments st ! i)) + j < 1048576"
    using slot_inv_seg(3) [OF assms(1,2)] next_window_bound [OF assms(1)] assms(3) by linarith
  then show ?thesis
    by (subst unat_add_le) (simp_all add: unat_of_nat_lt64)
qed

lemma update_segment:
  assumes inv: "slot_inv st" and i: "i < seg_count st"
    and seg: "same_range seg' (segments st ! i)" "segment_wf seg'"
    and st'_def: "st' = st\<lparr>segments := (segments st)[i := seg'], active_seg := a\<rparr>"
  shows "slot_inv st'" "pool st' = pool st"
    "allocated st' = (allocated st - seg_allocated (segments st ! i)) \<union> seg_allocated seg'"
    "initialized st' = initialized st"
proof -
  have len: "i < length (segments st)" by (rule slot_inv_seg(1) [OF inv i])
  have slots: "seg_slots (segments st' ! j) = seg_slots (segments st ! j)"
    and base: "sg_base (segments st' ! j) = sg_base (segments st ! j)"
    and count: "sg_count (segments st' ! j) = sg_count (segments st ! j)" for j
    using seg(1) len by (cases "j = i"; simp add: st'_def same_range_def seg_slots_def)+
  have wf: "segment_wf (segments st' ! j)" if "j < seg_count st" for j
    using that inv seg(2) len by (cases "j = i") (simp_all add: st'_def slot_inv_def)
  have frame: "seg_count st' = seg_count st" "initialized st' = initialized st"
    "next_window st' = next_window st" "cspace_expand_count st' = cspace_expand_count st"
    "length (segments st') = length (segments st)"
    by (simp_all add: st'_def next_window_def)
  show "slot_inv st'"
    using inv wf unfolding slot_inv_def by (simp add: frame slots base count)
  show "pool st' = pool st" by (simp add: pool_def frame slots)
  show "initialized st' = initialized st" by (rule frame)
  have other: "segments st' ! j = segments st ! j" if "j \<noteq> i" for j
    using that by (simp add: st'_def)
  have this_one: "segments st' ! i = seg'" using len by (simp add: st'_def)
  have split: "{..< seg_count st} = insert i ({..< seg_count st} - {i})" using i by auto
  have disj: "seg_allocated (segments st ! i) \<inter> seg_allocated (segments st ! j) = {}"
    if "j < seg_count st" "j \<noteq> i" for j
    using inv i that seg_allocated_subset unfolding slot_inv_def by blast
  have "allocated st' = seg_allocated seg' \<union> (\<Union>j\<in>{..< seg_count st} - {i}. seg_allocated (segments st ! j))"
  proof -
    have "allocated st' = seg_allocated (segments st' ! i) \<union>
        (\<Union>j\<in>{..< seg_count st} - {i}. seg_allocated (segments st' ! j))"
      unfolding allocated_def frame by (subst split) blast
    then show ?thesis using other by (simp add: this_one)
  qed
  moreover have "allocated st - seg_allocated (segments st ! i)
      = (\<Union>j\<in>{..< seg_count st} - {i}. seg_allocated (segments st ! j))"
    unfolding allocated_def using disj i by (subst split) blast
  ultimately show "allocated st' = (allocated st - seg_allocated (segments st ! i)) \<union> seg_allocated seg'"
    by blast
qed

lemma alloc_scan_None:
  assumes "alloc_scan f offs st = (None, st')"
    and "\<And>i s'. i < seg_count st \<Longrightarrow> f (segments st ! i) = (None, s') \<Longrightarrow> s' = segments st ! i"
    and "0 < seg_count st"
  shows "st' = st \<and> (\<forall>off\<in>set offs. fst (f (segments st ! ((active_seg st + off) mod seg_count st))) = None)"
  using assms
proof (induction offs)
  case Nil
  then show ?case by simp
next
  case (Cons off offs)
  let ?idx = "(active_seg st + off) mod seg_count st"
  have idx: "?idx < seg_count st" using Cons.prems(3) by simp
  obtain r s' where f: "f (segments st ! ?idx) = (r, s')" by force
  have r: "r = None" using Cons.prems(1) f by (cases r) (auto simp: Let_def)
  then have s': "s' = segments st ! ?idx" using Cons.prems(2) idx f by blast
  then have "alloc_scan f offs st = (None, st')" using Cons.prems(1) f r by (simp add: Let_def)
  with Cons f r show ?case by simp
qed

lemma alloc_scan_Some:
  assumes "alloc_scan f offs st = (Some c, st')"
    and "\<And>i s'. i < seg_count st \<Longrightarrow> f (segments st ! i) = (None, s') \<Longrightarrow> s' = segments st ! i"
    and "0 < seg_count st"
  shows "\<exists>i seg'. i < seg_count st \<and> f (segments st ! i) = (Some c, seg') \<and>
           st' = st\<lparr>segments := (segments st)[i := seg'], active_seg := i\<rparr>"
  using assms
proof (induction offs)
  case Nil
  then show ?case by simp
next
  case (Cons off offs)
  let ?idx = "(active_seg st + off) mod seg_count st"
  have idx: "?idx < seg_count st" using Cons.prems(3) by simp
  obtain r s' where f: "f (segments st ! ?idx) = (r, s')" by force
  show ?case
  proof (cases r)
    case None
    then have s': "s' = segments st ! ?idx" using Cons.prems(2) idx f by blast
    then have "alloc_scan f offs st = (Some c, st')" using Cons.prems(1) f None by (simp add: Let_def)
    with Cons show ?thesis by simp
  next
    case (Some x)
    with Cons.prems(1) f idx show ?thesis by (auto simp: Let_def)
  qed
qed

subsection \<open>Allocation\<close>

lemma seg_allocated_insert:
  assumes "same_range seg' seg" "used_set seg' = A \<union> used_set seg"
  shows "seg_allocated seg' = (\<lambda>j. unat (sg_base seg) + j) ` A \<union> seg_allocated seg"
  using assms by (auto simp: seg_allocated_def same_range_def)

lemma seg_range_fresh:
  assumes "slot_inv st" "i < seg_count st" "A \<inter> used_set (segments st ! i) = {}"
    "A \<subseteq> {..<unat (sg_count (segments st ! i))}"
  shows "(\<lambda>j. unat (sg_base (segments st ! i)) + j) ` A \<inter> allocated st = {}"
    "(\<lambda>j. unat (sg_base (segments st ! i)) + j) ` A \<subseteq> pool st"
proof -
  let ?s = "segments st ! i"
  let ?A = "(\<lambda>j. unat (sg_base ?s) + j) ` A"
  have sub: "?A \<subseteq> seg_slots ?s" using assms(4) by (auto simp: seg_slots_def)
  then show "?A \<subseteq> pool st" using assms(2) by (auto simp: pool_def)
  have "?A \<inter> seg_allocated ?s = {}"
    using assms(3) by (auto simp: seg_allocated_def)
  moreover have "?A \<inter> seg_allocated (segments st ! j) = {}" if "j < seg_count st" "j \<noteq> i" for j
    using sub that assms(1,2) seg_allocated_subset [of "segments st ! j"]
    unfolding slot_inv_def by blast
  ultimately show "?A \<inter> allocated st = {}"
    unfolding allocated_def by blast
qed

lemma alloc_segment_update:
  assumes inv: "slot_inv st" and i: "i < seg_count st"
    and seg: "same_range seg' (segments st ! i)" "segment_wf seg'"
      "used_set seg' = {k..<k + n} \<union> used_set (segments st ! i)"
      "{k..<k + n} \<inter> used_set (segments st ! i) = {}"
      "k + n \<le> unat (sg_count (segments st ! i))" "0 < n"
    and c: "c = sg_base (segments st ! i) + of_nat k"
    and st': "st' = st\<lparr>segments := (segments st)[i := seg'], active_seg := a\<rparr>"
  shows "slot_inv st'" "pool st' = pool st" "allocated st' = {unat c..<unat c + n} \<union> allocated st"
    "{unat c..<unat c + n} \<inter> allocated st = {}" "{unat c..<unat c + n} \<subseteq> pool st"
    "{unat c..<unat c + n} \<subseteq> seg_slots (segments st ! i)"
proof -
  let ?s = "segments st ! i"
  have unat_c: "unat c = unat (sg_base ?s) + k"
    using slot_inv_unat [OF inv i, of k] seg(5,6) c by simp
  then have img: "(\<lambda>j. unat (sg_base ?s) + j) ` {k..<k + n} = {unat c..<unat c + n}"
    by (simp add: image_add_atLeastLessThan add_ac)
  note up = update_segment [OF inv i seg(1,2) st']
  show "slot_inv st'" "pool st' = pool st" using up by simp_all
  have sub: "{k..<k + n} \<subseteq> {..<unat (sg_count ?s)}" using seg(5) by auto
  show "{unat c..<unat c + n} \<subseteq> seg_slots ?s" using unat_c seg(5) by (auto simp: seg_slots_def)
  show "{unat c..<unat c + n} \<inter> allocated st = {}" "{unat c..<unat c + n} \<subseteq> pool st"
    using seg_range_fresh [OF inv i seg(4) sub] unfolding img by simp_all
  have "seg_allocated ?s \<subseteq> allocated st" using i by (auto simp: allocated_def)
  then show "allocated st' = {unat c..<unat c + n} \<union> allocated st"
    using up(3) seg_allocated_insert [OF seg(1,3)] unfolding img by blast
qed

lemma alloc_single_locked_Some:
  assumes inv: "slot_inv st" and r: "alloc_single_locked st = (Some c, st')"
  shows "slot_inv st'" "pool st' = pool st" "unat c \<in> pool st" "unat c \<notin> allocated st"
    "allocated st' = insert (unat c) (allocated st)"
proof -
  have n0: "0 < seg_count st" using r by (auto simp: alloc_single_locked_def split: if_splits)
  with r have "alloc_scan segment_alloc_single [0..< seg_count st] st = (Some c, st')"
    by (simp add: alloc_single_locked_def)
  then obtain i seg' where i: "i < seg_count st"
      and f: "segment_alloc_single (segments st ! i) = (Some c, seg')"
      and st': "st' = st\<lparr>segments := (segments st)[i := seg'], active_seg := i\<rparr>"
    using alloc_scan_Some n0 segment_alloc_single_None slot_inv_seg(2) [OF inv] by metis
  obtain k where k: "k < unat (sg_count (segments st ! i))" "k \<notin> used_set (segments st ! i)"
      "c = sg_base (segments st ! i) + of_nat k" "same_range seg' (segments st ! i)"
      "segment_wf seg'" "used_set seg' = insert k (used_set (segments st ! i))"
    using segment_alloc_single_Some [OF slot_inv_seg(2) [OF inv i] f] by metis
  have "used_set seg' = {k..<k + 1} \<union> used_set (segments st ! i)" using k(6) by auto
  note up = alloc_segment_update [OF inv i k(4,5) this _ _ _ k(3) st']
  show "slot_inv st'" "pool st' = pool st" "unat c \<in> pool st" "unat c \<notin> allocated st"
    "allocated st' = insert (unat c) (allocated st)"
    using up k(1,2) by auto
qed

lemma alloc_single_locked_None:
  assumes inv: "slot_inv st" and r: "alloc_single_locked st = (None, st')"
  shows "st' = st \<and> allocated st = pool st"
proof (cases "seg_count st = 0")
  case True
  with r show ?thesis by (simp add: alloc_single_locked_def allocated_def pool_def)
next
  case n0: False
  with r have scan: "alloc_scan segment_alloc_single [0..< seg_count st] st = (None, st')"
    by (simp add: alloc_single_locked_def)
  have keep: "s' = segments st ! i"
    if "i < seg_count st" "segment_alloc_single (segments st ! i) = (None, s')" for i s'
    using segment_alloc_single_None [OF slot_inv_seg(2) [OF inv that(1)] that(2)] by simp
  from alloc_scan_None [OF scan keep] n0
  have st': "st' = st" and all: "\<forall>off < seg_count st.
      fst (segment_alloc_single (segments st ! ((active_seg st + off) mod seg_count st))) = None"
    by auto
  have "seg_allocated (segments st ! i) = seg_slots (segments st ! i)" if i: "i < seg_count st" for i
  proof -
    from rotate_cover [OF i, of "active_seg st"] all
    have "fst (segment_alloc_single (segments st ! i)) = None" by auto
    then obtain s' where "segment_alloc_single (segments st ! i) = (None, s')"
      by (cases "segment_alloc_single (segments st ! i)") auto
    with segment_alloc_single_None [OF slot_inv_seg(2) [OF inv i]]
    have "used_set (segments st ! i) = {..<unat (sg_count (segments st ! i))}" by blast
    then show ?thesis
      by (simp add: seg_allocated_def seg_slots_def lessThan_atLeast0 image_add_atLeastLessThan add_ac)
  qed
  with st' show ?thesis by (simp add: allocated_def pool_def)
qed

lemma consecutive_fast_Some:
  assumes inv: "slot_inv st" and r: "slot_alloc_consecutive_fast count st = (Some c, st')"
  shows "slot_inv st'" "pool st' = pool st"
    "allocated st' = {unat c..<unat c + unat count} \<union> allocated st"
    "{unat c..<unat c + unat count} \<inter> allocated st = {}"
    "{unat c..<unat c + unat count} \<subseteq> pool st" "count \<noteq> 0"
    "\<exists>i. i < seg_count st \<and> {unat c..<unat c + unat count} \<subseteq> seg_slots (segments st ! i)"
proof -
  let ?f = "\<lambda>seg. segment_alloc_contiguous seg count"
  have scan: "alloc_scan ?f [0..< seg_count st] st = (Some c, st')" and nz: "count \<noteq> 0"
    using r by (auto simp: slot_alloc_consecutive_fast_def split: if_splits)
  have n0: "0 < seg_count st" using scan by (cases "seg_count st") auto
  have keep: "s' = segments st ! i" if "i < seg_count st" "?f (segments st ! i) = (None, s')" for i s'
    using segment_alloc_contiguous_None(1) [OF slot_inv_seg(2) [OF inv that(1)] that(2)] .
  from alloc_scan_Some [OF scan keep n0] obtain i seg' where i: "i < seg_count st"
      and f: "?f (segments st ! i) = (Some c, seg')"
      and st': "st' = st\<lparr>segments := (segments st)[i := seg'], active_seg := i\<rparr>"
    by blast
  obtain k where k: "k + unat count \<le> unat (sg_count (segments st ! i))"
      "{k..<k + unat count} \<inter> used_set (segments st ! i) = {}"
      "c = sg_base (segments st ! i) + of_nat k" "same_range seg' (segments st ! i)"
      "segment_wf seg'" "used_set seg' = {k..<k + unat count} \<union> used_set (segments st ! i)"
    using segment_alloc_contiguous_Some [OF slot_inv_seg(2) [OF inv i] f] by metis
  have "0 < unat count" using nz by (simp add: unat_gt_0)
  note up = alloc_segment_update [OF inv i k(4,5,6,2,1) this k(3) st']
  from up show "slot_inv st'" "pool st' = pool st"
    "allocated st' = {unat c..<unat c + unat count} \<union> allocated st"
    "{unat c..<unat c + unat count} \<inter> allocated st = {}"
    "{unat c..<unat c + unat count} \<subseteq> pool st" by simp_all
  show "\<exists>i. i < seg_count st \<and> {unat c..<unat c + unat count} \<subseteq> seg_slots (segments st ! i)" using up(6) i by blast
  show "count \<noteq> 0" by (rule nz)
qed

lemma consecutive_fast_None:
  assumes inv: "slot_inv st" and r: "slot_alloc_consecutive_fast count st = (None, st')"
  shows "st' = st"
    and "count \<noteq> 0 \<Longrightarrow> i < seg_count st \<Longrightarrow> {b..<b + unat count} \<subseteq> seg_slots (segments st ! i) \<Longrightarrow>
         {b..<b + unat count} \<inter> allocated st \<noteq> {}"
proof -
  let ?f = "\<lambda>seg. segment_alloc_contiguous seg count"
  have keep: "s' = segments st ! i" if "i < seg_count st" "?f (segments st ! i) = (None, s')" for i s'
    using segment_alloc_contiguous_None(1) [OF slot_inv_seg(2) [OF inv that(1)] that(2)] .
  have scan: "alloc_scan ?f [0..< seg_count st] st = (None, st')" if "initialized st" "count \<noteq> 0"
    using r that by (simp add: slot_alloc_consecutive_fast_def)
  show "st' = st"
    using r alloc_scan_None [of ?f "[0..< seg_count st]" st st'] keep
    by (cases "seg_count st = 0") (auto simp: slot_alloc_consecutive_fast_def split: if_splits)
  assume nz: "count \<noteq> 0" and i: "i < seg_count st"
    and sub: "{b..<b + unat count} \<subseteq> seg_slots (segments st ! i)"
  have init: "initialized st" using inv i by (auto simp: slot_inv_def)
  have "\<forall>off\<in>set [0..< seg_count st]. fst (?f (segments st ! ((active_seg st + off) mod seg_count st))) = None"
    using alloc_scan_None [OF scan [OF init nz] keep] i by auto
  with rotate_cover [OF i, of "active_seg st"] have "fst (?f (segments st ! i)) = None" by auto
  then obtain s' where f: "?f (segments st ! i) = (None, s')" by (cases "?f (segments st ! i)") auto
  have pos: "0 < unat count" using nz by (simp add: unat_gt_0)
  define k where "k = b - unat (sg_base (segments st ! i))"
  from sub pos have b: "b = unat (sg_base (segments st ! i)) + k"
      "k + unat count \<le> unat (sg_count (segments st ! i))"
    by (auto simp: seg_slots_def k_def atLeastLessThan_subset_iff)
  from segment_alloc_contiguous_None(2) [OF slot_inv_seg(2) [OF inv i] f nz b(2)]
  obtain j where "k \<le> j" "j < k + unat count" "j \<in> used_set (segments st ! i)" by auto
  then have "unat (sg_base (segments st ! i)) + j \<in> {b..<b + unat count} \<inter> allocated st"
    using i b(1) by (auto simp: allocated_def seg_allocated_def)
  then show "{b..<b + unat count} \<inter> allocated st \<noteq> {}" by blast
qed

subsection \<open>Freeing\<close>

lemma segment_slot_index_spec:
  assumes "unat (sg_base seg) + unat (sg_count seg) \<le> 2 ^ 64"
  shows "segment_slot_index seg slot =
     (if unat slot \<in> seg_slots seg then Some (unat slot - unat (sg_base seg)) else None)"
proof (cases "slot < sg_base seg")
  case True
  then show ?thesis by (simp add: segment_slot_index_def seg_slots_def word_less_nat_alt)
next
  case False
  then have "unat (slot - sg_base seg) = unat slot - unat (sg_base seg)" "unat (sg_base seg) \<le> unat slot"
    by (simp_all add: unat_sub_le word_le_nat_alt not_less)
  with False show ?thesis
    by (auto simp: segment_slot_index_def seg_slots_def Let_def word_le_nat_alt)
qed

lemma free_scan_find:
  "free_scan slot idxs st =
     (case find (\<lambda>i. segment_slot_index (segments st ! i) slot \<noteq> None) idxs of
        None \<Rightarrow> (False, st)
      | Some i \<Rightarrow>
          (case segment_free (segments st ! i) (the (segment_slot_index (segments st ! i) slot)) of
             (ok, seg') \<Rightarrow>
               (ok, if ok then st\<lparr>segments := (segments st)[i := seg'],
                                 active_seg := (if i < active_seg st then i else active_seg st)\<rparr>
                    else st\<lparr>segments := (segments st)[i := seg']\<rparr>)))"
  by (induction idxs) (auto split: option.split bool.split prod.split)

lemma free_segment_update:
  assumes inv: "slot_inv st" and i: "i < seg_count st"
    and own: "unat slot \<in> seg_slots (segments st ! i)"
    and slot: "unat slot = unat (sg_base (segments st ! i)) + k"
    and f: "segment_free (segments st ! i) k = (ok, seg')"
    and st': "st' = (if ok then st\<lparr>segments := (segments st)[i := seg'], active_seg := a\<rparr>
                    else st\<lparr>segments := (segments st)[i := seg']\<rparr>)"
  shows "(ok \<longleftrightarrow> unat slot \<in> allocated st) \<and> slot_inv st' \<and> pool st' = pool st \<and>
      allocated st' = allocated st - {unat slot} \<and> (\<not> ok \<longrightarrow> st' = st)"
proof -
  let ?s = "segments st ! i"
  note fr = segment_free_spec [OF slot_inv_seg(2) [OF inv i] f]
  have mine: "unat slot \<in> allocated st \<longleftrightarrow> unat slot \<in> seg_allocated ?s"
    using own inv i seg_allocated_subset unfolding allocated_def slot_inv_def by blast
  have used: "unat slot \<in> seg_allocated ?s \<longleftrightarrow> k \<in> used_set ?s"
    using slot by (auto simp: seg_allocated_def)
  show ?thesis
  proof (cases ok)
    case False
    with st' fr(5) have "st' = st" by simp
    with False inv mine used fr(1) show ?thesis by auto
  next
    case True
    have base: "sg_base seg' = sg_base ?s" using fr(2) by (simp add: same_range_def)
    have "seg_allocated seg' = seg_allocated ?s - {unat slot}"
      unfolding seg_allocated_def base fr(4) slot by auto
    moreover have "seg_allocated ?s \<subseteq> allocated st" using i by (auto simp: allocated_def)
    moreover have "unat slot \<in> seg_allocated ?s" using True used fr(1) by simp
    moreover note update_segment [OF inv i fr(2,3), of st' a]
    ultimately show ?thesis using True st' mine by auto
  qed
qed

lemma slot_free_locked_spec:
  assumes inv: "slot_inv st" and r: "slot_free_locked slot st = (ok, st')"
  shows "ok \<longleftrightarrow> unat slot \<in> allocated st" "slot_inv st'" "pool st' = pool st"
    "allocated st' = allocated st - {unat slot}" "\<not> ok \<Longrightarrow> st' = st"
proof -
  have idx: "segment_slot_index (segments st ! i) slot =
     (if unat slot \<in> seg_slots (segments st ! i) then Some (unat slot - unat (sg_base (segments st ! i)))
      else None)" if "i < seg_count st" for i
    using slot_inv_seg(3) [OF inv that] next_window_bound [OF inv]
    by (intro segment_slot_index_spec) simp
  have *: "(ok \<longleftrightarrow> unat slot \<in> allocated st) \<and> slot_inv st' \<and> pool st' = pool st \<and>
      allocated st' = allocated st - {unat slot} \<and> (\<not> ok \<longrightarrow> st' = st)"
  proof (cases "unat slot \<in> pool st")
    case False
    then have "find (\<lambda>i. segment_slot_index (segments st ! i) slot \<noteq> None) [0..< seg_count st] = None"
      using idx by (auto simp: find_upt_None pool_def)
    then have "ok = False" "st' = st"
      using r by (auto simp: slot_free_locked_def free_scan_find split: if_splits)
    with False inv allocated_subset_pool show ?thesis by fastforce
  next
    case True
    then obtain i0 where i0: "i0 < seg_count st" "unat slot \<in> seg_slots (segments st ! i0)"
      by (auto simp: pool_def)
    then obtain i where fnd: "find (\<lambda>i. segment_slot_index (segments st ! i) slot \<noteq> None) [0..< seg_count st] = Some i"
      using idx by (cases "find (\<lambda>i. segment_slot_index (segments st ! i) slot \<noteq> None) [0..< seg_count st]")
        (auto simp: find_upt_None)
    note i = find_upt_Some(2,3) [OF fnd]
    let ?s = "segments st ! i"
    let ?k = "unat slot - unat (sg_base ?s)"
    have own: "unat slot \<in> seg_slots ?s" "segment_slot_index ?s slot = Some ?k"
      using i idx by (auto split: if_splits)
    obtain seg' where f: "segment_free ?s ?k = (ok, seg')"
        and st': "st' = (if ok then st\<lparr>segments := (segments st)[i := seg'],
                                 active_seg := (if i < active_seg st then i else active_seg st)\<rparr>
                    else st\<lparr>segments := (segments st)[i := seg']\<rparr>)"
      using r fnd own(2) inv i(1)
      by (auto simp: slot_free_locked_def free_scan_find slot_inv_def split: if_splits prod.splits)
    show ?thesis
      using free_segment_update [OF inv i(1) own(1) _ f st'] own(1) by (simp add: seg_slots_def)
  qed
  then show "ok \<longleftrightarrow> unat slot \<in> allocated st" "slot_inv st'" "pool st' = pool st"
    "allocated st' = allocated st - {unat slot}" "\<not> ok \<Longrightarrow> st' = st" by simp_all
qed

section \<open>Adding a segment\<close>

lemma slot_frame:
  assumes "segments st' = segments st" "seg_count st' = seg_count st"
    "initialized st' = initialized st" "cspace_expand_count st' = cspace_expand_count st"
  shows "slot_inv st' = slot_inv st" "pool st' = pool st" "allocated st' = allocated st"
  using assms by (simp_all add: slot_inv_def pool_def allocated_def next_window_def)

lemma new_segment_simps [simp]:
  "sg_base (new_segment b c) = b" "sg_count (new_segment b c) = c"
  "seg_slots (new_segment b c) = {unat b..<unat b + unat c}"
  by (simp_all add: new_segment_def seg_slots_def)

lemma new_segment_used:
  assumes "unat c \<le> 4096"
  shows "used_set (new_segment b c) = {}" "seg_allocated (new_segment b c) = {}"
    "segment_wf (new_segment b c)"
proof -
  have "\<not> segment_is_used (new_segment b c) i" if "i < 4096" for i
    using that by (simp add: segment_is_used_bit new_segment_def)
  with assms show us: "used_set (new_segment b c) = {}" by (auto simp: used_set_def)
  with assms show "seg_allocated (new_segment b c) = {}" "segment_wf (new_segment b c)"
    by (simp_all add: seg_allocated_def segment_wf_def) (simp_all add: new_segment_def)
qed

lemma add_segment:
  assumes inv: "slot_inv st" and room: "seg_count st < 16" and c: "unat c \<le> 4096"
    and disj: "\<And>i. i < seg_count st \<Longrightarrow> seg_slots (segments st ! i) \<inter> {unat b..<unat b + unat c} = {}"
    and st': "segments st' = (segments st)[seg_count st := new_segment b c]"
      "seg_count st' = Suc (seg_count st)" "initialized st'"
      "cspace_expand_count st \<le> cspace_expand_count st'"
      "cspace_expand_count st' \<le> Suc (cspace_expand_count st)"
    and top: "unat b + unat c \<le> next_window st'"
  shows "slot_inv st' \<and> pool st' = pool st \<union> {unat b..<unat b + unat c} \<and> allocated st' = allocated st"
proof -
  let ?n = "seg_count st"
  have len: "length (segments st) = 16" using inv by (simp add: slot_inv_def)
  have old: "segments st' ! i = segments st ! i" if "i < ?n" for i
    using that by (simp add: st')
  have new: "segments st' ! ?n = new_segment b c" using len room by (simp add: st')
  have mono: "next_window st \<le> next_window st'" using st'(4) by (simp add: next_window_def)
  have wf: "segment_wf (segments st' ! i) \<and>
      unat (sg_base (segments st' ! i)) + unat (sg_count (segments st' ! i)) \<le> next_window st'"
    if "i < Suc ?n" for i
  proof (cases "i = ?n")
    case True
    then show ?thesis using new new_segment_used(3) [OF c] top by simp
  next
    case False
    then have "i < ?n" using that by simp
    with old slot_inv_seg [OF inv this] mono show ?thesis by auto
  qed
  have dis: "seg_slots (segments st' ! i) \<inter> seg_slots (segments st' ! j) = {}"
    if "i < Suc ?n" "j < Suc ?n" "i \<noteq> j" for i j
    using that inv disj [of i] disj [of j] old [of i] old [of j] new
    by (cases "i = ?n"; cases "j = ?n") (auto simp: slot_inv_def)
  have "slot_inv st'"
    using wf dis inv room st' unfolding slot_inv_def by simp
  moreover have "pool st' = pool st \<union> {unat b..<unat b + unat c}"
    using old new by (auto simp: pool_def st'(2) lessThan_Suc)
  moreover have "allocated st' = allocated st"
    using old new new_segment_used(2) [OF c] by (auto simp: allocated_def st'(2) lessThan_Suc)
  ultimately show ?thesis by blast
qed

declare init_segments.simps [simp del]

lemma init_segments_frame:
  "init_segments b r st = (r', st') \<Longrightarrow>
   initialized st' = initialized st \<and> cspace_expand_count st' = cspace_expand_count st \<and>
   length (segments st') = length (segments st) \<and> expand_state st' = expand_state st \<and>
   cspace_ntfn st' = cspace_ntfn st \<and> expanded_depth st' = expanded_depth st \<and> root_bits st' = root_bits st"
proof (induction b r st rule: init_segments.induct)
  case (1 b r st)
  then show ?case
    by (subst (asm) (2) init_segments.simps) (auto simp: Let_def split: if_splits)
qed

lemma init_segments_inv:
  assumes "init_segments b r st = (r', st')" "slot_inv st" "initialized st"
    "unat b + unat r \<le> next_window st"
    "pool st \<subseteq> {..<unat b}"
  shows "slot_inv st' \<and> allocated st' = allocated st \<and>
    unat r' = unat r - (16 - seg_count st) * 4096 \<and>
    (r' = 0 \<longrightarrow> pool st' = pool st \<union> {unat b..<unat b + unat r})"
  using assms
proof (induction b r st rule: init_segments.induct)
  case (1 b r st)
  show ?case
  proof (cases "r \<noteq> 0 \<and> seg_count st < 16")
    case False
    with "1.prems"(1) have "r' = r" "st' = st"
      by (subst (asm) init_segments.simps; auto)+
    with False "1.prems"(2) show ?thesis by (auto simp: slot_inv_def)
  next
    case True
    define chunk where "chunk = min r 4096"
    define st1 where "st1 = st\<lparr>segments := (segments st)[seg_count st := new_segment b chunk],
                    seg_count := seg_count st + 1\<rparr>"
    have rec: "init_segments (b + chunk) (r - chunk) st1 = (r', st')"
      using "1.prems"(1) True
      by (subst (asm) init_segments.simps) (simp add: Let_def chunk_def st1_def)
    have ch: "unat chunk = min (unat r) 4096"
      by (simp add: chunk_def min_def word_le_nat_alt)
    have le: "chunk \<le> r" by (simp add: chunk_def)
    have ub: "unat (b + chunk) = unat b + unat chunk"
      using "1.prems"(4) next_window_bound [OF "1.prems"(2)] ch by (intro unat_add_le) simp
    have ur: "unat (r - chunk) = unat r - unat chunk" using le by (rule unat_sub_le)
    have seg: "slot_inv st1 \<and> pool st1 = pool st \<union> {unat b..<unat b + unat chunk} \<and>
        allocated st1 = allocated st"
    proof (rule add_segment [OF "1.prems"(2)])
      show "seg_slots (segments st ! i) \<inter> {unat b..<unat b + unat chunk} = {}"
        if "i < seg_count st" for i
        using "1.prems"(5) that by (fastforce simp: pool_def)
    qed (use True "1.prems"(3,4) ch in \<open>auto simp: st1_def next_window_def\<close>)
    have below: "pool st1 \<subseteq> {..<unat (b + chunk)}"
      using seg "1.prems"(5) by (auto simp: ub)
    have IH: "slot_inv st' \<and> allocated st' = allocated st1 \<and>
      unat r' = unat (r - chunk) - (16 - seg_count st1) * 4096 \<and>
      (r' = 0 \<longrightarrow> pool st' = pool st1 \<union> {unat (b + chunk)..<unat (b + chunk) + unat (r - chunk)})"
      unfolding st1_def
    proof (rule "1.IH" [OF True, of chunk "seg_count st"])
      show "init_segments (b + chunk) (r - chunk) (st\<lparr>segments := (segments st)[seg_count st :=
          new_segment b chunk], seg_count := seg_count st + 1\<rparr>) = (r', st')"
        using rec by (simp only: st1_def)
    qed (use seg below "1.prems"(3,4) ub ur le in
          \<open>auto simp: st1_def next_window_def word_le_nat_alt chunk_def\<close>)
    have "unat r - unat chunk - (16 - (seg_count st + 1)) * 4096 = unat r - (16 - seg_count st) * 4096"
      using True ch by (cases "unat r \<le> 4096") (simp_all add: diff_mult_distrib)
    moreover have "{unat b..<unat b + unat chunk} \<union> {unat b + unat chunk..<unat b + unat r} =
        {unat b..<unat b + unat r}"
      using le by (auto simp: word_le_nat_alt)
    moreover have "unat b + unat chunk + (unat r - unat chunk) = unat b + unat r"
      using le by (simp add: word_le_nat_alt)
    ultimately show ?thesis using IH seg by (auto simp: ub ur st1_def Un_assoc)
  qed
qed

lemma init_segments_initialized:
  "init_segments b r (st\<lparr>initialized := x\<rparr>) =
     (case init_segments b r st of (r', st') \<Rightarrow> (r', st'\<lparr>initialized := x\<rparr>))"
proof (induction b r st rule: init_segments.induct)
  case (1 b r st)
  show ?case
  proof (cases "r \<noteq> 0 \<and> seg_count st < 16")
    case True
    have swap: "st\<lparr>initialized := x, segments := ss, seg_count := n\<rparr> =
        st\<lparr>segments := ss, seg_count := n, initialized := x\<rparr>" for ss n
      by simp
    from "1.IH" [OF True refl refl] True show ?thesis
      by (subst init_segments.simps, subst (2) init_segments.simps) (simp add: Let_def swap)
  next
    case False
    then show ?thesis
      by (subst init_segments.simps, subst (2) init_segments.simps) auto
  qed
qed

lemma slot_alloc_init_spec:
  assumes len: "length (segments state) = 16" and fit: "unat base + unat count \<le> 1008 * 1024"
    and st: "st = slot_alloc_init base count ntfn state"
  shows "slot_inv st \<and> allocated st = {} \<and>
    (initialized st \<longleftrightarrow> (count \<noteq> 0 \<or> base \<noteq> 0) \<and> unat count \<le> 16 * 4096) \<and>
    pool st = (if initialized st then {unat base..<unat base + unat count} else {})"
proof -
  define st0 where "st0 = state\<lparr>segments := map (\<lambda>_. new_segment 0 0) (segments state),
                      seg_count := 0, active_seg := 0, cspace_ntfn := ntfn,
                      expand_state := Idle, root_bits := 0, expanded_depth := 0,
                      cspace_expand_count := 0\<rparr>"
  define st1 where "st1 = (if count = 0 \<and> base \<noteq> 0
                 then st0\<lparr>segments := (segments st0)[0 := new_segment base 0], seg_count := 1\<rparr>
                 else st0)"
  obtain r' st2 where run: "init_segments base count st1 = (r', st2)" by force
  define ok where "ok = (r' = 0 \<and> (count \<noteq> 0 \<or> base \<noteq> 0))"
  have st: "st = (if ok then st2\<lparr>initialized := True\<rparr> else st2\<lparr>initialized := False, seg_count := 0\<rparr>)"
    using run unfolding st slot_alloc_init_def st1_def st0_def ok_def by (simp add: Let_def)
  let ?on = "\<lambda>s. s\<lparr>initialized := True\<rparr>"
  have run': "init_segments base count (?on st1) = (r', ?on st2)"
    using run by (simp add: init_segments_initialized)
  have st0: "slot_inv (?on st0)" "pool (?on st0) = {}" "allocated (?on st0) = {}"
    "seg_count (?on st0) = 0" "next_window (?on st0) = 1008 * 1024"
    using len by (simp_all add: st0_def slot_inv_def pool_def allocated_def next_window_def)
  have st1: "slot_inv (?on st1) \<and> pool (?on st1) = {} \<and> allocated (?on st1) = {}"
  proof (cases "count = 0 \<and> base \<noteq> 0")
    case True
    have "slot_inv (?on st1) \<and> pool (?on st1) = pool (?on st0) \<union> {unat base..<unat base + unat (0::u64)} \<and>
        allocated (?on st1) = allocated (?on st0)"
      by (rule add_segment [OF st0(1)])
        (use True fit st0(4) in \<open>simp_all add: st1_def st0_def next_window_def\<close>)
    then show ?thesis using st0 by simp
  next
    case False
    then have "st1 = st0" by (auto simp: st1_def)
    with st0 show ?thesis by simp
  qed
  have win: "next_window (?on st1) = 1008 * 1024"
    by (simp add: st1_def st0_def next_window_def)
  have fin: "slot_inv (?on st2) \<and> allocated (?on st2) = allocated (?on st1) \<and>
    unat r' = unat count - (16 - seg_count (?on st1)) * 4096 \<and>
    (r' = 0 \<longrightarrow> pool (?on st2) = pool (?on st1) \<union> {unat base..<unat base + unat count})"
    by (rule init_segments_inv [OF run']) (use st1 win fit in simp_all)
  have r0: "r' = 0 \<longleftrightarrow> unat count \<le> 16 * 4096"
    using fin by (cases "count = 0") (auto simp: st1_def st0_def unat_eq_zero [symmetric])
  have "slot_inv (st2\<lparr>initialized := False, seg_count := 0\<rparr>)"
    using fin init_segments_frame [OF run]
    by (auto simp: slot_inv_def st1_def st0_def split: if_splits)
  then show ?thesis
    using fin st1 st r0 by (auto simp: ok_def pool_def allocated_def)
qed

section \<open>Counting\<close>

lemma card_pool:
  assumes "slot_inv st"
  shows "card (pool st) = (\<Sum>i< seg_count st. unat (sg_count (segments st ! i)))"
proof -
  have "card (\<Union>i\<in>{..< seg_count st}. seg_slots (segments st ! i)) =
      (\<Sum>i\<in>{..< seg_count st}. card (seg_slots (segments st ! i)))"
    using assms by (intro card_UN_disjoint) (auto simp: slot_inv_def seg_slots_def)
  then show ?thesis by (simp add: pool_def seg_slots_def)
qed

lemma card_allocated:
  assumes "slot_inv st"
  shows "card (allocated st) = (\<Sum>i< seg_count st. unat (sg_used (segments st ! i)))"
proof -
  have "seg_allocated (segments st ! i) \<inter> seg_allocated (segments st ! j) = {}"
    if "i < seg_count st" "j < seg_count st" "i \<noteq> j" for i j
    using that assms seg_allocated_subset unfolding slot_inv_def by blast
  then have "card (\<Union>i\<in>{..< seg_count st}. seg_allocated (segments st ! i)) =
      (\<Sum>i\<in>{..< seg_count st}. card (seg_allocated (segments st ! i)))"
    by (intro card_UN_disjoint) (auto simp: seg_allocated_def)
  moreover have "card (seg_allocated (segments st ! i)) = unat (sg_used (segments st ! i))"
    if "i < seg_count st" for i
    using slot_inv_seg(2) [OF assms that] by (simp add: seg_allocated_def segment_wf_def card_image)
  ultimately show ?thesis by (simp add: allocated_def)
qed

lemma seg_used_le_count:
  assumes "slot_inv st" "i < seg_count st"
  shows "unat (sg_used (segments st ! i)) \<le> unat (sg_count (segments st ! i))"
    "unat (sg_count (segments st ! i)) \<le> 4096"
  using slot_inv_seg(2) [OF assms] card_mono [OF _ used_set_le [of "segments st ! i"]]
  by (simp_all add: segment_wf_def)

lemma slot_alloc_remaining_card:
  assumes "slot_inv st"
  shows "unat (slot_alloc_remaining st) = card (pool st - allocated st)"
proof -
  let ?c = "\<lambda>i. unat (sg_count (segments st ! i))" and ?u = "\<lambda>i. unat (sg_used (segments st ! i))"
  let ?f = "\<lambda>i. saturating_sub (sg_count (segments st ! i)) (sg_used (segments st ! i))"
  have sub: "card (pool st - allocated st) = card (pool st) - card (allocated st)"
    by (intro card_Diff_subset finite_allocated allocated_subset_pool)
  have "(\<Sum>i< seg_count st. ?c i - ?u i) = (\<Sum>i< seg_count st. ?c i) - (\<Sum>i< seg_count st. ?u i)"
    using seg_used_le_count(1) [OF assms] by (intro sum_subtractf_nat) auto
  then have eq: "card (pool st - allocated st) = (\<Sum>i< seg_count st. unat (?f i))"
    by (simp add: sub card_pool assms card_allocated word_nat_simps)
  have "(\<Sum>i< seg_count st. unat (?f i)) \<le> (\<Sum>i< seg_count st. 4096)"
    using seg_used_le_count(2) [OF assms] by (intro sum_mono) (auto simp: word_nat_simps intro: le_trans [OF diff_le_self])
  moreover have "seg_count st \<le> 16" using assms by (simp add: slot_inv_def)
  ultimately have "(\<Sum>i< seg_count st. unat (?f i)) < 2 ^ 64" by simp
  then have "unat (\<Sum>i< seg_count st. ?f i) = card (pool st - allocated st)"
    unfolding eq by (intro unat_sum_bounded) simp
  moreover have "seg_count st = 0" if "\<not> initialized st" using that assms by (simp add: slot_inv_def)
  ultimately show ?thesis
    by (auto simp: slot_alloc_remaining_def fold_add_sum pool_def)
qed

section \<open>Expansion\<close>

lemma ensure_root_bits_frame:
  assumes "ensure_root_bits K st m = (st', m')"
  shows "slot_inv st' = slot_inv st" "pool st' = pool st" "allocated st' = allocated st"
    "initialized st' = initialized st" "expand_state st' = expand_state st"
    "cspace_expand_count st' = cspace_expand_count st" "seg_count st' = seg_count st"
    "cspace_ntfn st' = cspace_ntfn st" "next_window st' = next_window st"
proof -
  have "segments st' = segments st \<and> seg_count st' = seg_count st \<and>
    initialized st' = initialized st \<and> cspace_expand_count st' = cspace_expand_count st \<and>
    expand_state st' = expand_state st \<and> cspace_ntfn st' = cspace_ntfn st"
    using assms by (auto simp: ensure_root_bits_def split: if_splits prod.splits option.splits)
  then show "slot_inv st' = slot_inv st" "pool st' = pool st" "allocated st' = allocated st"
    "initialized st' = initialized st" "expand_state st' = expand_state st"
    "cspace_expand_count st' = cspace_expand_count st" "seg_count st' = seg_count st"
    "cspace_ntfn st' = cspace_ntfn st" "next_window st' = next_window st"
    using slot_frame [of st' st] by (simp_all add: next_window_def)
qed

lemma window_addr:
  assumes "slot_inv st"
  shows "unat (push_bit 10 (1008 + of_nat (cspace_expand_count st) :: u64)) = next_window st"
proof -
  have n: "cspace_expand_count st \<le> 16" using assms by (auto simp: slot_inv_def)
  then have a: "unat (1008 + of_nat (cspace_expand_count st) :: u64) = 1008 + cspace_expand_count st"
    by (subst unat_add_le) (simp_all add: unat_of_nat_lt64)
  have "unat ((1008 + of_nat (cspace_expand_count st) :: u64) * 1024) = (1008 + cspace_expand_count st) * 1024"
    unfolding unat_word_ariths(2) a using n by simp
  then show ?thesis by (simp add: push_bit_eq_mult next_window_def)
qed

lemma poll_requested_expand_spec:
  assumes inv: "slot_inv st" "initialized st"
    and r: "poll_requested_expand_locked K st ntfn m = (p, st', m')"
  shows "slot_inv st' \<and> allocated st' = allocated st \<and> initialized st' \<and>
    pool st' = (if p = Completed then pool st \<union> {next_window st..<next_window st + 1024} else pool st)"
proof (cases "p = Completed")
  case False
  with r have "segments st' = segments st \<and> seg_count st' = seg_count st \<and>
    initialized st' = initialized st \<and> cspace_expand_count st' = cspace_expand_count st"
    by (auto simp: poll_requested_expand_locked_def Let_def split: prod.splits if_splits)
  with slot_frame [of st' st] inv False show ?thesis by simp
next
  case True
  define addr where "addr = (push_bit 10 (1008 + of_nat (cspace_expand_count st)) :: u64)"
  have addr: "unat addr = next_window st" using window_addr [OF inv(1)] by (simp add: addr_def)
  have "segments st' = (segments st)[seg_count st := new_segment addr (push_bit 10 1)] \<and>
      seg_count st' = Suc (seg_count st) \<and> initialized st' \<and>
      cspace_expand_count st' = Suc (cspace_expand_count st) \<and> seg_count st < 16"
    using r True inv
    by (auto simp: poll_requested_expand_locked_def Let_def addr_def split: prod.splits if_splits)
  note st' = this
  have cnt: "unat (push_bit 10 (1 :: u64)) = 1024" by simp
  have "slot_inv st' \<and> pool st' = pool st \<union> {unat addr..<unat addr + unat (push_bit 10 (1 :: u64))} \<and>
      allocated st' = allocated st"
  proof (rule add_segment [OF inv(1)])
    show "seg_slots (segments st ! i) \<inter> {unat addr..<unat addr + unat (push_bit 10 (1 :: u64))} = {}"
      if "i < seg_count st" for i
      using slot_inv_seg(3) [OF inv(1) that] addr by (auto simp: seg_slots_def)
    show "unat addr + unat (push_bit 10 (1 :: u64)) \<le> next_window st'"
      using addr cnt st' by (simp add: next_window_def)
  qed (use st' cnt in simp_all)
  with True st' addr cnt show ?thesis by simp
qed

lemma drive_locked_spec:
  assumes inv: "slot_inv st" and r: "drive_locked K st m = (p, st', m')"
  shows "slot_inv st' \<and> allocated st' = allocated st \<and> initialized st' = initialized st \<and>
    pool st' = (if p = Some Completed then pool st \<union> {next_window st..<next_window st + 1024} else pool st)"
proof (cases "initialized st \<and> cspace_ntfn st \<noteq> 0 \<and> cspace_expand_count st < 8")
  case False
  with r inv show ?thesis by (auto simp: drive_locked_def Let_def split: if_splits)
next
  case True
  obtain st1 m1 where e: "ensure_root_bits K st m = (st1, m1)" by force
  note fr = ensure_root_bits_frame [OF e]
  show ?thesis
  proof (cases "expand_state st1")
    case Idle
    with r True e have p: "p = Some Pending" "st' = st1\<lparr>expand_state := Requested\<rparr>"
      by (auto simp: drive_locked_def)
    then show ?thesis using fr slot_frame [of st' st1] inv by simp
  next
    case Requested
    then obtain q where q: "poll_requested_expand_locked K st1 (cspace_ntfn st) m1 = (q, st', m')" "p = Some q"
      using r True e by (auto simp: drive_locked_def split: prod.splits)
    with poll_requested_expand_spec [OF _ _ q(1)] fr inv True show ?thesis by simp
  next
    case ExpandFailed
    with r True e have "p = Some ProgressFailed" "st' = st1" by (auto simp: drive_locked_def)
    then show ?thesis using fr inv by simp
  qed
qed

lemma async_inner_spec:
  assumes inv: "slot_inv st" and r: "slot_alloc_async_inner K st m = (res, st', m')"
  shows "slot_inv st' \<and> pool st \<subseteq> pool st' \<and>
    (case res of
       SlotOk c \<Rightarrow> unat c \<in> pool st' \<and> unat c \<notin> allocated st \<and>
                   allocated st' = insert (unat c) (allocated st)
     | _ \<Rightarrow> allocated st' = allocated st)"
proof (cases "initialized st")
  case False
  with r inv show ?thesis by (auto simp: slot_alloc_async_inner_def Let_def)
next
  case init: True
  obtain x st1 where a: "alloc_single_locked st = (x, st1)" by force
  show ?thesis
  proof (cases x)
    case (Some c)
    with r a init have "res = SlotOk c" "st' = st1" by (auto simp: slot_alloc_async_inner_def Let_def)
    with alloc_single_locked_Some [OF inv a [unfolded Some]] show ?thesis by simp
  next
    case None
    then have s1: "st1 = st" using alloc_single_locked_None [OF inv] a by simp
    show ?thesis
    proof (cases "expand_state st")
      case Idle
      obtain st2 m2 where e: "ensure_root_bits K st m = (st2, m2)" by force
      from r a init None s1 Idle e have "res \<noteq> SlotOk c" for c
        by (auto simp: slot_alloc_async_inner_def Let_def split: if_splits)
      moreover from r a init None s1 Idle e
      have "st' = st \<or> st' = st2\<lparr>expand_state := Requested\<rparr>"
        by (auto simp: slot_alloc_async_inner_def Let_def split: if_splits)
      ultimately show ?thesis
        using ensure_root_bits_frame [OF e] slot_frame [of "st2\<lparr>expand_state := Requested\<rparr>" st2] inv
        by (auto split: SlotResult.split)
    next
      case Requested
      obtain p st2 m2 where p: "poll_requested_expand_locked K st (cspace_ntfn st) m = (p, st2, m2)"
        using prod_cases3 by blast
      note ps = poll_requested_expand_spec [OF inv init p]
      show ?thesis
      proof (cases "p = Completed")
        case False
        with r a init None s1 Requested p have "st' = st2" "\<And>c. res \<noteq> SlotOk c"
          by (auto simp: slot_alloc_async_inner_def Let_def split: ExpandProgress.splits)
        with ps False show ?thesis by (auto split: SlotResult.split)
      next
        case True
        obtain y st3 where b: "alloc_single_locked st2 = (y, st3)" by force
        with r a init None s1 Requested p True
        have "st' = st3" "res = (case y of Some c \<Rightarrow> SlotOk c | None \<Rightarrow> Exhausted)"
          by (auto simp: slot_alloc_async_inner_def Let_def split: option.splits)
        with ps True b alloc_single_locked_Some [of st2 _ st3] alloc_single_locked_None [of st2 st3]
        show ?thesis by (auto split: option.splits)
      qed
    next
      case ExpandFailed
      with r a init None s1 inv show ?thesis by (auto simp: slot_alloc_async_inner_def Let_def)
    qed
  qed
qed

section \<open>The interface of the allocator\<close>

locale slot_pool =
  fixes inv :: "'s \<Rightarrow> bool"
    and slots :: "'s \<Rightarrow> nat set"
    and taken :: "'s \<Rightarrow> nat set"
    and alloc :: "'s \<Rightarrow> cap option \<times> 's"
    and free :: "cap \<Rightarrow> 's \<Rightarrow> bool \<times> 's"
  assumes slots_finite: "inv s \<Longrightarrow> finite (slots s)"
    and taken_slots: "inv s \<Longrightarrow> taken s \<subseteq> slots s"
    and alloc_Some: "inv s \<Longrightarrow> alloc s = (Some c, s') \<Longrightarrow>
          inv s' \<and> slots s' = slots s \<and> unat c \<in> slots s - taken s \<and> taken s' = insert (unat c) (taken s)"
    and alloc_None: "inv s \<Longrightarrow> alloc s = (None, s') \<Longrightarrow> s' = s \<and> taken s = slots s"
    and free_result: "inv s \<Longrightarrow> free c s = (ok, s') \<Longrightarrow>
          inv s' \<and> slots s' = slots s \<and> (ok \<longleftrightarrow> unat c \<in> taken s) \<and> taken s' = taken s - {unat c}"
begin

lemma alloc_fails_iff:
  assumes "inv s"
  shows "fst (alloc s) = None \<longleftrightarrow> taken s = slots s"
proof (cases "alloc s")
  case (Pair r s')
  show ?thesis
  proof (cases r)
    case None
    with Pair alloc_None [OF assms] show ?thesis by auto
  next
    case (Some c)
    with Pair alloc_Some [OF assms, of c s'] show ?thesis by auto
  qed
qed

lemma alloc_then_free:
  assumes "inv s" "alloc s = (Some c, s')" "free c s' = (ok, s'')"
  shows "ok \<and> inv s'' \<and> slots s'' = slots s \<and> taken s'' = taken s"
  using alloc_Some [OF assms(1,2)] free_result [OF _ assms(3)] by auto

lemma no_double_free:
  assumes "inv s" "free c s = (True, s')"
  shows "fst (free c s') = False"
proof (cases "free c s'")
  case (Pair ok s'')
  with free_result [OF assms] free_result [of s' c ok s''] show ?thesis by auto
qed

lemma alloc_n_spec:
  assumes "inv s" "alloc_n alloc n s = (cs, s')"
  shows "inv s' \<and> slots s' = slots s \<and> distinct (map unat cs) \<and>
    unat ` set cs \<subseteq> slots s - taken s \<and> taken s' = unat ` set cs \<union> taken s \<and>
    length cs = min n (card (slots s - taken s))"
  using assms
proof (induction n arbitrary: s cs)
  case 0
  then show ?case by simp
next
  case (Suc n)
  show ?case
  proof (cases "alloc s")
    case (Pair r s1)
    show ?thesis
    proof (cases r)
      case None
      with Pair alloc_None [OF Suc.prems(1)] Suc.prems show ?thesis by auto
    next
      case (Some c)
      note a = alloc_Some [OF Suc.prems(1) Pair [unfolded Some]]
      obtain cs1 where cs1: "alloc_n alloc n s1 = (cs1, s')" "cs = c # cs1"
        using Suc.prems(2) Pair Some by (auto split: prod.splits)
      have IH: "inv s' \<and> slots s' = slots s1 \<and> distinct (map unat cs1) \<and>
          unat ` set cs1 \<subseteq> slots s1 - taken s1 \<and> taken s' = unat ` set cs1 \<union> taken s1 \<and>
          length cs1 = min n (card (slots s1 - taken s1))"
        using Suc.IH [OF _ cs1(1)] a by blast
      have eq: "slots s - taken s = insert (unat c) (slots s1 - taken s1)" using a by auto
      have fin: "finite (slots s1 - taken s1)" using slots_finite [of s1] a by simp
      have new: "unat c \<notin> slots s1 - taken s1" using a by simp
      have "card (slots s - taken s) = Suc (card (slots s1 - taken s1))"
        unfolding eq by (rule card_insert_disjoint [OF fin new])
      then have len: "length cs = min (Suc n) (card (slots s - taken s))"
        using IH cs1(2) by simp
      have dist: "distinct (map unat cs)" using IH new cs1(2) by auto
      have sub: "unat ` set cs \<subseteq> slots s - taken s" unfolding eq using IH cs1(2) by auto
      have tk: "taken s' = unat ` set cs \<union> taken s" using IH a cs1(2) by auto
      from IH a len dist sub tk show ?thesis by simp
    qed
  qed
qed

end

lemma slot_alloc_no_expand_eq:
  "slot_inv st \<Longrightarrow> slot_alloc_no_expand st = alloc_single_locked st"
  by (simp add: slot_alloc_no_expand_def slot_alloc_is_initialized_def slot_alloc_fast_def
      slot_inv_def alloc_single_locked_def)

lemma slot_alloc_fast_eq: "slot_inv st \<Longrightarrow> slot_alloc_fast st = alloc_single_locked st"
  by (simp add: slot_alloc_fast_def slot_inv_def alloc_single_locked_def)

interpretation sp: slot_pool slot_inv pool allocated slot_alloc_no_expand slot_free
proof
  fix s :: SlotAllocState and c s' ok
  show "finite (pool s)" by simp
  show "allocated s \<subseteq> pool s" by (rule allocated_subset_pool)
  assume inv: "slot_inv s"
  show "slot_inv s' \<and> pool s' = pool s \<and> unat c \<in> pool s - allocated s \<and>
      allocated s' = insert (unat c) (allocated s)" if "slot_alloc_no_expand s = (Some c, s')"
    using alloc_single_locked_Some [OF inv] that slot_alloc_no_expand_eq [OF inv] by simp
  show "s' = s \<and> allocated s = pool s" if "slot_alloc_no_expand s = (None, s')"
    using alloc_single_locked_None [OF inv] that slot_alloc_no_expand_eq [OF inv] by simp
  show "slot_inv s' \<and> pool s' = pool s \<and> (ok \<longleftrightarrow> unat c \<in> allocated s) \<and>
      allocated s' = allocated s - {unat c}" if "slot_free c s = (ok, s')"
    using slot_free_locked_spec [OF inv] that by (simp add: slot_free_def)
qed

lemma slot_free_range_spec:
  assumes "slot_inv st"
  shows "slot_inv (slot_free_range base n st) \<and> pool (slot_free_range base n st) = pool st \<and>
    allocated (slot_free_range base n st) =
      allocated st - (\<lambda>off. unat (base + of_nat off)) ` {..<unat n}"
proof -
  have "slot_inv (fold (\<lambda>off s. snd (slot_free_locked (base + of_nat off) s)) [0..<k] st) \<and>
    pool (fold (\<lambda>off s. snd (slot_free_locked (base + of_nat off) s)) [0..<k] st) = pool st \<and>
    allocated (fold (\<lambda>off s. snd (slot_free_locked (base + of_nat off) s)) [0..<k] st) =
      allocated st - (\<lambda>off. unat (base + of_nat off)) ` {..<k}" for k
  proof (induction k)
    case 0
    then show ?case using assms by simp
  next
    case (Suc k)
    let ?s = "fold (\<lambda>off s. snd (slot_free_locked (base + of_nat off) s)) [0..<k] st"
    obtain ok s' where f: "slot_free_locked (base + of_nat k) ?s = (ok, s')" by force
    with slot_free_locked_spec [OF _ f] Suc show ?case by (auto simp: lessThan_Suc)
  qed
  then show ?thesis using assms by (cases "n = 0") (simp_all add: slot_free_range_def)
qed

lemma slot_step_sound:
  assumes "slot_step K (st, m) e (st', m')" "slot_inv st"
  shows "slot_inv st' \<and> pool st \<subseteq> pool st' \<and> step_effect e (allocated st) (allocated st')"
  using assms
proof (cases rule: slot_step.cases)
  case (alloc c)
  then show ?thesis
    using alloc_single_locked_Some [of st c st'] assms(2) slot_alloc_fast_eq [OF assms(2)] by auto
next
  case alloc_none
  then show ?thesis
    using alloc_single_locked_None [of st st'] assms(2) slot_alloc_fast_eq [OF assms(2)] by auto
next
  case (run n c)
  then show ?thesis using consecutive_fast_Some [OF assms(2)] by auto
next
  case (run_none n)
  then show ?thesis using consecutive_fast_None(1) [OF assms(2)] assms(2) by auto
next
  case (async c)
  then show ?thesis using async_inner_spec [OF assms(2)] by fastforce
next
  case (async_none r)
  then show ?thesis using async_inner_spec [OF assms(2) async_none(2)] by auto
next
  case (free slot ok)
  then show ?thesis using slot_free_locked_spec [OF assms(2) free(3)] by auto
next
  case (free_range base n)
  then show ?thesis using slot_free_range_spec [OF assms(2), of base n] by auto
next
  case (drive p)
  then show ?thesis using drive_locked_spec [OF assms(2) drive(2)] by auto
next
  case kernel
  then show ?thesis using assms(2) by simp
qed

lemma slot_run_sound:
  assumes "slot_run K (st, m) es (st', m')" "slot_inv st" "allocated st = {}"
  shows "slot_inv st' \<and> pool st \<subseteq> pool st' \<and> allocated st' = owned es \<and>
    (\<forall>xs G ys. es = xs @ Granted G # ys \<longrightarrow> G \<inter> owned xs = {} \<and> G \<subseteq> pool st')"
  using assms(1,2,3)
proof (induction "(st, m)" es "(st', m')" arbitrary: st' m' rule: slot_run.induct)
  case run_nil
  then show ?case by simp
next
  case (run_snoc es t e)
  obtain st1 m1 where t: "t = (st1, m1)" by (cases t)
  note IH = run_snoc.hyps(2) [OF t run_snoc.prems]
  have st: "slot_inv st' \<and> pool st1 \<subseteq> pool st' \<and> step_effect e (allocated st1) (allocated st')"
    by (rule slot_step_sound [of K st1 m1 e st' m']) (use IH run_snoc.hyps(3) t in simp_all)
  have "allocated st' = owned (es @ [e])"
    using st IH by (cases e) auto
  moreover have "G \<inter> owned xs = {} \<and> G \<subseteq> pool st'" if "es @ [e] = xs @ Granted G # ys" for xs G ys
  proof (cases ys rule: rev_cases)
    case Nil
    with that have "es = xs" "e = Granted G" by auto
    with st IH allocated_subset_pool [of st'] show ?thesis by auto
  next
    case (snoc ys' y)
    with that have "es = xs @ Granted G # ys'" by auto
    with IH st show ?thesis by blast
  qed
  ultimately show ?case using st IH by blast
qed

section \<open>The blocking loop\<close>

lemma drive_locked_pending:
  assumes "drive_locked K st m = (p, st', m')" "p \<noteq> Some Completed"
  shows "next_window st' = next_window st" "cspace_ntfn st' = cspace_ntfn st"
    "seg_count st' = seg_count st" "cspace_expand_count st' = cspace_expand_count st"
proof -
  obtain st1 m1 where e: "ensure_root_bits K st m = (st1, m1)" by force
  note fr = ensure_root_bits_frame [OF e]
  have "seg_count st' = seg_count st \<and> cspace_expand_count st' = cspace_expand_count st \<and>
    cspace_ntfn st' = cspace_ntfn st"
    using assms fr e
    by (auto simp: drive_locked_def poll_requested_expand_locked_def Let_def
        split: if_splits prod.splits ExpandState.splits)
  then show "next_window st' = next_window st" "cspace_ntfn st' = cspace_ntfn st"
    "seg_count st' = seg_count st" "cspace_expand_count st' = cspace_expand_count st"
    by (simp_all add: next_window_def)
qed

lemma drive_sound:
  assumes "drive_cspace_expand_blocking K st m = Some r"
  shows "drive_post st r"
proof (rule drive_cspace_expand_blocking.raw_induct [where P = "\<lambda>K st m r. drive_post st r", OF _ assms])
  fix drive :: "'a kernel \<Rightarrow> SlotAllocState \<Rightarrow> 'a machine \<Rightarrow> (bool \<times> SlotAllocState \<times> 'a machine) option"
    and K st m r
  assume IH: "\<And>K st m r. drive K st m = Some r \<Longrightarrow> drive_post st r"
    and run: "(case drive_locked K st m of
        (None, st', m') \<Rightarrow> Some (False, st', m')
      | (Some Completed, st', m') \<Rightarrow> Some (True, st', m')
      | (Some Pending, st', m') \<Rightarrow> drive K st' (snd (syscall K SYS_YIELD 0 0 0 0 0 0 m'))
      | (Some ProgressFailed, st', m') \<Rightarrow> Some (False, st', m')) = Some r"
  obtain p st1 m1 where d: "drive_locked K st m = (p, st1, m1)" using prod_cases3 by blast
  show "drive_post st r"
  proof (cases "p = Some Pending")
    case True
    with run d have "drive_post st1 r" by (auto intro: IH)
    then show ?thesis
      using drive_locked_spec [OF _ d] drive_locked_pending [OF d] True
      by (auto simp: drive_post_def)
  next
    case False
    with run d have "r = (p = Some Completed, st1, m1)"
      by (auto split: option.splits ExpandProgress.splits)
    then show ?thesis using drive_locked_spec [OF _ d] by (simp add: drive_post_def)
  qed
qed

lemma drive_completes:
  assumes "slot_inv st" "initialized st" "cspace_ntfn st \<noteq> 0" "cspace_expand_count st < 8"
    "seg_count st < 16" "expand_state st = Requested"
    and ans: "procmgr_answers K (cspace_ntfn st) (probe_addr st) rank"
  shows "\<exists>st' m'. drive_cspace_expand_blocking K st m = Some (True, st', m')"
  using assms
proof (induction "rank m" arbitrary: st m rule: less_induct)
  case less
  obtain st1 m1 where e: "ensure_root_bits K st m = (st1, m1)" by force
  note fr = ensure_root_bits_frame [OF e]
  have rk: "rank m1 \<le> rank m"
    using e less.prems(7)
    by (auto simp: ensure_root_bits_def procmgr_answers_def split: if_splits prod.splits option.splits)
      (metis snd_conv)+
  obtain err m2 where c: "cnode_copy_depth K CAP_SELF_CSPACE CAP_SELF_TCB CAP_SELF_CSPACE
      (probe_addr st) CAP_RIGHTS_ALL 0 (root_bits st1 + 10) m1 = (err, m2)" by force
  have pa: "probe_addr st1 = probe_addr st" using fr by (simp add: probe_addr_def)
  show ?case
  proof (cases "err = 0")
    case True
    then have "\<exists>st' m'. drive_locked K st m = (Some Completed, st', m')"
      using less.prems fr e c pa
      by (auto simp: drive_locked_def poll_requested_expand_locked_def Let_def probe_addr_def)
    then show ?thesis
      by (subst drive_cspace_expand_blocking.simps) (auto split: option.splits)
  next
    case False
    define m3 where "m3 = snd (syscall K SYS_SIGNAL (cspace_ntfn st) 0 0 0 0 0 m2)"
    have d: "drive_locked K st m = (Some Pending, st1, m3)"
      using less.prems fr e c pa False
      by (auto simp: drive_locked_def poll_requested_expand_locked_def Let_def probe_addr_def m3_def)
    let ?m = "snd (syscall K SYS_YIELD 0 0 0 0 0 0 m3)"
    have "rank ?m < rank m1"
      using less.prems(7) c False unfolding procmgr_answers_def m3_def by blast
    with rk have lt: "rank ?m < rank m" by simp
    have "\<exists>st' m'. drive_cspace_expand_blocking K st1 ?m = Some (True, st', m')"
      by (rule less.hyps [OF lt]) (use less.prems fr pa in simp_all)
    with d show ?thesis by (subst drive_cspace_expand_blocking.simps) auto
  qed
qed

lemma drive_completes_any:
  assumes "slot_inv st" "initialized st" "cspace_ntfn st \<noteq> 0" "cspace_expand_count st < 8"
    "seg_count st < 16" "expand_state st \<noteq> ExpandFailed"
    and ans: "procmgr_answers K (cspace_ntfn st) (probe_addr st) rank"
  shows "\<exists>st' m'. drive_cspace_expand_blocking K st m = Some (True, st', m')"
proof (cases "expand_state st")
  case Idle
  obtain st1 m1 where e: "ensure_root_bits K st m = (st1, m1)" by force
  note fr = ensure_root_bits_frame [OF e]
  define st2 where "st2 = st1\<lparr>expand_state := Requested\<rparr>"
  have d: "drive_locked K st m = (Some Pending, st2, snd (syscall K SYS_SIGNAL (cspace_ntfn st) 0 0 0 0 0 m1))"
    using assms e fr Idle by (simp add: drive_locked_def st2_def)
  have inv: "slot_inv st2" using slot_frame [of st2 st1] fr assms(1) by (simp add: st2_def)
  have "\<exists>st' m'. drive_cspace_expand_blocking K st2 m'' = Some (True, st', m')" for m''
    by (rule drive_completes [OF inv]) (use assms fr in \<open>simp_all add: st2_def probe_addr_def\<close>)
  with d show ?thesis by (subst drive_cspace_expand_blocking.simps) auto
next
  case Requested
  with drive_completes assms show ?thesis by blast
next
  case ExpandFailed
  with assms(6) show ?thesis by simp
qed

lemma retry_expand_Some:
  "fast st = (Some c, st') \<Longrightarrow> retry_expand (Suc n) K fast st m = Some (Some c, st', m)"
  by simp

lemma retry_expand_None:
  "fast st = (None, st1) \<Longrightarrow> drive_cspace_expand_blocking K st1 m = Some (ok, st2, m2) \<Longrightarrow>
   retry_expand (Suc n) K fast st m = (if \<not> ok then Some (None, st2, m2) else retry_expand n K fast st2 m2)"
  by simp

lemma slot_alloc_retry:
  assumes "initialized st"
  obtains n where "slot_alloc K st m = retry_expand (Suc (Suc n)) K slot_alloc_fast st m"
proof
  show "slot_alloc K st m = retry_expand (Suc (Suc 16)) K slot_alloc_fast st m"
    using assms by (simp add: slot_alloc_def slot_alloc_is_initialized_def)
qed

lemma retry_expand_sound:
  assumes "retry_expand n K fast st m = Some (r, st', m')" "slot_inv st"
    and fast: "\<And>s c s'. slot_inv s \<Longrightarrow> fast s = (Some c, s') \<Longrightarrow>
      slot_inv s' \<and> pool s' = pool s \<and> G c \<subseteq> pool s \<and> G c \<inter> allocated s = {} \<and>
      allocated s' = G c \<union> allocated s"
    and none: "\<And>s s'. slot_inv s \<Longrightarrow> fast s = (None, s') \<Longrightarrow> s' = s"
  shows "slot_inv st' \<and> pool st \<subseteq> pool st' \<and>
    (case r of Some c \<Rightarrow> G c \<subseteq> pool st' \<and> G c \<inter> allocated st = {} \<and> allocated st' = G c \<union> allocated st
     | None \<Rightarrow> allocated st' = allocated st)"
  using assms(1,2)
proof (induction n arbitrary: st m)
  case 0
  then show ?case by simp
next
  case (Suc n)
  obtain x st1 where f: "fast st = (x, st1)" by force
  show ?case
  proof (cases x)
    case (Some c)
    with Suc.prems f have "r = Some c" "st' = st1" by auto
    with Some f fast [OF Suc.prems(2), of c st1] show ?thesis by simp
  next
    case None
    then have s1: "st1 = st" using none [OF Suc.prems(2)] f by simp
    with Suc.prems(1) f None obtain ok st2 m2
      where d: "drive_cspace_expand_blocking K st m = Some (ok, st2, m2)"
        and rest: "(if \<not> ok then Some (None, st2, m2) else retry_expand n K fast st2 m2) = Some (r, st', m')"
      by (auto simp: bind_eq_Some_conv)
    from drive_sound [OF d] Suc.prems(2)
    have "slot_inv st2" "allocated st2 = allocated st" "pool st \<subseteq> pool st2"
      by (auto simp: drive_post_def split: if_splits)
    with rest Suc.IH [of st2 m2] show ?thesis
      by (cases ok; cases r) auto
  qed
qed

section \<open>Properties\<close>

text \<open>C1: In every interleaving of the allocator's locked sections by any number of
  threads, starting from an allocator initialised with a range that ends below the first
  expansion window (slot 1008 * 1024), no slot is granted while it is still
  owned: the slots of each grant are disjoint from the slots granted before and not yet
  released, they belong to the pool, and the bitmap records exactly the owned slots.\<close>

theorem slot_no_double_grant:
  assumes "unat base + unat count \<le> 1008 * 1024"
    and "slot_run K (slot_alloc_init base count ntfn SLOT_ALLOC, m) es (st, m')"
  shows "allocated st = owned es \<and>
    (\<forall>xs G ys. es = xs @ Granted G # ys \<longrightarrow> G \<inter> owned xs = {} \<and> G \<subseteq> pool st)"
proof -
  have "length (segments SLOT_ALLOC) = 16" by (simp add: SLOT_ALLOC_def)
  from slot_alloc_init_spec [OF this assms(1) refl] slot_run_sound [OF assms(2)]
  show ?thesis by blast
qed

theorem slot_no_double_grant_witness:
  "allocated (snd (slot_alloc_fast (slot_alloc_init 64 4 0 SLOT_ALLOC))) = {64}"
proof -
  let ?K = "\<lambda>_ _ _ _ _ _ _ _ k. (\<lparr>r_error = 0, r_value = 0\<rparr>, zero_ipc_buffer, k) :: TronaResult \<times> IpcBuffer \<times> unit"
  let ?m = "\<lparr>ipc_buffer = None, send_cap_count = 0, kern = ()\<rparr>"
  let ?s = "slot_alloc_init 64 4 0 SLOT_ALLOC"
  have "fst (slot_alloc_fast ?s) = Some 64" by code_simp
  then have "slot_alloc_fast ?s = (Some 64, snd (slot_alloc_fast ?s))" by (simp add: prod_eq_iff)
  from slot_step.alloc [OF this, of ?K ?m]
  have "slot_run ?K (?s, ?m) ([] @ [Granted {unat (64 :: cap)}]) (snd (slot_alloc_fast ?s), ?m)"
    by (rule slot_run.run_snoc [OF slot_run.run_nil])
  from slot_no_double_grant [OF _ this] show ?thesis by simp
qed



text \<open>C11: \<open>n\<close> allocations without expansion hand out exactly as many slots as are free, at
  most \<open>n\<close>: all different, all previously unallocated, all of the pool; afterwards exactly
  these are allocated in addition.  In particular allocation fails only when the pool is full.\<close>

theorem slot_alloc_exhaustive:
  assumes "slot_inv st" and "alloc_n slot_alloc_no_expand n st = (cs, st')"
  shows "distinct (map unat cs) \<and> unat ` set cs \<subseteq> pool st - allocated st \<and>
    length cs = min n (unat (slot_alloc_remaining st)) \<and>
    slot_inv st' \<and> pool st' = pool st \<and> allocated st' = unat ` set cs \<union> allocated st"
  using sp.alloc_n_spec [OF assms] slot_alloc_remaining_card [OF assms(1)] by simp

theorem slot_alloc_exhaustive_witness:
  "length (fst (alloc_n slot_alloc_no_expand 7 (slot_alloc_init 64 4 0 SLOT_ALLOC))) = 4"
proof -
  have len: "length (segments SLOT_ALLOC) = 16" by (simp add: SLOT_ALLOC_def)
  have "slot_inv (slot_alloc_init 64 4 0 SLOT_ALLOC)"
    using slot_alloc_init_spec [OF len _ refl, of 64 4 0] by simp
  moreover have "unat (slot_alloc_remaining (slot_alloc_init 64 4 0 SLOT_ALLOC)) = 4" by code_simp
  ultimately show ?thesis using slot_alloc_exhaustive [OF _ prod.collapse [symmetric]] by simp
qed

text \<open>C10: Freeing succeeds exactly on the allocated slots, removes that slot and nothing
  else, and a second free of the same slot is refused; freeing what was just allocated
  restores the set of allocated slots.\<close>

theorem slot_free_correct:
  assumes "slot_inv st" and "slot_free c st = (ok, st')"
  shows "(ok \<longleftrightarrow> unat c \<in> allocated st) \<and> allocated st' = allocated st - {unat c} \<and>
    pool st' = pool st \<and> slot_inv st' \<and> fst (slot_free c st') = False \<and>
    (\<forall>st0. slot_inv st0 \<longrightarrow> slot_alloc_no_expand st0 = (Some c, st) \<longrightarrow>
       ok \<and> allocated st' = allocated st0)"
proof -
  note f = sp.free_result [OF assms]
  have "fst (slot_free c st') = False"
    using f sp.free_result [of st' c "fst (slot_free c st')" "snd (slot_free c st')"] by simp
  with f sp.alloc_then_free [OF _ _ assms(2)] show ?thesis by blast
qed

theorem slot_free_correct_witness:
  "fst (slot_free 65 (slot_alloc_init 64 4 0 SLOT_ALLOC)) = False \<and>
   fst (slot_free 64 (snd (slot_alloc_no_expand (slot_alloc_init 64 4 0 SLOT_ALLOC)))) = True \<and>
   allocated (snd (slot_free 64 (snd (slot_alloc_no_expand (slot_alloc_init 64 4 0 SLOT_ALLOC))))) = {}"
proof -
  have len: "length (segments SLOT_ALLOC) = 16" by (simp add: SLOT_ALLOC_def)
  have init: "slot_inv (slot_alloc_init 64 4 0 SLOT_ALLOC)" "allocated (slot_alloc_init 64 4 0 SLOT_ALLOC) = {}"
    using slot_alloc_init_spec [OF len _ refl, of 64 4 0] by simp_all
  let ?st = "snd (slot_alloc_no_expand (slot_alloc_init 64 4 0 SLOT_ALLOC))"
  have "fst (slot_alloc_no_expand (slot_alloc_init 64 4 0 SLOT_ALLOC)) = Some 64" by code_simp
  then have a: "slot_alloc_no_expand (slot_alloc_init 64 4 0 SLOT_ALLOC) = (Some 64, ?st)" by (simp add: prod_eq_iff)
  have "slot_inv ?st" using sp.alloc_Some [OF init(1) a] by simp
  from slot_free_correct [OF this prod.collapse [symmetric], of 64] init a
  have "fst (slot_free 64 ?st) = True \<and> allocated (snd (slot_free 64 ?st)) = {}" by auto
  with slot_free_correct [OF init(1) prod.collapse [symmetric], of 65] init(2) show ?thesis by simp
qed

text \<open>C12: Consecutive allocation returns the base of a run of free slots of one segment and
  marks exactly that run; it fails only if no segment has such a run (and then changes
  nothing).\<close>

theorem slot_alloc_consecutive_correct:
  assumes "slot_inv st" and "count \<noteq> 0" and "slot_alloc_consecutive_fast count st = (r, st')"
  shows "slot_inv st' \<and> pool st' = pool st \<and>
    (case r of
       Some c \<Rightarrow> (\<exists>i. i < seg_count st \<and> {unat c..<unat c + unat count} \<subseteq> seg_slots (segments st ! i)) \<and>
                 {unat c..<unat c + unat count} \<inter> allocated st = {} \<and>
                 allocated st' = {unat c..<unat c + unat count} \<union> allocated st
     | None \<Rightarrow> st' = st \<and>
                 \<not> (\<exists>i b. i < seg_count st \<and> {b..<b + unat count} \<subseteq> seg_slots (segments st ! i) \<and>
                        {b..<b + unat count} \<inter> allocated st = {}))"
proof (cases r)
  case None
  from consecutive_fast_None [OF assms(1) assms(3) [unfolded None]] assms(1,2) None
  show ?thesis by auto
next
  case (Some c)
  from consecutive_fast_Some [OF assms(1) assms(3) [unfolded Some]] Some show ?thesis by simp
qed

theorem slot_alloc_consecutive_correct_witness:
  "{64..<67} \<subseteq> allocated (snd (slot_alloc_consecutive_fast 3 (slot_alloc_init 64 4 0 SLOT_ALLOC)))"
proof -
  have len: "length (segments SLOT_ALLOC) = 16" by (simp add: SLOT_ALLOC_def)
  have init: "slot_inv (slot_alloc_init 64 4 0 SLOT_ALLOC)"
    using slot_alloc_init_spec [OF len _ refl, of 64 4 0] by simp
  have "fst (slot_alloc_consecutive_fast 3 (slot_alloc_init 64 4 0 SLOT_ALLOC)) = Some 64" by code_simp
  with slot_alloc_consecutive_correct [OF init _ prod.collapse [symmetric], of 3] show ?thesis by simp
qed

text \<open>Fact: The blocking allocation, when it returns, has handed out a slot that was not
  allocated, possibly of a segment added meanwhile, or nothing; the pool never shrinks.\<close>

theorem slot_alloc_sound:
  assumes "slot_inv st" and "slot_alloc K st m = Some (r, st', m')"
  shows "slot_inv st' \<and> pool st \<subseteq> pool st' \<and>
    (case r of
       Some c \<Rightarrow> unat c \<in> pool st' \<and> unat c \<notin> allocated st \<and>
                 allocated st' = insert (unat c) (allocated st)
     | None \<Rightarrow> allocated st' = allocated st)"
proof (cases "initialized st")
  case False
  with assms show ?thesis by (auto simp: slot_alloc_def slot_alloc_is_initialized_def)
next
  case True
  obtain n where n: "slot_alloc K st m = retry_expand (Suc (Suc n)) K slot_alloc_fast st m"
    using slot_alloc_retry [OF True] by metis
  have "slot_inv st' \<and> pool st \<subseteq> pool st' \<and>
    (case r of Some c \<Rightarrow> {unat c} \<subseteq> pool st' \<and> {unat c} \<inter> allocated st = {} \<and>
                         allocated st' = {unat c} \<union> allocated st
     | None \<Rightarrow> allocated st' = allocated st)"
  proof (rule retry_expand_sound [OF assms(2) [unfolded n] assms(1)])
    fix s c s' assume inv: "slot_inv s"
    show "slot_inv s' \<and> pool s' = pool s \<and> {unat c} \<subseteq> pool s \<and> {unat c} \<inter> allocated s = {} \<and>
        allocated s' = {unat c} \<union> allocated s" if "slot_alloc_fast s = (Some c, s')"
      using alloc_single_locked_Some [OF inv] that slot_alloc_fast_eq [OF inv] by simp
    show "s' = s" if "slot_alloc_fast s = (None, s')"
      using alloc_single_locked_None [OF inv] that slot_alloc_fast_eq [OF inv] by simp
  qed
  then show ?thesis by (cases r) simp_all
qed

theorem slot_alloc_sound_witness:
  "slot_inv (snd (slot_alloc_fast (slot_alloc_init 64 4 0 SLOT_ALLOC)))"
proof -
  let ?K = "\<lambda>_ _ _ _ _ _ _ _ k. (\<lparr>r_error = 0, r_value = 0\<rparr>, zero_ipc_buffer, k) :: TronaResult \<times> IpcBuffer \<times> unit"
  let ?m = "\<lparr>ipc_buffer = None, send_cap_count = 0, kern = ()\<rparr>"
  let ?s = "slot_alloc_init 64 4 0 SLOT_ALLOC"
  have len: "length (segments SLOT_ALLOC) = 16" by (simp add: SLOT_ALLOC_def)
  have init: "slot_inv ?s" "initialized ?s"
    using slot_alloc_init_spec [OF len _ refl, of 64 4 0] by simp_all
  have "fst (slot_alloc_fast ?s) = Some 64" by code_simp
  then have "slot_alloc_fast ?s = (Some 64, snd (slot_alloc_fast ?s))" by (simp add: prod_eq_iff)
  note fast = this
  obtain n where n: "slot_alloc ?K ?s ?m = retry_expand (Suc (Suc n)) ?K slot_alloc_fast ?s ?m"
    by (rule slot_alloc_retry [OF init(2)])
  have "slot_alloc ?K ?s ?m = Some (Some 64, snd (slot_alloc_fast ?s), ?m)"
    unfolding n by (rule retry_expand_Some, rule fast)
  from slot_alloc_sound [OF init(1) this] show ?thesis by simp
qed

text \<open>C9: The blocking allocation returns, and with a slot, whenever an expansion is still
  possible and the process manager keeps answering: also when the pool is full.\<close>

theorem slot_alloc_live:
  assumes "slot_inv st" "initialized st" "cspace_ntfn st \<noteq> 0" "cspace_expand_count st < 8"
    "seg_count st < 16" "expand_state st \<noteq> ExpandFailed"
    and "procmgr_answers K (cspace_ntfn st) (probe_addr st) rank"
  shows "\<exists>c st' m'. slot_alloc K st m = Some (Some c, st', m')"
proof -
  obtain n where n: "slot_alloc K st m = retry_expand (Suc (Suc n)) K slot_alloc_fast st m"
    using slot_alloc_retry [OF assms(2)] by metis
  show ?thesis
  proof (cases "slot_alloc_fast st")
    case (Pair r st1)
    show ?thesis
    proof (cases r)
      case (Some c)
      with Pair n show ?thesis by simp
    next
      case None
      then have s1: "st1 = st" and full: "allocated st = pool st"
        using alloc_single_locked_None [OF assms(1)] Pair slot_alloc_fast_eq [OF assms(1)] by auto
      obtain st2 m2 where d: "drive_cspace_expand_blocking K st m = Some (True, st2, m2)"
        using drive_completes_any [OF assms] by blast
      from drive_sound [OF d] assms(1)
      have st2: "slot_inv st2" "allocated st2 = allocated st"
          "pool st2 = pool st \<union> {next_window st..<next_window st + 1024}"
        by (auto simp: drive_post_def)
      have "next_window st \<notin> pool st"
        using slot_inv_seg(3) [OF assms(1)] by (fastforce simp: pool_def seg_slots_def)
      then have "allocated st2 \<noteq> pool st2" using st2 full by auto
      then obtain c st3 where "slot_alloc_fast st2 = (Some c, st3)"
        using alloc_single_locked_None [OF st2(1)] slot_alloc_fast_eq [OF st2(1)]
        by (metis option.exhaust surj_pair)
      with Pair None s1 d n show ?thesis by simp
    qed
  qed
qed

theorem slot_alloc_live_witness:
  "\<exists>c st' m'. slot_alloc
     (\<lambda>num a0 a1 a2 a3 a4 a5 b k.
        (\<lparr>r_error = (if num = SYS_INVOKE \<and> a1 = CNODE_COPY \<and> k \<noteq> 0 then 1 else 0), r_value = 0\<rparr>,
         zero_ipc_buffer, if num = SYS_YIELD then k - 1 else k))
     (slot_alloc_init 64 0 5 SLOT_ALLOC)
     \<lparr>ipc_buffer = Some zero_ipc_buffer, send_cap_count = 0, kern = (3::nat)\<rparr>
     = Some (Some c, st', m')"
proof (rule slot_alloc_live [where rank = kern])
  let ?s = "slot_alloc_init 64 0 5 SLOT_ALLOC"
  have len: "length (segments SLOT_ALLOC) = 16" by (simp add: SLOT_ALLOC_def)
  show "slot_inv ?s" "initialized ?s"
    using slot_alloc_init_spec [OF len _ refl, of 64 0 5] by simp_all
  show "cspace_ntfn ?s \<noteq> 0" by code_simp
  show "cspace_expand_count ?s < 8" by code_simp
  show "seg_count ?s < 16" by code_simp
  show "expand_state ?s \<noteq> ExpandFailed" by code_simp
qed (auto simp: procmgr_answers_def cnode_copy_depth_def invoke_err_def invoke_def syscall_def
       write_invoke_depth_def err32_def split: if_splits)

end
