(* ===== verification/Invoke.thy ===== *)
theory Invoke
  imports Slot_Pool
begin

text \<open>
  The typed capability invocations of \<^verbatim>\<open>substrate/invoke.rs\<close>: one definition per
  wrapper, each the arrangement of its arguments in the registers of the
  universal invocation.  The CNode wrappers consult the slot allocator for the
  depth at which a slot must be resolved, so they take its state as an argument.
\<close>

section \<open>Results\<close>

text \<open>Wrappers that return the pair of error code and value.\<close>

definition invoke_pair ::
  "'k kernel \<Rightarrow> cap \<Rightarrow> u64 \<Rightarrow> u64 \<Rightarrow> u64 \<Rightarrow> u64 \<Rightarrow> u64 \<Rightarrow> 'k machine \<Rightarrow>
   (int \<times> u64) \<times> 'k machine" where
  "invoke_pair K cap lbl arg0 arg1 arg2 arg3 m =
     (case invoke K cap lbl arg0 arg1 arg2 arg3 m of
        (r, m') \<Rightarrow> ((err32 (r_error r), r_value r), m'))"

section \<open>Untyped memory\<close>

definition untyped_retype ::
  "'k kernel \<Rightarrow> cap \<Rightarrow> u64 \<Rightarrow> u64 \<Rightarrow> u64 \<Rightarrow> 'k machine \<Rightarrow> int \<times> 'k machine" where
  "untyped_retype K untyped new_type size_bits dest_slot m =
     invoke_err K untyped UNTYPED_RETYPE new_type size_bits dest_slot 0 m"

definition untyped_reset ::
  "'k kernel \<Rightarrow> cap \<Rightarrow> 'k machine \<Rightarrow> int \<times> 'k machine" where
  "untyped_reset K untyped m = invoke_err K untyped UNTYPED_RESET 0 0 0 0 m"

definition untyped_retype_depth ::
  "'k kernel \<Rightarrow> cap \<Rightarrow> u64 \<Rightarrow> u64 \<Rightarrow> u64 \<Rightarrow> u8 \<Rightarrow> 'k machine \<Rightarrow> int \<times> 'k machine" where
  "untyped_retype_depth K untyped new_type size_bits dest_slot dest_depth m =
     invoke_err K untyped UNTYPED_RETYPE new_type size_bits dest_slot 0
       (write_invoke_depth K dest_depth 0 m)"

section \<open>Threads and scheduling contexts\<close>

definition tcb_configure ::
  "'k kernel \<Rightarrow> cap \<Rightarrow> u64 \<Rightarrow> u64 \<Rightarrow> u64 \<Rightarrow> 'k machine \<Rightarrow> int \<times> 'k machine" where
  "tcb_configure K tcb rip rsp ipc_buf m = invoke_err K tcb TCB_CONFIGURE rip rsp ipc_buf 0 m"

definition tcb_resume ::
  "'k kernel \<Rightarrow> cap \<Rightarrow> 'k machine \<Rightarrow> int \<times> 'k machine" where
  "tcb_resume K tcb m = invoke_err K tcb TCB_RESUME 0 0 0 0 m"

definition tcb_set_space ::
  "'k kernel \<Rightarrow> cap \<Rightarrow> cap \<Rightarrow> cap \<Rightarrow> 'k machine \<Rightarrow> int \<times> 'k machine" where
  "tcb_set_space K tcb cspace vspace m = invoke_err K tcb TCB_SET_SPACE cspace vspace 0 0 m"

definition tcb_set_space_with_depth ::
  "'k kernel \<Rightarrow> cap \<Rightarrow> cap \<Rightarrow> cap \<Rightarrow> u64 \<Rightarrow> 'k machine \<Rightarrow> int \<times> 'k machine" where
  "tcb_set_space_with_depth K tcb cspace vspace depth m =
     invoke_err K tcb TCB_SET_SPACE cspace vspace depth 0 m"

definition tcb_set_fault_handler ::
  "'k kernel \<Rightarrow> cap \<Rightarrow> cap \<Rightarrow> 'k machine \<Rightarrow> int \<times> 'k machine" where
  "tcb_set_fault_handler K tcb fault_ep m =
     invoke_err K tcb TCB_SET_FAULT_HANDLER fault_ep 0 0 0 m"

definition tcb_set_ipc_buffer ::
  "'k kernel \<Rightarrow> cap \<Rightarrow> u64 \<Rightarrow> 'k machine \<Rightarrow> int \<times> 'k machine" where
  "tcb_set_ipc_buffer K tcb addr m = invoke_err K tcb TCB_SET_IPC_BUFFER addr 0 0 0 m"

definition tcb_write_registers ::
  "'k kernel \<Rightarrow> cap \<Rightarrow> u64 \<Rightarrow> u64 \<Rightarrow> u64 \<Rightarrow> 'k machine \<Rightarrow> int \<times> 'k machine" where
  "tcb_write_registers K tcb flags rip rsp m =
     invoke_err K tcb TCB_WRITE_REGISTERS flags rip rsp 0 m"

definition tcb_suspend ::
  "'k kernel \<Rightarrow> cap \<Rightarrow> 'k machine \<Rightarrow> int \<times> 'k machine" where
  "tcb_suspend K tcb m = invoke_err K tcb TCB_SUSPEND 0 0 0 0 m"

definition tcb_bind_notification ::
  "'k kernel \<Rightarrow> cap \<Rightarrow> cap \<Rightarrow> 'k machine \<Rightarrow> int \<times> 'k machine" where
  "tcb_bind_notification K tcb ntfn m = invoke_err K tcb TCB_BIND_NOTIFICATION ntfn 0 0 0 m"

definition tcb_copy_fpu ::
  "'k kernel \<Rightarrow> cap \<Rightarrow> cap \<Rightarrow> 'k machine \<Rightarrow> int \<times> 'k machine" where
  "tcb_copy_fpu K dest_tcb src_tcb m = invoke_err K dest_tcb TCB_COPY_FPU src_tcb 0 0 0 m"

definition tcb_set_tls_base ::
  "'k kernel \<Rightarrow> cap \<Rightarrow> u64 \<Rightarrow> 'k machine \<Rightarrow> int \<times> 'k machine" where
  "tcb_set_tls_base K tcb tls_base m = invoke_err K tcb TCB_SET_TLS_BASE tls_base 0 0 0 m"

definition tcb_set_notification_dispatcher ::
  "'k kernel \<Rightarrow> cap \<Rightarrow> u64 \<Rightarrow> 'k machine \<Rightarrow> int \<times> 'k machine" where
  "tcb_set_notification_dispatcher K tcb dispatcher m =
     invoke_err K tcb TCB_SET_NOTIFICATION_DISPATCHER dispatcher 0 0 0 m"

definition tcb_get_space_info :: "'k kernel \<Rightarrow> cap \<Rightarrow> 'k machine \<Rightarrow> u8 option \<times> 'k machine" where
  "tcb_get_space_info K tcb m =
     (case invoke K tcb TCB_GET_SPACE_INFO 0 0 0 0 m of
        (r, m') \<Rightarrow>
          (if r_error r \<noteq> 0 then (None, m')
           else case ipc_buffer m' of
                  None \<Rightarrow> (None, m')
                | Some b \<Rightarrow> (Some (ucast (ib_msg b ! 0)), m')))"

definition sc_configure ::
  "'k kernel \<Rightarrow> cap \<Rightarrow> u64 \<Rightarrow> u64 \<Rightarrow> 'k machine \<Rightarrow> int \<times> 'k machine" where
  "sc_configure K sc budget_us period_us m =
     invoke_err K sc SC_CONFIGURE budget_us period_us 0 0 m"

definition sc_bind ::
  "'k kernel \<Rightarrow> cap \<Rightarrow> cap \<Rightarrow> 'k machine \<Rightarrow> int \<times> 'k machine" where
  "sc_bind K sc tcb m = invoke_err K sc SC_BIND tcb 0 0 0 m"

section \<open>Address spaces\<close>

definition vspace_map ::
  "'k kernel \<Rightarrow> cap \<Rightarrow> cap \<Rightarrow> u64 \<Rightarrow> u64 \<Rightarrow> 'k machine \<Rightarrow> int \<times> 'k machine" where
  "vspace_map K vspace frame vaddr flags m = invoke_err K vspace VSPACE_MAP frame vaddr flags 0 m"

definition vspace_unmap ::
  "'k kernel \<Rightarrow> cap \<Rightarrow> u64 \<Rightarrow> 'k machine \<Rightarrow> int \<times> 'k machine" where
  "vspace_unmap K vspace vaddr m = invoke_err K vspace VSPACE_UNMAP vaddr 0 0 0 m"

definition vspace_protect ::
  "'k kernel \<Rightarrow> cap \<Rightarrow> u64 \<Rightarrow> u64 \<Rightarrow> 'k machine \<Rightarrow> int \<times> 'k machine" where
  "vspace_protect K vspace vaddr flags m = invoke_err K vspace VSPACE_PROTECT vaddr flags 0 0 m"

definition vspace_protect_range ::
  "'k kernel \<Rightarrow> cap \<Rightarrow> u64 \<Rightarrow> u64 \<Rightarrow> u64 \<Rightarrow> 'k machine \<Rightarrow> (int \<times> u64) \<times> 'k machine" where
  "vspace_protect_range K vspace vaddr count flags m =
     invoke_pair K vspace VSPACE_PROTECT_RANGE vaddr count flags 0 m"

definition vspace_map_pt ::
  "'k kernel \<Rightarrow> cap \<Rightarrow> cap \<Rightarrow> u64 \<Rightarrow> u64 \<Rightarrow> 'k machine \<Rightarrow> int \<times> 'k machine" where
  "vspace_map_pt K vspace frame vaddr level m =
     invoke_err K vspace VSPACE_MAP_PT frame vaddr level 0 m"

definition vspace_walk ::
  "'k kernel \<Rightarrow> cap \<Rightarrow> u64 \<Rightarrow> u64 \<Rightarrow> 'k machine \<Rightarrow> int \<times> 'k machine" where
  "vspace_walk K vspace start_vaddr max_entries m =
     invoke_err K vspace VSPACE_WALK start_vaddr max_entries 0 0 m"

definition vspace_copy_page ::
  "'k kernel \<Rightarrow> cap \<Rightarrow> u64 \<Rightarrow> cap \<Rightarrow> 'k machine \<Rightarrow> int \<times> 'k machine" where
  "vspace_copy_page K src_vspace src_vaddr dst_frame m =
     invoke_err K src_vspace VSPACE_COPY_PAGE src_vaddr dst_frame 0 0 m"

definition vspace_map_device ::
  "'k kernel \<Rightarrow> cap \<Rightarrow> cap \<Rightarrow> u64 \<Rightarrow> u64 \<Rightarrow> u64 \<Rightarrow> 'k machine \<Rightarrow> int \<times> 'k machine" where
  "vspace_map_device K vspace device_untyped page_offset vaddr flags m =
     invoke_err K vspace VSPACE_MAP_DEVICE device_untyped page_offset vaddr flags m"

definition vspace_clone_cow_page ::
  "'k kernel \<Rightarrow> cap \<Rightarrow> u64 \<Rightarrow> cap \<Rightarrow> u64 \<Rightarrow> 'k machine \<Rightarrow> int \<times> 'k machine" where
  "vspace_clone_cow_page K src_vspace src_vaddr dst_vspace dst_vaddr m =
     invoke_err K src_vspace VSPACE_CLONE_COW_PAGE src_vaddr dst_vspace dst_vaddr 0 m"

definition vspace_share_ro_page ::
  "'k kernel \<Rightarrow> cap \<Rightarrow> u64 \<Rightarrow> cap \<Rightarrow> u64 \<Rightarrow> 'k machine \<Rightarrow> int \<times> 'k machine" where
  "vspace_share_ro_page K src_vspace src_vaddr dst_vspace dst_vaddr m =
     invoke_err K src_vspace VSPACE_SHARE_RO_PAGE src_vaddr dst_vspace dst_vaddr 0 m"

definition vspace_map_demand ::
  "'k kernel \<Rightarrow> cap \<Rightarrow> u64 \<Rightarrow> u64 \<Rightarrow> 'k machine \<Rightarrow> int \<times> 'k machine" where
  "vspace_map_demand K vspace vaddr flags m =
     invoke_err K vspace VSPACE_MAP_DEMAND vaddr flags 0 0 m"

definition vspace_cow_resolve ::
  "'k kernel \<Rightarrow> cap \<Rightarrow> u64 \<Rightarrow> cap \<Rightarrow> u64 \<Rightarrow> 'k machine \<Rightarrow> int \<times> 'k machine" where
  "vspace_cow_resolve K vspace vaddr new_frame flags m =
     invoke_err K vspace VSPACE_COW_RESOLVE vaddr new_frame flags 0 m"

definition vspace_set_cow_pool ::
  "'k kernel \<Rightarrow> cap \<Rightarrow> cap \<Rightarrow> cap \<Rightarrow> u64 \<Rightarrow> 'k machine \<Rightarrow> int \<times> 'k machine" where
  "vspace_set_cow_pool K vspace pool_frame src_cnode count m =
     invoke_err K vspace VSPACE_SET_COW_POOL pool_frame src_cnode count 0 m"

definition vspace_set_cow_notif ::
  "'k kernel \<Rightarrow> cap \<Rightarrow> cap \<Rightarrow> cap \<Rightarrow> 'k machine \<Rightarrow> int \<times> 'k machine" where
  "vspace_set_cow_notif K vspace ring_frame notif m =
     invoke_err K vspace VSPACE_SET_COW_NOTIF ring_frame notif 0 0 m"

definition vspace_replenish_cow_pool ::
  "'k kernel \<Rightarrow> cap \<Rightarrow> cap \<Rightarrow> u64 \<Rightarrow> u64 \<Rightarrow> 'k machine \<Rightarrow> int \<times> 'k machine" where
  "vspace_replenish_cow_pool K vspace src_cnode start_slot count m =
     invoke_err K vspace VSPACE_REPLENISH_COW_POOL src_cnode start_slot count 0 m"

definition vspace_map_demand_range ::
  "'k kernel \<Rightarrow> cap \<Rightarrow> u64 \<Rightarrow> u64 \<Rightarrow> u64 \<Rightarrow> 'k machine \<Rightarrow> (int \<times> u64) \<times> 'k machine" where
  "vspace_map_demand_range K vspace vaddr_start count flags m =
     invoke_pair K vspace VSPACE_MAP_DEMAND_RANGE vaddr_start count flags 0 m"

text \<open>
  The result of a walk is read from the IPC buffer page seen as an array of
  words: the header from words 0 and 1, tuple \<open>index\<close> from word \<open>42 + 3 * index\<close>.
  The address computation is checked up to the last comparison, where \<open>offset + 2\<close>
  wraps.  The reads go through a raw pointer: the outer \<^const>\<open>None\<close> is an access
  outside the page of 508 words, the inner one the value \<open>None\<close> of the function.
\<close>

abbreviation (input) VSPACE_WALK_ENTRY_BASE_WORD :: u64 where "VSPACE_WALK_ENTRY_BASE_WORD \<equiv> 42"
abbreviation (input) VSPACE_WALK_ENTRY_WORDS :: u64 where "VSPACE_WALK_ENTRY_WORDS \<equiv> 3"

definition walk_ipc_words :: "'k machine \<Rightarrow> u64 list option" where
  "walk_ipc_words m = map_option ipc_words (ipc_buffer m)"

definition read_word :: "u64 list \<Rightarrow> u64 \<Rightarrow> u64 option" where
  "read_word ws i = (if unat i < length ws then Some (ws ! unat i) else None)"

definition vspace_walk_result_header :: "'k machine \<Rightarrow> (u64 \<times> u64) option option" where
  "vspace_walk_result_header m =
     (case walk_ipc_words m of
        None \<Rightarrow> Some None
      | Some ws \<Rightarrow>
          do { count \<leftarrow> read_word ws 0; next_vaddr \<leftarrow> read_word ws 1;
               Some (Some (count, next_vaddr)) })"

definition vspace_walk_result_entry ::
  "'k machine \<Rightarrow> u64 \<Rightarrow> (u64 \<times> u64 \<times> u64) option option" where
  "vspace_walk_result_entry m index =
     (case walk_ipc_words m of
        None \<Rightarrow> Some None
      | Some ws \<Rightarrow>
          (case checked_mul index VSPACE_WALK_ENTRY_WORDS of
             None \<Rightarrow> Some None
           | Some k \<Rightarrow>
               (case checked_add VSPACE_WALK_ENTRY_BASE_WORD k of
                  None \<Rightarrow> Some None
                | Some offset \<Rightarrow>
                    if 508 \<le> offset + 2 then Some None
                    else do { vaddr \<leftarrow> read_word ws offset;
                              phys \<leftarrow> read_word ws (offset + 1);
                              flags \<leftarrow> read_word ws (offset + 2);
                              Some (Some (vaddr, phys, flags)) })))"

text \<open>Page count and flags (or object offset) share a register.\<close>

definition pack_count :: "u64 \<Rightarrow> u64 \<Rightarrow> u64" where
  "pack_count count low = push_bit 32 count OR (low AND 0xFFFFFFFF)"

definition vspace_map_device_range ::
  "'k kernel \<Rightarrow> cap \<Rightarrow> cap \<Rightarrow> u64 \<Rightarrow> u64 \<Rightarrow> u64 \<Rightarrow> u64 \<Rightarrow> 'k machine \<Rightarrow> (int \<times> u64) \<times> 'k machine"
where
  "vspace_map_device_range K vspace device_untyped offset_start vaddr_start num_pages flags m =
     invoke_pair K vspace VSPACE_MAP_DEVICE_RANGE device_untyped offset_start vaddr_start
       (pack_count num_pages flags) m"

definition vspace_fork_range ::
  "'k kernel \<Rightarrow> cap \<Rightarrow> cap \<Rightarrow> cap \<Rightarrow> u64 \<Rightarrow> u64 \<Rightarrow> u64 \<Rightarrow> 'k machine \<Rightarrow> (int \<times> u64) \<times> 'k machine"
where
  "vspace_fork_range K parent_vspace child_vspace child_mo va_start page_count mo_offset m =
     invoke_pair K parent_vspace VSPACE_FORK_RANGE child_vspace child_mo va_start
       (pack_count page_count mo_offset) m"

section \<open>CNodes\<close>

definition cspace_slot_depth :: "SlotAllocState \<Rightarrow> u64 \<Rightarrow> u8" where
  "cspace_slot_depth st slot = slot_invoke_depth st slot"

definition cnode_revoke_depth ::
  "'k kernel \<Rightarrow> cap \<Rightarrow> u64 \<Rightarrow> u8 \<Rightarrow> 'k machine \<Rightarrow> int \<times> 'k machine" where
  "cnode_revoke_depth K cnode slot depth m =
     invoke_err K cnode CNODE_REVOKE slot 0 0 0 (write_invoke_depth K depth 0 m)"




definition cnode_mutate ::
  "'k kernel \<Rightarrow> SlotAllocState \<Rightarrow> cap \<Rightarrow> u64 \<Rightarrow> cap \<Rightarrow> u64 \<Rightarrow> u64 \<Rightarrow> 'k machine \<Rightarrow>
   int \<times> 'k machine" where
  "cnode_mutate K st dest_cnode dest_slot src_cnode src_slot badge m =
     (let dest_depth = cspace_slot_depth st dest_slot;
          src_depth = cspace_slot_depth st src_slot
      in if dest_depth = 0 \<and> src_depth = 0
         then invoke_err K dest_cnode CNODE_MUTATE dest_slot src_cnode src_slot badge m
         else invoke_err K dest_cnode CNODE_MUTATE dest_slot src_cnode src_slot badge
                (write_invoke_depth K dest_depth src_depth m))"

definition cnode_save_caller ::
  "'k kernel \<Rightarrow> SlotAllocState \<Rightarrow> cap \<Rightarrow> u64 \<Rightarrow> 'k machine \<Rightarrow> int \<times> 'k machine" where
  "cnode_save_caller K st cnode slot m =
     (let depth = cspace_slot_depth st slot
      in if depth = 0 then invoke_err K cnode CNODE_SAVE_CALLER slot 0 0 0 m
         else invoke_err K cnode CNODE_SAVE_CALLER slot 0 0 0 (write_invoke_depth K depth 0 m))"


definition cnode_revoke ::
  "'k kernel \<Rightarrow> SlotAllocState \<Rightarrow> cap \<Rightarrow> u64 \<Rightarrow> 'k machine \<Rightarrow> int \<times> 'k machine" where
  "cnode_revoke K st cnode slot m =
     (let depth = cspace_slot_depth st slot
      in if depth = 0 then invoke_err K cnode CNODE_REVOKE slot 0 0 0 m
         else cnode_revoke_depth K cnode slot depth m)"

definition cnode_set_guard ::
  "'k kernel \<Rightarrow> cap \<Rightarrow> u64 \<Rightarrow> u64 \<Rightarrow> 'k machine \<Rightarrow> int \<times> 'k machine" where
  "cnode_set_guard K cnode guard guard_bits m =
     invoke_err K cnode CNODE_SET_GUARD guard guard_bits 0 0 m"

definition cnode_get_info :: "'k kernel \<Rightarrow> cap \<Rightarrow> 'k machine \<Rightarrow> TronaResult \<times> 'k machine" where
  "cnode_get_info K cnode m = invoke K cnode CNODE_GET_INFO 0 0 0 0 m"

section \<open>Interrupts and I/O ports\<close>

definition irq_handler_ack ::
  "'k kernel \<Rightarrow> cap \<Rightarrow> 'k machine \<Rightarrow> int \<times> 'k machine" where
  "irq_handler_ack K irq_handler m = invoke_err K irq_handler IRQ_HANDLER_ACK 0 0 0 0 m"

definition irq_handler_set_notification ::
  "'k kernel \<Rightarrow> cap \<Rightarrow> cap \<Rightarrow> 'k machine \<Rightarrow> int \<times> 'k machine" where
  "irq_handler_set_notification K irq_handler ntfn m =
     invoke_err K irq_handler IRQ_HANDLER_SET_NOTIFICATION ntfn 0 0 0 m"

definition ioport_configure ::
  "'k kernel \<Rightarrow> cap \<Rightarrow> u64 \<Rightarrow> u64 \<Rightarrow> 'k machine \<Rightarrow> int \<times> 'k machine" where
  "ioport_configure K ioport base_port num_ports m =
     invoke_err K ioport IOPORT_CONFIGURE base_port num_ports 0 0 m"

definition ioport_create ::
  "'k kernel \<Rightarrow> cap \<Rightarrow> u64 \<Rightarrow> u64 \<Rightarrow> cap \<Rightarrow> u64 \<Rightarrow> 'k machine \<Rightarrow> int \<times> 'k machine" where
  "ioport_create K irq_ctrl base_port num_ports dest_cnode dest_slot m =
     invoke_err K irq_ctrl IOPORT_CREATE base_port num_ports dest_cnode dest_slot m"

definition irq_control_get ::
  "'k kernel \<Rightarrow> cap \<Rightarrow> u64 \<Rightarrow> cap \<Rightarrow> u64 \<Rightarrow> 'k machine \<Rightarrow> int \<times> 'k machine" where
  "irq_control_get K irq_ctrl irq_num dest_cnode dest_slot m =
     invoke_err K irq_ctrl IRQ_CONTROL_GET irq_num dest_cnode dest_slot 0 m"

definition irq_handler_clear ::
  "'k kernel \<Rightarrow> cap \<Rightarrow> 'k machine \<Rightarrow> int \<times> 'k machine" where
  "irq_handler_clear K irq_handler m = invoke_err K irq_handler IRQ_HANDLER_CLEAR 0 0 0 0 m"

definition device_untyped_create ::
  "'k kernel \<Rightarrow> cap \<Rightarrow> u64 \<Rightarrow> u64 \<Rightarrow> cap \<Rightarrow> u64 \<Rightarrow> 'k machine \<Rightarrow> int \<times> 'k machine" where
  "device_untyped_create K irq_ctrl phys_addr size_bits dest_cnode dest_slot m =
     invoke_err K irq_ctrl DEVICE_UNTYPED_CREATE phys_addr size_bits dest_cnode dest_slot m"

definition ioport_in8 :: "'k kernel \<Rightarrow> cap \<Rightarrow> u64 \<Rightarrow> 'k machine \<Rightarrow> u8 \<times> 'k machine" where
  "ioport_in8 K ioport offset m =
     (case invoke K ioport IOPORT_IN8 offset 0 0 0 m of (r, m') \<Rightarrow> (ucast (r_value r), m'))"

definition ioport_out8 :: "'k kernel \<Rightarrow> cap \<Rightarrow> u64 \<Rightarrow> u8 \<Rightarrow> 'k machine \<Rightarrow> 'k machine" where
  "ioport_out8 K ioport offset val m =
     snd (invoke K ioport IOPORT_OUT8 offset (ucast val) 0 0 m)"

definition ioport_in16 :: "'k kernel \<Rightarrow> cap \<Rightarrow> u64 \<Rightarrow> 'k machine \<Rightarrow> u16 \<times> 'k machine" where
  "ioport_in16 K ioport offset m =
     (case invoke K ioport IOPORT_IN16 offset 0 0 0 m of (r, m') \<Rightarrow> (ucast (r_value r), m'))"

definition ioport_out16 :: "'k kernel \<Rightarrow> cap \<Rightarrow> u64 \<Rightarrow> u16 \<Rightarrow> 'k machine \<Rightarrow> 'k machine" where
  "ioport_out16 K ioport offset val m =
     snd (invoke K ioport IOPORT_OUT16 offset (ucast val) 0 0 m)"

definition ioport_in32 :: "'k kernel \<Rightarrow> cap \<Rightarrow> u64 \<Rightarrow> 'k machine \<Rightarrow> u32 \<times> 'k machine" where
  "ioport_in32 K ioport offset m =
     (case invoke K ioport IOPORT_IN32 offset 0 0 0 m of (r, m') \<Rightarrow> (ucast (r_value r), m'))"

definition ioport_out32 :: "'k kernel \<Rightarrow> cap \<Rightarrow> u64 \<Rightarrow> u32 \<Rightarrow> 'k machine \<Rightarrow> 'k machine" where
  "ioport_out32 K ioport offset val m =
     snd (invoke K ioport IOPORT_OUT32 offset (ucast val) 0 0 m)"

section \<open>Memory objects\<close>

definition mo_commit ::
  "'k kernel \<Rightarrow> cap \<Rightarrow> u64 \<Rightarrow> u64 \<Rightarrow> u64 \<Rightarrow> 'k machine \<Rightarrow> (int \<times> u64) \<times> 'k machine" where
  "mo_commit K mo offset count ut_cap m = invoke_pair K mo MO_COMMIT offset count ut_cap 0 m"

definition mo_decommit ::
  "'k kernel \<Rightarrow> cap \<Rightarrow> u64 \<Rightarrow> u64 \<Rightarrow> 'k machine \<Rightarrow> int \<times> 'k machine" where
  "mo_decommit K mo offset count m = invoke_err K mo MO_DECOMMIT offset count 0 0 m"

definition mo_get_size ::
  "'k kernel \<Rightarrow> cap \<Rightarrow> 'k machine \<Rightarrow> (int \<times> u64) \<times> 'k machine" where
  "mo_get_size K mo m = invoke_pair K mo MO_GET_SIZE 0 0 0 0 m"

definition mo_clone ::
  "'k kernel \<Rightarrow> cap \<Rightarrow> cap \<Rightarrow> u64 \<Rightarrow> 'k machine \<Rightarrow> int \<times> 'k machine" where
  "mo_clone K mo child_mo flags m = invoke_err K mo MO_CLONE child_mo flags 0 0 m"

definition mo_resize ::
  "'k kernel \<Rightarrow> cap \<Rightarrow> u64 \<Rightarrow> 'k machine \<Rightarrow> int \<times> 'k machine" where
  "mo_resize K mo new_page_count m = invoke_err K mo MO_RESIZE new_page_count 0 0 0 m"

definition mo_read ::
  "'k kernel \<Rightarrow> cap \<Rightarrow> u64 \<Rightarrow> u64 \<Rightarrow> 'k machine \<Rightarrow> (int \<times> u64) \<times> 'k machine" where
  "mo_read K mo offset count m = invoke_pair K mo MO_READ offset count 0 0 m"

definition mo_write ::
  "'k kernel \<Rightarrow> cap \<Rightarrow> u64 \<Rightarrow> u64 \<Rightarrow> 'k machine \<Rightarrow> (int \<times> u64) \<times> 'k machine" where
  "mo_write K mo offset count m = invoke_pair K mo MO_WRITE offset count 0 0 m"

definition mo_has_page ::
  "'k kernel \<Rightarrow> cap \<Rightarrow> u64 \<Rightarrow> 'k machine \<Rightarrow> (int \<times> bool) \<times> 'k machine" where
  "mo_has_page K mo page_index m =
     (case invoke K mo MO_HAS_PAGE page_index 0 0 0 m of
        (r, m') \<Rightarrow> ((err32 (r_error r), r_value r \<noteq> 0), m'))"

definition vspace_map_mo_with_count ::
  "'k kernel \<Rightarrow> cap \<Rightarrow> u64 \<Rightarrow> u64 \<Rightarrow> u64 \<Rightarrow> u64 \<Rightarrow> 'k machine \<Rightarrow> (int \<times> u64) \<times> 'k machine" where
  "vspace_map_mo_with_count K vspace mo_cap vaddr mo_offset count_and_flags m =
     invoke_pair K vspace VSPACE_MAP_MO mo_cap vaddr mo_offset count_and_flags m"

definition vspace_map_mo ::
  "'k kernel \<Rightarrow> cap \<Rightarrow> u64 \<Rightarrow> u64 \<Rightarrow> u64 \<Rightarrow> u64 \<Rightarrow> 'k machine \<Rightarrow> int \<times> 'k machine" where
  "vspace_map_mo K vspace mo_cap vaddr mo_offset count_and_flags m =
     (case vspace_map_mo_with_count K vspace mo_cap vaddr mo_offset count_and_flags m of
        ((e, _), m') \<Rightarrow> (e, m'))"

section \<open>Specification\<close>


text \<open>A kernel whose state is the map of the objects and the depths, and that never fails.\<close>

type_synonym cspace = "(cap \<times> u64 \<times> u8 \<Rightarrow> u64 option) \<times> u8 \<times> u8"


section \<open>Facts\<close>






section \<open>Properties\<close>



text \<open>C35: Reading a tuple of a walk stays inside the IPC buffer page for every index but one:
  tuple \<open>i\<close> exists exactly for \<open>i < 155\<close> and consists of the words \<open>42 + 3 * i\<close> to
  \<open>44 + 3 * i\<close>, and every other index, however large, is refused.\<close>

theorem walk_entry_in_page:
  assumes "ipc_buffer m = Some b" and "IpcBuffer_wf b" and "i \<noteq> 6148914691236517191"
  shows "vspace_walk_result_entry m i =
    Some (if unat i < 155
     then Some (ipc_words b ! (42 + 3 * unat i), ipc_words b ! (43 + 3 * unat i),
                ipc_words b ! (44 + 3 * unat i))
     else None)"
proof -
  have len: "length (ipc_words b) = 508" by (rule IpcBuffer_words [OF assms(2)])
  have ne: "unat i \<noteq> 6148914691236517191" using assms(3) by (auto simp: word_unat_eq_iff)
  consider (mul) "checked_mul i 3 = None"
    | (add) k where "checked_mul i 3 = Some k" "checked_add 42 k = None"
    | (ok) k offset where "checked_mul i 3 = Some k" "checked_add 42 k = Some offset"
    by (metis option.exhaust)
  then show ?thesis
  proof cases
    case mul
    then have "155 \<le> unat i" by (simp add: checked_mul_None)
    with mul assms show ?thesis by (simp add: vspace_walk_result_entry_def walk_ipc_words_def)
  next
    case add
    then have "155 \<le> unat i" using checked_mul_Some [OF add(1)] by (simp add: checked_add_None)
    with add assms show ?thesis by (simp add: vspace_walk_result_entry_def walk_ipc_words_def)
  next
    case ok
    have uo: "unat offset = 42 + 3 * unat i"
      using checked_mul_Some [OF ok(1)] ok(2) by (simp add: checked_add_Some)
    have u2: "unat (offset + 2) = unat offset + 2"
    proof -
      have "42 + 3 * unat i + 2 < 18446744073709551616"
        using uo ne unat_lt64 [of offset] by presburger
      then show ?thesis by (subst unat_add_le) (simp_all add: uo)
    qed
    then have u1: "unat (offset + 1) = unat offset + 1"
      using unat_lt64 [of "offset + 2"] by (subst unat_add_le) simp_all
    show ?thesis
      using ok assms(1) len
      by (simp add: vspace_walk_result_entry_def walk_ipc_words_def read_word_def word_le_nat_alt
          u1 u2 uo)
  qed
qed

theorem walk_entry_in_page_witness:
  "vspace_walk_result_entry \<lparr>ipc_buffer = Some zero_ipc_buffer, send_cap_count = 0, kern = ()\<rparr> 2 =
     Some (Some (0, 0, 0))"
proof -
  from walk_entry_in_page [OF _ zero_ipc_buffer_wf, of "\<lparr>ipc_buffer = Some zero_ipc_buffer, send_cap_count = 0, kern = ()\<rparr>" 2]
  show ?thesis by (simp add: ipc_words_def zero_ipc_buffer_def nth_append)
qed

text \<open>Fact: The one index that slips through the bounds check because \<open>offset + 2\<close> wraps: the
  read is outside the page.\<close>

theorem walk_entry_wraps_out_of_page:
  assumes "ipc_buffer m = Some b" and "IpcBuffer_wf b"
  shows "vspace_walk_result_entry m 6148914691236517191 = None"
  using assms IpcBuffer_words [OF assms(2)]
  by (simp add: vspace_walk_result_entry_def walk_ipc_words_def checked_mul_def checked_add_def
      read_word_def)

theorem walk_entry_wraps_out_of_page_witness:
  "vspace_walk_result_entry \<lparr>ipc_buffer = Some zero_ipc_buffer, send_cap_count = 0, kern = ()\<rparr>
     6148914691236517191 = None"
  by (rule walk_entry_wraps_out_of_page [where b = zero_ipc_buffer]) simp_all

text \<open>Fact: The first word of the first tuple is the word in which the timed operations store
  their timeout: whatever a walk left there is lost when a timed receive is prepared.\<close>

theorem walk_entry_zero_is_timeout:
  assumes "ipc_buffer m = Some b" and "IpcBuffer_wf b"
    and "\<And>num a0 a1 a2 a3 a4 a5 buf k. fst (snd (K num a0 a1 a2 a3 a4 a5 (Some buf) k)) = buf"
  shows "\<exists>phys flags. vspace_walk_result_entry (snd (sys_recv_timed K ep t m)) 0 =
    Some (Some (t, phys, flags))"
proof -
  let ?m = "snd (sys_recv_timed K ep t m)"
  have b: "ipc_buffer ?m = Some (b\<lparr>ib_timeout_ns := t\<rparr>)"
    using assms(1) assms(3) [of SYS_RECV_TIMED ep 0 0 0 0 0 "b\<lparr>ib_timeout_ns := t\<rparr>" "kern m"]
    by (auto simp: sys_recv_timed_def syscall_def split: prod.splits)
  have wf: "length (ib_msg b) = 34" "length (ib_caps b) = 4" "length (ib_reserved b) = 465"
    using assms(2) by (simp_all add: IpcBuffer_wf_def)
  have "ipc_words (b\<lparr>ib_timeout_ns := t\<rparr>) ! 42 = t"
    using wf by (simp add: ipc_words_def nth_append)
  with b wf show ?thesis
    by (simp add: vspace_walk_result_entry_def walk_ipc_words_def checked_mul_def checked_add_def
        read_word_def ipc_words_def)
qed

theorem walk_entry_zero_is_timeout_witness:
  "\<exists>phys flags. vspace_walk_result_entry
     (snd (sys_recv_timed (\<lambda>_ _ _ _ _ _ _ buf k. (\<lparr>r_error = 0, r_value = 0\<rparr>, the buf, k)) 9 77
       \<lparr>ipc_buffer = Some zero_ipc_buffer, send_cap_count = 0, kern = ()\<rparr>)) 0 =
     Some (Some (77, phys, flags))"
  by (rule walk_entry_zero_is_timeout [where b = zero_ipc_buffer]) simp_all

text \<open>Fact: The page count and the flags packed in one register can be recovered, for counts
  below \<open>2 ^ 32\<close>; the flags above 32 bits are dropped.\<close>

theorem pack_count_round_trip:
  assumes c: "unat count < 2 ^ 32"
  shows "drop_bit 32 (pack_count count low) = count \<and>
     pack_count count low AND 0xFFFFFFFF = low AND 0xFFFFFFFF"
proof -
  have hi: "n < 32" if "bit count n" for n using bit_unat_less [OF c that] .
  show ?thesis
    by (auto intro!: bit_word_eqI simp: pack_count_def mask_32_u64 bit_simps dest: hi)
qed

theorem pack_count_round_trip_witness:
  "drop_bit 32 (pack_count 513 0x100000007) = 513"
  using pack_count_round_trip [of 513 "0x100000007"] by simp

end
