(* ===== verification/Pending.thy ===== *)
theory Pending
  imports Trona_Prelude
begin

text \<open>
  The table of deferred requests of an asynchronous server,
  \<^verbatim>\<open>substrate/pending.rs\<close>.  The const parameter \<open>N\<close> of the table is the length of
  its entry array.  A mutable reference returned by a search is the index of
  the entry, to be used with \<open>entry_update\<close>.
\<close>

section \<open>Data\<close>

datatype WaitReason = WrFree | DownstreamCall | AsyncCallback | Timer

record PendingRequest =
  pr_active :: u8
  pr_wait_reason :: WaitReason
  pr_request_id :: u32
  pr_reply_slot :: u64
  pr_recv_slot :: u64
  pr_client_badge :: u64
  pr_orig_label :: u64
  pr_context :: "u64 list"
  pr_deadline_ns :: u64

definition PendingRequest_zeroed :: PendingRequest where
  "PendingRequest_zeroed =
     \<lparr>pr_active = 0, pr_wait_reason = WrFree, pr_request_id = 0, pr_reply_slot = 0,
      pr_recv_slot = 0, pr_client_badge = 0, pr_orig_label = 0,
      pr_context = replicate 4 0, pr_deadline_ns = 0\<rparr>"

record PendingTable =
  pt_entries :: "PendingRequest list"
  pt_next_id :: u32

definition PendingTable_new :: "nat \<Rightarrow> PendingTable" where
  "PendingTable_new N = \<lparr>pt_entries = replicate N PendingRequest_zeroed, pt_next_id = 1\<rparr>"

section \<open>Operations\<close>

definition first_index :: "(PendingRequest \<Rightarrow> bool) \<Rightarrow> PendingRequest list \<Rightarrow> nat option" where
  "first_index P es = find (\<lambda>i. P (es ! i)) [0..<length es]"

definition entry_update ::
  "PendingTable \<Rightarrow> nat \<Rightarrow> (PendingRequest \<Rightarrow> PendingRequest) \<Rightarrow> PendingTable" where
  "entry_update t i f = t\<lparr>pt_entries := (pt_entries t)[i := f (pt_entries t ! i)]\<rparr>"

text \<open>The successor of an identifier skips 0, which is reserved for ``no identifier''.\<close>

definition next_request_id :: "u32 \<Rightarrow> u32" where
  "next_request_id i = (if i + 1 = 0 then 1 else i + 1)"

definition new_request ::
  "u64 \<Rightarrow> u64 \<Rightarrow> u64 \<Rightarrow> u64 \<Rightarrow> WaitReason \<Rightarrow> u32 \<Rightarrow> PendingRequest" where
  "new_request reply_slot recv_slot client_badge orig_label wait_reason rid =
     \<lparr>pr_active = 1, pr_wait_reason = wait_reason, pr_request_id = rid,
      pr_reply_slot = reply_slot, pr_recv_slot = recv_slot, pr_client_badge = client_badge,
      pr_orig_label = orig_label, pr_context = replicate 4 0, pr_deadline_ns = 0\<rparr>"

definition pending_alloc ::
  "PendingTable \<Rightarrow> u64 \<Rightarrow> u64 \<Rightarrow> u64 \<Rightarrow> u64 \<Rightarrow> WaitReason \<Rightarrow> u32 \<times> PendingTable" where
  "pending_alloc t reply_slot recv_slot client_badge orig_label wait_reason =
     (case first_index (\<lambda>e. pr_active e = 0) (pt_entries t) of
        Some i \<Rightarrow>
          let rid = pt_next_id t
          in (rid, (entry_update t i (\<lambda>_. new_request reply_slot recv_slot client_badge
                                           orig_label wait_reason rid))
                    \<lparr>pt_next_id := next_request_id (pt_next_id t)\<rparr>)
      | None \<Rightarrow> (0, t))"

definition find_by_id :: "PendingTable \<Rightarrow> u32 \<Rightarrow> nat option" where
  "find_by_id t rid = first_index (\<lambda>e. pr_active e \<noteq> 0 \<and> pr_request_id e = rid) (pt_entries t)"

definition find_by :: "PendingTable \<Rightarrow> (PendingRequest \<Rightarrow> bool) \<Rightarrow> nat option" where
  "find_by t pred = first_index (\<lambda>e. pr_active e \<noteq> 0 \<and> pred e) (pt_entries t)"

definition take_entry ::
  "PendingTable \<Rightarrow> nat option \<Rightarrow> PendingRequest option \<times> PendingTable" where
  "take_entry t r =
     (case r of
        Some i \<Rightarrow> (Some (pt_entries t ! i), entry_update t i (\<lambda>_. PendingRequest_zeroed))
      | None \<Rightarrow> (None, t))"

definition complete :: "PendingTable \<Rightarrow> u32 \<Rightarrow> PendingRequest option \<times> PendingTable" where
  "complete t rid =
     take_entry t (first_index (\<lambda>e. pr_active e \<noteq> 0 \<and> pr_request_id e = rid) (pt_entries t))"

definition complete_by_context ::
  "PendingTable \<Rightarrow> u64 \<Rightarrow> u64 \<Rightarrow> PendingRequest option \<times> PendingTable" where
  "complete_by_context t ctx0 ctx1 =
     take_entry t (first_index (\<lambda>e. pr_active e \<noteq> 0 \<and> pr_context e ! 0 = ctx0 \<and>
                                    pr_context e ! 1 = ctx1) (pt_entries t))"

definition pending_count :: "PendingTable \<Rightarrow> nat" where
  "pending_count t = length (filter (\<lambda>e. pr_active e \<noteq> 0) (pt_entries t))"

definition has_capacity :: "PendingTable \<Rightarrow> bool" where
  "has_capacity t = list_ex (\<lambda>e. pr_active e = 0) (pt_entries t)"

definition iter_active :: "PendingTable \<Rightarrow> PendingRequest list" where
  "iter_active t = filter (\<lambda>e. pr_active e \<noteq> 0) (pt_entries t)"

definition pending_get :: "PendingTable \<Rightarrow> nat \<Rightarrow> PendingRequest option" where
  "pending_get t index =
     (if index < length (pt_entries t) \<and> pr_active (pt_entries t ! index) \<noteq> 0
      then Some (pt_entries t ! index) else None)"

definition nearest_deadline :: "PendingTable \<Rightarrow> u64" where
  "nearest_deadline t =
     fold (\<lambda>e m. if pr_active e \<noteq> 0 \<and> pr_deadline_ns e \<noteq> 0 \<and> pr_deadline_ns e < m
                 then pr_deadline_ns e else m) (pt_entries t) (- 1)"

definition capacity :: "PendingTable \<Rightarrow> nat" where
  "capacity t = length (pt_entries t)"

section \<open>Specification\<close>

text \<open>
  The table stands for the finite map from the identifiers of the active
  entries to the entries.  It is well-formed when these identifiers are
  different from each other and from 0, and when they were all issued before
  the next one (the counter has not wrapped).
\<close>

definition outstanding :: "PendingTable \<Rightarrow> u32 \<Rightarrow> PendingRequest option" where
  "outstanding t rid = map_option (\<lambda>i. pt_entries t ! i) (find_by_id t rid)"

definition active_ids :: "PendingTable \<Rightarrow> u32 list" where
  "active_ids t = map pr_request_id (iter_active t)"

definition pending_wf :: "PendingTable \<Rightarrow> bool" where
  "pending_wf t \<longleftrightarrow> distinct (active_ids t) \<and> pt_next_id t \<noteq> 0 \<and>
     (\<forall>rid\<in>set (active_ids t). rid \<noteq> 0 \<and> rid < pt_next_id t)"

text \<open>The calls of a server on its table.\<close>

datatype pending_op =
    OpAlloc u64 u64 u64 u64 WaitReason
  | OpComplete u32
  | OpCompleteCtx u64 u64
  | OpContext u32 "u64 list"
  | OpDeadline u32 u64

definition update_by_id ::
  "PendingTable \<Rightarrow> u32 \<Rightarrow> (PendingRequest \<Rightarrow> PendingRequest) \<Rightarrow> PendingTable" where
  "update_by_id t rid f = (case find_by_id t rid of Some i \<Rightarrow> entry_update t i f | None \<Rightarrow> t)"

fun run_op :: "pending_op \<Rightarrow> PendingTable \<Rightarrow> PendingTable" where
  "run_op (OpAlloc r s b l w) t = snd (pending_alloc t r s b l w)"
| "run_op (OpComplete rid) t = snd (complete t rid)"
| "run_op (OpCompleteCtx a b) t = snd (complete_by_context t a b)"
| "run_op (OpContext rid c) t = update_by_id t rid (\<lambda>e. e\<lparr>pr_context := c\<rparr>)"
| "run_op (OpDeadline rid d) t = update_by_id t rid (\<lambda>e. e\<lparr>pr_deadline_ns := d\<rparr>)"

definition is_alloc :: "pending_op \<Rightarrow> bool" where
  "is_alloc op = (case op of OpAlloc _ _ _ _ _ \<Rightarrow> True | _ \<Rightarrow> False)"

text \<open>The identifiers of the requests that a sequence of calls ends, in order.\<close>

definition ended :: "pending_op \<Rightarrow> PendingTable \<Rightarrow> u32 list" where
  "ended op t =
     (case (case op of
              OpComplete rid \<Rightarrow> fst (complete t rid)
            | OpCompleteCtx a b \<Rightarrow> fst (complete_by_context t a b)
            | _ \<Rightarrow> None) of
        None \<Rightarrow> []
      | Some e \<Rightarrow> [pr_request_id e])"

fun ended_ids :: "pending_op list \<Rightarrow> PendingTable \<Rightarrow> u32 list" where
  "ended_ids [] t = []"
| "ended_ids (op # ops) t = ended op t @ ended_ids ops (run_op op t)"

text \<open>The data a request was opened with.\<close>

definition opened_with ::
  "u64 \<Rightarrow> u64 \<Rightarrow> u64 \<Rightarrow> u64 \<Rightarrow> WaitReason \<Rightarrow> u32 \<Rightarrow> PendingRequest \<Rightarrow> bool" where
  "opened_with reply_slot recv_slot client_badge orig_label wait_reason rid e \<longleftrightarrow>
     pr_reply_slot e = reply_slot \<and> pr_recv_slot e = recv_slot \<and> pr_client_badge e = client_badge \<and>
     pr_orig_label e = orig_label \<and> pr_wait_reason e = wait_reason \<and> pr_request_id e = rid"

text \<open>
  The fate of one identifier: it is outstanding with the data it was opened with and has not
  been ended, or it has been ended once and is free.
\<close>

definition fate :: "(PendingRequest \<Rightarrow> bool) \<Rightarrow> u32 \<Rightarrow> PendingTable \<Rightarrow> nat \<Rightarrow> bool" where
  "fate P rid t n \<longleftrightarrow> pending_wf t \<and> rid < pt_next_id t \<and>
     (case outstanding t rid of None \<Rightarrow> n = 1 | Some e \<Rightarrow> n = 0 \<and> P e)"

text \<open>A request that is opened and answered at once, with arbitrary parameters.\<close>

definition short_request :: "PendingTable \<Rightarrow> PendingTable" where
  "short_request t =
     (case pending_alloc t 0 0 0 0 DownstreamCall of (rid, t') \<Rightarrow> snd (complete t' rid))"

section \<open>First matches and updates\<close>

lemma first_index_Some:
  assumes "first_index P es = Some i"
  shows "i < length es" "P (es ! i)" "\<And>j. j < i \<Longrightarrow> \<not> P (es ! j)"
  using find_upt_Some [OF assms [unfolded first_index_def]] by simp_all

lemma first_index_None: "first_index P es = None \<longleftrightarrow> (\<forall>e\<in>set es. \<not> P e)"
  by (auto simp: first_index_def find_upt_None all_set_conv_all_nth)

lemma first_index_unique:
  assumes "i < length es" "P (es ! i)" "\<And>j. j < length es \<Longrightarrow> P (es ! j) \<Longrightarrow> j = i"
  shows "first_index P es = Some i"
proof (cases "first_index P es")
  case None
  with assms(1,2) show ?thesis by (auto simp: first_index_None)
next
  case (Some k)
  with first_index_Some [OF Some] assms(3) show ?thesis by auto
qed

text \<open>Distinctness of the active identifiers, by indices.\<close>

lemma distinct_map_filter_nth:
  "distinct (map f (filter P xs)) \<longleftrightarrow>
     (\<forall>i<length xs. \<forall>j<length xs. P (xs ! i) \<longrightarrow> P (xs ! j) \<longrightarrow> f (xs ! i) = f (xs ! j) \<longrightarrow> i = j)"
proof (induction xs)
  case Nil
  then show ?case by simp
next
  case (Cons x xs)
  have mem: "y \<in> f ` {z \<in> set xs. P z} \<longleftrightarrow> (\<exists>i<length xs. P (xs ! i) \<and> f (xs ! i) = y)" for y
    by (auto simp: in_set_conv_nth)
  show ?case
    by (cases "P x") (auto simp: Cons.IH mem All_less_Suc2)
qed

lemma pending_wf_nth:
  assumes "pending_wf t" "i < length (pt_entries t)" "j < length (pt_entries t)"
    "pr_active (pt_entries t ! i) \<noteq> 0" "pr_active (pt_entries t ! j) \<noteq> 0"
    "pr_request_id (pt_entries t ! i) = pr_request_id (pt_entries t ! j)"
  shows "i = j"
  using assms unfolding pending_wf_def active_ids_def iter_active_def distinct_map_filter_nth by blast

lemma active_ids_mem:
  "rid \<in> set (active_ids t) \<longleftrightarrow>
     (\<exists>i<length (pt_entries t). pr_active (pt_entries t ! i) \<noteq> 0 \<and> pr_request_id (pt_entries t ! i) = rid)"
  by (auto simp: active_ids_def iter_active_def in_set_conv_nth)

lemma find_by_id_iff:
  assumes "pending_wf t"
  shows "find_by_id t rid = Some i \<longleftrightarrow>
    i < length (pt_entries t) \<and> pr_active (pt_entries t ! i) \<noteq> 0 \<and> pr_request_id (pt_entries t ! i) = rid"
proof
  assume "find_by_id t rid = Some i"
  from first_index_Some [OF this [unfolded find_by_id_def]]
  show "i < length (pt_entries t) \<and> pr_active (pt_entries t ! i) \<noteq> 0 \<and> pr_request_id (pt_entries t ! i) = rid"
    by simp
next
  assume "i < length (pt_entries t) \<and> pr_active (pt_entries t ! i) \<noteq> 0 \<and> pr_request_id (pt_entries t ! i) = rid"
  then show "find_by_id t rid = Some i"
    unfolding find_by_id_def using pending_wf_nth [OF assms] by (intro first_index_unique) auto
qed

lemma outstanding_Some:
  assumes "pending_wf t"
  shows "outstanding t rid = Some e \<longleftrightarrow>
    (\<exists>i<length (pt_entries t). pt_entries t ! i = e \<and> pr_active e \<noteq> 0 \<and> pr_request_id e = rid)"
  by (auto simp: outstanding_def find_by_id_iff [OF assms])

lemma replace_entry:
  assumes wf: "pending_wf t" and i: "i < length (pt_entries t)"
    and t': "pt_entries t' = (pt_entries t)[i := e']" "pt_next_id t \<le> pt_next_id t'" "pt_next_id t' \<noteq> 0"
    and new: "pr_active e' \<noteq> 0 \<Longrightarrow> pr_request_id e' \<noteq> 0 \<and> pr_request_id e' < pt_next_id t' \<and>
      (\<forall>j<length (pt_entries t). j \<noteq> i \<longrightarrow> pr_active (pt_entries t ! j) \<noteq> 0 \<longrightarrow>
         pr_request_id (pt_entries t ! j) \<noteq> pr_request_id e')"
  shows "pending_wf t'"
    and "outstanding t' rid =
      (if pr_active e' \<noteq> 0 \<and> pr_request_id e' = rid then Some e'
       else if pr_active (pt_entries t ! i) \<noteq> 0 \<and> pr_request_id (pt_entries t ! i) = rid then None
       else outstanding t rid)"
proof -
  have nth: "pt_entries t' ! j = (if j = i then e' else pt_entries t ! j)"
    if "j < length (pt_entries t)" for j
    using that by (simp add: t'(1))
  have len: "length (pt_entries t') = length (pt_entries t)" by (simp add: t'(1))
  have dist: "distinct (active_ids t')"
    unfolding active_ids_def iter_active_def distinct_map_filter_nth len
    using pending_wf_nth [OF wf] new by (auto simp: nth split: if_splits)
  have old: "rid \<noteq> 0 \<and> rid < pt_next_id t" if "rid \<in> set (active_ids t)" for rid
    using that wf by (simp add: pending_wf_def)
  have "rid \<noteq> 0 \<and> rid < pt_next_id t'" if "rid \<in> set (active_ids t')" for rid
  proof -
    from that obtain j where j: "j < length (pt_entries t)" "pr_active (pt_entries t' ! j) \<noteq> 0"
        "pr_request_id (pt_entries t' ! j) = rid"
      by (auto simp: active_ids_mem len)
    show ?thesis
    proof (cases "j = i")
      case True
      with j new nth show ?thesis by auto
    next
      case False
      with j nth have "rid \<in> set (active_ids t)" by (auto simp: active_ids_mem)
      with old t'(2) show ?thesis by fastforce
    qed
  qed
  with dist t'(3) show wf': "pending_wf t'" by (simp add: pending_wf_def)
  have fnd: "find_by_id t' rid = Some j \<longleftrightarrow>
      j < length (pt_entries t) \<and>
      (if j = i then pr_active e' \<noteq> 0 \<and> pr_request_id e' = rid
       else pr_active (pt_entries t ! j) \<noteq> 0 \<and> pr_request_id (pt_entries t ! j) = rid)" for j
    using find_by_id_iff [OF wf', of rid j] nth [of j] by (auto simp: len)
  consider (new) "pr_active e' \<noteq> 0 \<and> pr_request_id e' = rid"
    | (gone) "\<not> (pr_active e' \<noteq> 0 \<and> pr_request_id e' = rid)"
        "pr_active (pt_entries t ! i) \<noteq> 0 \<and> pr_request_id (pt_entries t ! i) = rid"
    | (other) "\<not> (pr_active e' \<noteq> 0 \<and> pr_request_id e' = rid)"
        "\<not> (pr_active (pt_entries t ! i) \<noteq> 0 \<and> pr_request_id (pt_entries t ! i) = rid)"
    by blast
  then show "outstanding t' rid =
      (if pr_active e' \<noteq> 0 \<and> pr_request_id e' = rid then Some e'
       else if pr_active (pt_entries t ! i) \<noteq> 0 \<and> pr_request_id (pt_entries t ! i) = rid then None
       else outstanding t rid)"
  proof cases
    case new
    with fnd [of i] i have "find_by_id t' rid = Some i" by simp
    with new i nth show ?thesis by (simp add: outstanding_def)
  next
    case gone
    have "find_by_id t' rid = None"
    proof (cases "find_by_id t' rid")
      case (Some j)
      with fnd [of j] gone pending_wf_nth [OF wf i, of j] show ?thesis by (auto split: if_splits)
    qed
    with gone show ?thesis by (simp add: outstanding_def)
  next
    case other
    have "find_by_id t' rid = Some j \<longleftrightarrow> find_by_id t rid = Some j" for j
      using fnd [of j] find_by_id_iff [OF wf, of rid j] other by auto
    then have eq: "find_by_id t' rid = find_by_id t rid"
      by (cases "find_by_id t rid") auto
    have "j \<noteq> i \<and> j < length (pt_entries t)" if "find_by_id t rid = Some j" for j
      using that other find_by_id_iff [OF wf, of rid j] by auto
    with eq nth other show ?thesis
      by (cases "find_by_id t rid") (auto simp: outstanding_def)
  qed
qed

lemma zeroed_simps [simp]: "pr_active PendingRequest_zeroed = 0"
  by (simp add: PendingRequest_zeroed_def)

lemma new_request_simps [simp]:
  "pr_active (new_request r s b l w rid) = 1" "pr_request_id (new_request r s b l w rid) = rid"
  by (simp_all add: new_request_def)

lemma next_request_id_gt:
  assumes "n \<noteq> - 1"
  shows "n < next_request_id n" "n \<le> next_request_id n" "next_request_id n \<noteq> 0"
proof -
  have "unat n \<noteq> unat (- 1 :: u32)" using assms by (simp add: word_unat_eq_iff)
  then have "unat n < 4294967295" using unat_lt32 [of n] unat_max32 by linarith
  then have u: "unat (n + 1) = unat n + 1" by (subst unat_add_le) simp_all
  then have "n + 1 \<noteq> 0" by (metis add_is_0 unat_0 zero_neq_one)
  with u show "n < next_request_id n" "n \<le> next_request_id n" "next_request_id n \<noteq> 0"
    by (simp_all add: next_request_id_def word_less_nat_alt word_le_nat_alt)
qed

lemma pending_alloc_full:
  assumes "\<not> has_capacity t"
  shows "pending_alloc t r s b l w = (0, t)"
proof -
  have "first_index (\<lambda>e. pr_active e = 0) (pt_entries t) = None"
    using assms by (simp add: first_index_None has_capacity_def list_ex_iff)
  then show ?thesis by (simp add: pending_alloc_def)
qed

lemma pending_alloc_ok:
  assumes wf: "pending_wf t" and cap: "has_capacity t" and id: "pt_next_id t \<noteq> - 1"
    and r: "pending_alloc t r s b l w = (rid, t')"
  shows "rid = pt_next_id t" "rid \<noteq> 0" "pending_wf t'"
    "outstanding t' = (outstanding t)(rid \<mapsto> new_request r s b l w rid)"
    "outstanding t rid = None" "pt_next_id t' = next_request_id (pt_next_id t)"
proof -
  have "first_index (\<lambda>e. pr_active e = 0) (pt_entries t) \<noteq> None"
    using cap by (simp add: first_index_None has_capacity_def list_ex_iff)
  then obtain i where i: "first_index (\<lambda>e. pr_active e = 0) (pt_entries t) = Some i" by blast
  note fi = first_index_Some [OF i]
  from r i show rid: "rid = pt_next_id t" and nx: "pt_next_id t' = next_request_id (pt_next_id t)"
    by (auto simp: pending_alloc_def Let_def)
  from wf rid show "rid \<noteq> 0" by (simp add: pending_wf_def)
  have ent: "pt_entries t' = (pt_entries t)[i := new_request r s b l w rid]"
    using r i by (auto simp: pending_alloc_def Let_def entry_update_def)
  have lt: "x < pt_next_id t" if "x \<in> set (active_ids t)" for x
    using that wf by (simp add: pending_wf_def)
  have none: "rid \<notin> set (active_ids t)" using lt rid by blast
  note rp = replace_entry [OF wf fi(1) ent]
  have prem: "pt_next_id t \<le> pt_next_id t'" "pt_next_id t' \<noteq> 0"
    "pr_request_id (new_request r s b l w rid) \<noteq> 0 \<and>
     pr_request_id (new_request r s b l w rid) < pt_next_id t' \<and>
      (\<forall>j<length (pt_entries t). j \<noteq> i \<longrightarrow> pr_active (pt_entries t ! j) \<noteq> 0 \<longrightarrow>
         pr_request_id (pt_entries t ! j) \<noteq> pr_request_id (new_request r s b l w rid))"
    using next_request_id_gt [OF id] rid nx none wf
    by (auto simp: active_ids_mem pending_wf_def)
  show "pending_wf t'" by (rule rp(1) [OF prem])
  show "outstanding t' = (outstanding t)(rid \<mapsto> new_request r s b l w rid)"
    using rp(2) [OF prem] fi(2) by auto
  show "outstanding t rid = None"
  proof (cases "outstanding t rid")
    case (Some e)
    with none outstanding_Some [OF wf, of rid e] show ?thesis by (auto simp: active_ids_mem)
  qed
qed

lemma take_entry_Some:
  assumes wf: "pending_wf t" and i: "i < length (pt_entries t)" "pr_active (pt_entries t ! i) \<noteq> 0"
    and t': "t' = entry_update t i (\<lambda>_. PendingRequest_zeroed)"
  shows "pending_wf t'" "outstanding t' = (outstanding t)(pr_request_id (pt_entries t ! i) := None)"
    "outstanding t (pr_request_id (pt_entries t ! i)) = Some (pt_entries t ! i)"
    "pt_next_id t' = pt_next_id t"
proof -
  have ent: "pt_entries t' = (pt_entries t)[i := PendingRequest_zeroed]"
    and nx: "pt_next_id t' = pt_next_id t"
    by (simp_all add: t' entry_update_def)
  note rp = replace_entry [OF wf i(1) ent]
  have prem: "pt_next_id t \<le> pt_next_id t'" "pt_next_id t' \<noteq> 0"
    using wf nx by (auto simp: pending_wf_def)
  show "pending_wf t'" by (rule rp(1) [OF prem]) simp
  show "outstanding t' = (outstanding t)(pr_request_id (pt_entries t ! i) := None)"
    using rp(2) [OF prem] i(2) by auto
  show "outstanding t (pr_request_id (pt_entries t ! i)) = Some (pt_entries t ! i)"
    using i by (auto simp: outstanding_Some [OF wf])
  show "pt_next_id t' = pt_next_id t" by (rule nx)
qed

lemma complete_spec:
  assumes wf: "pending_wf t" and r: "complete t rid = (e, t')"
  shows "e = outstanding t rid" "pending_wf t'" "outstanding t' = (outstanding t)(rid := None)"
    "pt_next_id t' = pt_next_id t"
proof -
  have "e = outstanding t rid \<and> pending_wf t' \<and> outstanding t' = (outstanding t)(rid := None) \<and>
    pt_next_id t' = pt_next_id t"
  proof (cases "find_by_id t rid")
    case None
    with r have "e = None" "t' = t" by (auto simp: complete_def take_entry_def find_by_id_def)
    moreover from None have "outstanding t rid = None" by (simp add: outstanding_def)
    ultimately show ?thesis using wf by (auto simp: fun_upd_idem)
  next
    case (Some i)
    with find_by_id_iff [OF wf]
    have i: "i < length (pt_entries t)" "pr_active (pt_entries t ! i) \<noteq> 0"
      "pr_request_id (pt_entries t ! i) = rid" by auto
    from r Some have "e = Some (pt_entries t ! i)" "t' = entry_update t i (\<lambda>_. PendingRequest_zeroed)"
      by (auto simp: complete_def take_entry_def find_by_id_def)
    with take_entry_Some [OF wf i(1,2)] i(3) show ?thesis by auto
  qed
  then show "e = outstanding t rid" "pending_wf t'" "outstanding t' = (outstanding t)(rid := None)"
    "pt_next_id t' = pt_next_id t" by simp_all
qed

lemma complete_by_context_spec:
  assumes wf: "pending_wf t" and r: "complete_by_context t c0 c1 = (e, t')"
  shows "pending_wf t' \<and> pt_next_id t' = pt_next_id t \<and>
    (case e of
       None \<Rightarrow> t' = t \<and> (\<forall>rid x. outstanding t rid = Some x \<longrightarrow> pr_context x ! 0 \<noteq> c0 \<or> pr_context x ! 1 \<noteq> c1)
     | Some x \<Rightarrow> pr_context x ! 0 = c0 \<and> pr_context x ! 1 = c1 \<and>
         outstanding t (pr_request_id x) = Some x \<and>
         outstanding t' = (outstanding t)(pr_request_id x := None))"
proof -
  let ?P = "\<lambda>e. pr_active e \<noteq> 0 \<and> pr_context e ! 0 = c0 \<and> pr_context e ! 1 = c1"
  show ?thesis
  proof (cases "first_index ?P (pt_entries t)")
    case None
    with r have "e = None" "t' = t" by (auto simp: complete_by_context_def take_entry_def)
    moreover have "pr_context x ! 0 \<noteq> c0 \<or> pr_context x ! 1 \<noteq> c1" if "outstanding t rid = Some x" for rid x
      using that None outstanding_Some [OF wf] by (auto simp: first_index_None)
    ultimately show ?thesis using wf by auto
  next
    case (Some i)
    note i = first_index_Some [OF Some]
    from r Some have "e = Some (pt_entries t ! i)" "t' = entry_update t i (\<lambda>_. PendingRequest_zeroed)"
      by (auto simp: complete_by_context_def take_entry_def)
    with take_entry_Some [OF wf i(1)] i(2) show ?thesis by auto
  qed
qed

lemma update_by_id_spec:
  assumes wf: "pending_wf t"
    and f: "\<And>e. pr_active (f e) = pr_active e" "\<And>e. pr_request_id (f e) = pr_request_id e"
  shows "pending_wf (update_by_id t rid f)"
    "outstanding (update_by_id t rid f) = (outstanding t)(rid := map_option f (outstanding t rid))"
    "pt_next_id (update_by_id t rid f) = pt_next_id t"
proof -
  have "pending_wf (update_by_id t rid f) \<and>
    outstanding (update_by_id t rid f) = (outstanding t)(rid := map_option f (outstanding t rid)) \<and>
    pt_next_id (update_by_id t rid f) = pt_next_id t"
  proof (cases "find_by_id t rid")
    case None
    then show ?thesis using wf by (auto simp: update_by_id_def outstanding_def)
  next
    case (Some i)
    with find_by_id_iff [OF wf]
    have i: "i < length (pt_entries t)" "pr_active (pt_entries t ! i) \<noteq> 0"
      "pr_request_id (pt_entries t ! i) = rid" by auto
    let ?t = "entry_update t i f"
    have ent: "pt_entries ?t = (pt_entries t)[i := f (pt_entries t ! i)]" and nx: "pt_next_id ?t = pt_next_id t"
      by (simp_all add: entry_update_def)
    note rp = replace_entry [OF wf i(1) ent]
    have rid: "rid \<noteq> 0 \<and> rid < pt_next_id t"
      using wf i active_ids_mem [of rid t] by (auto simp: pending_wf_def)
    have prem: "pt_next_id t \<le> pt_next_id ?t" "pt_next_id ?t \<noteq> 0"
      "pr_request_id (f (pt_entries t ! i)) \<noteq> 0 \<and>
       pr_request_id (f (pt_entries t ! i)) < pt_next_id ?t \<and>
      (\<forall>j<length (pt_entries t). j \<noteq> i \<longrightarrow> pr_active (pt_entries t ! j) \<noteq> 0 \<longrightarrow>
         pr_request_id (pt_entries t ! j) \<noteq> pr_request_id (f (pt_entries t ! i)))"
    proof -
      show "pt_next_id t \<le> pt_next_id ?t" "pt_next_id ?t \<noteq> 0"
        using wf nx by (simp_all add: pending_wf_def)
      show "pr_request_id (f (pt_entries t ! i)) \<noteq> 0 \<and>
       pr_request_id (f (pt_entries t ! i)) < pt_next_id ?t \<and>
      (\<forall>j<length (pt_entries t). j \<noteq> i \<longrightarrow> pr_active (pt_entries t ! j) \<noteq> 0 \<longrightarrow>
         pr_request_id (pt_entries t ! j) \<noteq> pr_request_id (f (pt_entries t ! i)))"
        unfolding f(2) nx i(3) using rid pending_wf_nth [OF wf i(1) _ i(2)] i(3) by metis
    qed
    have out: "outstanding t rid = Some (pt_entries t ! i)" using Some by (simp add: outstanding_def)
    have "update_by_id t rid f = ?t" using Some by (simp add: update_by_id_def)
    with rp(1) [OF prem] rp(2) [OF prem] nx i f out show ?thesis by auto
  qed
  then show "pending_wf (update_by_id t rid f)"
    "outstanding (update_by_id t rid f) = (outstanding t)(rid := map_option f (outstanding t rid))"
    "pt_next_id (update_by_id t rid f) = pt_next_id t" by simp_all
qed

section \<open>The interface a server relies on\<close>

text \<open>Answering a request yields what was outstanding under its identifier, once.\<close>

locale request_table =
  fixes inv :: "'t \<Rightarrow> bool"
    and look :: "'t \<Rightarrow> u32 \<Rightarrow> 'r option"
    and answer :: "'t \<Rightarrow> u32 \<Rightarrow> 'r option \<times> 't"
  assumes answer_law: "inv t \<Longrightarrow> answer t rid = (e, t') \<Longrightarrow>
    inv t' \<and> e = look t rid \<and> look t' = (look t)(rid := None)"
begin

lemma answer_once:
  assumes "inv t" "answer t rid = (e, t')"
  shows "fst (answer t' rid) = None"
proof (cases "answer t' rid")
  case (Pair e' t'')
  with answer_law [OF assms] answer_law [of t' rid e' t''] show ?thesis by simp
qed

lemma answer_order_irrelevant:
  assumes "inv t" "i \<noteq> j" "answer t i = (e, t1)" "answer t1 j = (e', t2)"
    "answer t j = (f', u1)" "answer u1 i = (f, u2)"
  shows "e = f \<and> e' = f' \<and> look t2 = look u2"
  using answer_law [OF assms(1,3)] answer_law [OF _ assms(4)]
    answer_law [OF assms(1,5)] answer_law [OF _ assms(6)] assms(2) by auto

end

interpretation pt: request_table pending_wf outstanding complete
  by unfold_locales (use complete_spec in blast)

section \<open>Runs\<close>

lemma next_request_id_unat:
  assumes "unat n < 4294967295"
  shows "unat (next_request_id n) = Suc (unat n)"
proof -
  have u: "unat (n + 1) = unat n + 1" using assms by (subst unat_add_le) simp_all
  then have "n + 1 \<noteq> 0" by (metis add_is_0 unat_0 zero_neq_one)
  with u show ?thesis by (simp add: next_request_id_def)
qed

lemma pending_new_wf: "pending_wf (PendingTable_new N)" "pt_next_id (PendingTable_new N) = 1"
  by (simp_all add: pending_wf_def PendingTable_new_def active_ids_def iter_active_def)

lemma run_op_no_alloc:
  assumes "pending_wf t" "\<not> is_alloc op"
  shows "pending_wf (run_op op t) \<and> pt_next_id (run_op op t) = pt_next_id t"
proof (cases op)
  case (OpAlloc r s b l w)
  with assms(2) show ?thesis by (simp add: is_alloc_def)
next
  case (OpComplete rid)
  with complete_spec [OF assms(1) prod.collapse [symmetric]] show ?thesis by simp
next
  case (OpCompleteCtx a b)
  with complete_by_context_spec [OF assms(1) prod.collapse [symmetric]] show ?thesis by simp
next
  case (OpContext rid c)
  with update_by_id_spec [OF assms(1), of "\<lambda>e. e\<lparr>pr_context := c\<rparr>"] show ?thesis by simp
next
  case (OpDeadline rid d)
  with update_by_id_spec [OF assms(1), of "\<lambda>e. e\<lparr>pr_deadline_ns := d\<rparr>"] show ?thesis by simp
qed

lemma run_op_wf:
  assumes "pending_wf t" "unat (pt_next_id t) < 4294967295"
  shows "pending_wf (run_op op t) \<and>
    unat (pt_next_id (run_op op t)) \<le> unat (pt_next_id t) + (if is_alloc op then 1 else 0)"
proof (cases "is_alloc op")
  case False
  with run_op_no_alloc [OF assms(1) False] show ?thesis by simp
next
  case True
  then obtain r s b l w where op: "op = OpAlloc r s b l w"
    by (auto simp: is_alloc_def split: pending_op.splits)
  have ne: "pt_next_id t \<noteq> - 1" using assms(2) unat_max32 by auto
  obtain rid t' where a: "pending_alloc t r s b l w = (rid, t')" by force
  show ?thesis
  proof (cases "has_capacity t")
    case True
    from pending_alloc_ok [OF assms(1) this ne a] next_request_id_unat [OF assms(2)] op a
    show ?thesis by (simp add: is_alloc_def)
  next
    case False
    with pending_alloc_full op assms show ?thesis by (simp add: is_alloc_def)
  qed
qed

lemma run_ops_wf:
  assumes "length (filter is_alloc ops) < 4294967295"
  shows "pending_wf (fold run_op ops (PendingTable_new N)) \<and>
    unat (pt_next_id (fold run_op ops (PendingTable_new N))) \<le> 1 + length (filter is_alloc ops)"
  using assms
proof (induction ops rule: rev_induct)
  case Nil
  then show ?case by (simp add: pending_new_wf)
next
  case (snoc op ops)
  let ?t = "fold run_op ops (PendingTable_new N)"
  from snoc have IH: "pending_wf ?t" "unat (pt_next_id ?t) \<le> 1 + length (filter is_alloc ops)"
    by (auto split: if_splits)
  show ?case
  proof (cases "unat (pt_next_id ?t) < 4294967295")
    case True
    with run_op_wf [OF IH(1), of op] IH(2) show ?thesis by auto
  next
    case False
    with IH(2) snoc.prems have na: "\<not> is_alloc op" by (auto split: if_splits)
    with run_op_no_alloc [OF IH(1) na] IH(2) show ?thesis by simp
  qed
qed

lemma run_op_fate:
  assumes f: "fate P rid t n" and id: "is_alloc op \<Longrightarrow> pt_next_id t \<noteq> - 1"
    and P: "\<And>e c d. P e \<Longrightarrow> P (e\<lparr>pr_context := c\<rparr>) \<and> P (e\<lparr>pr_deadline_ns := d\<rparr>)"
    and rid: "\<And>e. P e \<Longrightarrow> pr_request_id e = rid"
  shows "fate P rid (run_op op t) (n + count_list (ended op t) rid)"
proof -
  have wf: "pending_wf t" and lt: "rid < pt_next_id t"
    and out: "case outstanding t rid of None \<Rightarrow> n = 1 | Some e \<Rightarrow> n = 0 \<and> P e"
    using f by (simp_all add: fate_def)
  show ?thesis
  proof (cases op)
    case (OpAlloc r s b l w)
    have e: "ended op t = []" by (simp add: OpAlloc ended_def)
    show ?thesis
    proof (cases "has_capacity t")
      case False
      then show ?thesis using f e by (simp add: OpAlloc pending_alloc_full)
    next
      case True
      have ne: "pt_next_id t \<noteq> - 1" by (rule id) (simp add: OpAlloc is_alloc_def)
      obtain rid' t' where a: "pending_alloc t r s b l w = (rid', t')" by force
      note al = pending_alloc_ok [OF wf True ne a]
      have "rid \<noteq> rid'" using lt al(1) by auto
      moreover have "rid < pt_next_id t'" using lt al(6) next_request_id_gt(1) [OF ne] by (metis order_less_trans)
      ultimately show ?thesis using out al e by (simp add: OpAlloc a fate_def)
    qed
  next
    case (OpComplete i)
    note c = complete_spec [OF wf prod.collapse [symmetric], of i]
    have "pr_request_id e = i" if "outstanding t i = Some e" for e
      using that wf by (auto simp: outstanding_Some)
    then have "ended op t = (if outstanding t i = None then [] else [i])"
      using c(1) by (auto simp: OpComplete ended_def split: option.split)
    then show ?thesis using out lt c by (auto simp: OpComplete fate_def split: option.splits)
  next
    case (OpCompleteCtx a b)
    note c = complete_by_context_spec [OF wf prod.collapse [symmetric], of a b]
    show ?thesis
    proof (cases "fst (complete_by_context t a b)")
      case None
      then show ?thesis using c f by (simp add: OpCompleteCtx ended_def)
    next
      case (Some x)
      then show ?thesis using c out lt by (auto simp: OpCompleteCtx ended_def fate_def split: option.splits)
    qed
  next
    case (OpContext i c)
    note u = update_by_id_spec [OF wf, of "\<lambda>e. e\<lparr>pr_context := c\<rparr>" i, simplified]
    show ?thesis using u out lt P by (auto simp: OpContext ended_def fate_def split: option.splits)
  next
    case (OpDeadline i d)
    note u = update_by_id_spec [OF wf, of "\<lambda>e. e\<lparr>pr_deadline_ns := d\<rparr>" i, simplified]
    show ?thesis using u out lt P by (auto simp: OpDeadline ended_def fate_def split: option.splits)
  qed
qed

lemma run_ops_fate:
  assumes "fate P rid t n" and "unat (pt_next_id t) + length (filter is_alloc ops) \<le> 4294967295"
    and "\<And>e c d. P e \<Longrightarrow> P (e\<lparr>pr_context := c\<rparr>) \<and> P (e\<lparr>pr_deadline_ns := d\<rparr>)"
    and "\<And>e. P e \<Longrightarrow> pr_request_id e = rid"
  shows "fate P rid (fold run_op ops t) (n + count_list (ended_ids ops t) rid)"
  using assms(1,2)
proof (induction ops arbitrary: t n)
  case (Cons op ops)
  have id: "pt_next_id t \<noteq> - 1" if "is_alloc op" using that Cons.prems(2) unat_max32 by auto
  have step: "fate P rid (run_op op t) (n + count_list (ended op t) rid)"
    using run_op_fate [OF Cons.prems(1) id assms(3,4)] by blast
  have "pending_wf t" using Cons.prems(1) by (simp add: fate_def)
  then have "unat (pt_next_id (run_op op t)) \<le> unat (pt_next_id t) + (if is_alloc op then 1 else 0)"
    using run_op_wf [of t op] run_op_no_alloc [of t op] Cons.prems(2) by (cases "is_alloc op") auto
  then have "unat (pt_next_id (run_op op t)) + length (filter is_alloc ops) \<le> 4294967295"
    using Cons.prems(2) by (auto split: if_splits)
  from Cons.IH [OF step this] show ?case by (simp add: add.assoc)
qed simp

section \<open>Counting and deadlines\<close>

lemma pending_count_card:
  assumes "pending_wf t"
  shows "pending_count t = card (dom (outstanding t))"
proof -
  have "dom (outstanding t) = set (active_ids t)"
  proof (intro set_eqI)
    fix rid
    show "rid \<in> dom (outstanding t) \<longleftrightarrow> rid \<in> set (active_ids t)"
      unfolding active_ids_mem domIff not_None_eq outstanding_Some [OF assms] by blast
  qed
  moreover have "distinct (active_ids t)" using assms by (simp add: pending_wf_def)
  ultimately have "card (dom (outstanding t)) = length (active_ids t)" by (simp only: distinct_card)
  then show ?thesis by (simp add: pending_count_def active_ids_def iter_active_def)
qed

lemma has_capacity_count: "has_capacity t \<longleftrightarrow> pending_count t < capacity t"
proof -
  have "length (filter P xs) < length xs \<longleftrightarrow> (\<exists>x\<in>set xs. \<not> P x)" for P and xs :: "PendingRequest list"
    by (metis length_filter_less filter_True nat_neq_iff)
  then show ?thesis by (auto simp: has_capacity_def list_ex_iff pending_count_def capacity_def)
qed

lemma nearest_deadline_fold:
  fixes es :: "PendingRequest list" and m :: u64
  defines "r \<equiv> fold (\<lambda>e m. if pr_active e \<noteq> 0 \<and> pr_deadline_ns e \<noteq> 0 \<and> pr_deadline_ns e < m
                 then pr_deadline_ns e else m) es m"
  shows "r \<le> m \<and> (\<forall>e\<in>set es. pr_active e \<noteq> 0 \<longrightarrow> pr_deadline_ns e \<noteq> 0 \<longrightarrow> r \<le> pr_deadline_ns e) \<and>
    (r = m \<or> (\<exists>e\<in>set es. pr_active e \<noteq> 0 \<and> pr_deadline_ns e \<noteq> 0 \<and> r = pr_deadline_ns e))"
  unfolding r_def
proof (induction es arbitrary: m)
  case Nil
  then show ?case by simp
next
  case (Cons e es)
  define m' where "m' = (if pr_active e \<noteq> 0 \<and> pr_deadline_ns e \<noteq> 0 \<and> pr_deadline_ns e < m
                 then pr_deadline_ns e else m)"
  have "m' \<le> m" by (auto simp: m'_def)
  moreover have "pr_active e \<noteq> 0 \<Longrightarrow> pr_deadline_ns e \<noteq> 0 \<Longrightarrow> m' \<le> pr_deadline_ns e"
    by (auto simp: m'_def)
  moreover have "m' = m \<or> pr_active e \<noteq> 0 \<and> pr_deadline_ns e \<noteq> 0 \<and> m' = pr_deadline_ns e"
    by (simp add: m'_def)
  ultimately show ?case using Cons.IH [of m'] by (fastforce simp: m'_def [symmetric])
qed

section \<open>Identifier reuse\<close>

lemma short_request_pair:
  assumes "pr_active e = 1" "pr_request_id e = 1" "nx \<noteq> 1" "nx \<noteq> 0"
  shows "short_request \<lparr>pt_entries = [e, PendingRequest_zeroed], pt_next_id = nx\<rparr> =
    \<lparr>pt_entries = [e, PendingRequest_zeroed], pt_next_id = next_request_id nx\<rparr>"
proof -
  have "first_index (\<lambda>e. pr_active e = 0) [e, PendingRequest_zeroed] = Some 1"
    using assms(1) by (simp add: first_index_def)
  moreover have "first_index (\<lambda>x. pr_active x \<noteq> 0 \<and> pr_request_id x = nx)
      [e, new_request 0 0 0 0 DownstreamCall nx] = Some 1"
    using assms by (simp add: first_index_def)
  ultimately show ?thesis
    by (simp add: short_request_def pending_alloc_def complete_def take_entry_def entry_update_def Let_def)
qed

lemma short_requests_pair:
  assumes e: "pr_active e = 1" "pr_request_id e = 1"
    and "t = \<lparr>pt_entries = [e, PendingRequest_zeroed], pt_next_id = 2\<rparr>" "n \<le> 4294967293"
  shows "(short_request ^^ n) t = t\<lparr>pt_next_id := of_nat (2 + n)\<rparr>"
  using assms(4)
proof (induction n)
  case 0
  then show ?case using assms(3) by simp
next
  case (Suc n)
  define k where "k = 2 + n"
  have k: "2 \<le> k" "k < 4294967295" using Suc.prems by (simp_all add: k_def)
  have u: "unat (of_nat k :: u32) = k" using k by (intro unat_of_nat_lt32) simp
  have ne: "(of_nat k :: u32) \<noteq> 1" "(of_nat k :: u32) \<noteq> 0" using u k by auto
  have "unat (next_request_id (of_nat k :: u32)) = unat (of_nat (Suc k) :: u32)"
    using next_request_id_unat [of "of_nat k"] u k unat_of_nat_lt32 [of "Suc k"] by simp
  then have nx: "next_request_id (of_nat k :: u32) = of_nat (Suc k)"
    by (simp only: word_unat_eq_iff)
  have "(short_request ^^ Suc n) t = short_request (t\<lparr>pt_next_id := of_nat k\<rparr>)"
    using Suc by (simp add: k_def)
  also have "\<dots> = t\<lparr>pt_next_id := of_nat (Suc k)\<rparr>"
    using short_request_pair [OF e ne] nx assms(3) by simp
  finally show ?case by (simp add: k_def)
qed

lemma short_requests_wrap:
  assumes e: "pr_active e = 1" "pr_request_id e = 1"
    and t: "t = \<lparr>pt_entries = [e, PendingRequest_zeroed], pt_next_id = 2\<rparr>"
    and n: "n = 4294967293"
  shows "(short_request ^^ Suc n) t = t\<lparr>pt_next_id := 1\<rparr>"
proof -
  have max: "(of_nat (2 + n) :: u32) = - 1" by (simp add: n)
  have le: "n \<le> 4294967293" by (simp add: n)
  have "(short_request ^^ Suc n) t = short_request (t\<lparr>pt_next_id := - 1\<rparr>)"
    unfolding funpow.simps comp_apply short_requests_pair [OF e t le] max ..
  also have "\<dots> = t\<lparr>pt_next_id := 1\<rparr>"
    using short_request_pair [OF e, of "- 1"] by (simp add: t next_request_id_def)
  finally show ?thesis .
qed

section \<open>Properties\<close>

text \<open>C33: In a run of a server that opens fewer than \<open>2 ^ 32 - 2\<close> requests, a request gets an identifier
  under which nothing is outstanding, and it is answered exactly once: after any further
  calls \<open>later\<close>, on this and on other requests, either none of them has ended it, and then \<open>complete\<close> returns it with
  the reply slot, receive slot, badge, label and reason it was opened with, or exactly one
  of them has ended it, and then \<open>complete\<close> returns nothing.  Completing it leaves
  all other requests as they are.\<close>

theorem pending_alloc_complete:
  assumes "length (filter is_alloc (ops @ later)) < 2 ^ 32 - 2" and "t = fold run_op ops (PendingTable_new N)"
    and "has_capacity t" and "pending_alloc t r s b l w = (rid, t')"
    and "u = fold run_op later t'" and "complete u rid = (e, u')"
  shows "rid \<noteq> 0 \<and> outstanding t rid = None \<and> outstanding t' = (outstanding t)(rid \<mapsto> new_request r s b l w rid) \<and>
    distinct (active_ids u) \<and> outstanding u' = (outstanding u)(rid := None) \<and>
    (case e of
       Some x \<Rightarrow> count_list (ended_ids later t') rid = 0 \<and> opened_with r s b l w rid x
     | None \<Rightarrow> count_list (ended_ids later t') rid = 1)"
proof -
  have wf: "pending_wf t" "unat (pt_next_id t) \<le> 1 + length (filter is_alloc ops)"
    using run_ops_wf [of ops N] assms(1,2) by simp_all
  have small: "unat (pt_next_id t) < 4294967295" using wf(2) assms(1) by simp
  then have ne: "pt_next_id t \<noteq> - 1" using unat_max32 by auto
  note al = pending_alloc_ok [OF wf(1) assms(3) ne assms(4)]
  have "fate (opened_with r s b l w rid) rid t' 0"
    using al next_request_id_gt(1) [OF ne] by (simp add: fate_def opened_with_def new_request_def)
  moreover have "unat (pt_next_id t') + length (filter is_alloc later) \<le> 4294967295"
    using al(6) next_request_id_unat [OF small] wf(2) assms(1) by simp
  ultimately have "fate (opened_with r s b l w rid) rid u (0 + count_list (ended_ids later t') rid)"
    unfolding assms(5) by (rule run_ops_fate) (simp_all add: opened_with_def)
  then have u: "pending_wf u" "case outstanding u rid of None \<Rightarrow> count_list (ended_ids later t') rid = 1
      | Some x \<Rightarrow> count_list (ended_ids later t') rid = 0 \<and> opened_with r s b l w rid x"
    by (simp_all add: fate_def)
  from pt.answer_law [OF u(1) assms(6)] u al show ?thesis by (auto simp: pending_wf_def split: option.splits)
qed

theorem pending_alloc_complete_witness:
  "\<exists>e. fst (complete (fold run_op [OpAlloc 9 9 9 9 Timer, OpDeadline 2 7, OpComplete 1, OpCompleteCtx 4 4]
       (snd (pending_alloc (fold run_op [OpAlloc 5 6 7 8 Timer] (PendingTable_new 4)) 1 2 3 4 DownstreamCall))) 2)
     = Some e \<and> opened_with 1 2 3 4 DownstreamCall 2 e"
proof -
  let ?t = "fold run_op [OpAlloc 5 6 7 8 Timer] (PendingTable_new 4)"
  let ?later = "[OpAlloc 9 9 9 9 Timer, OpDeadline 2 7, OpComplete 1, OpCompleteCtx 4 4]"
  let ?t' = "snd (pending_alloc ?t 1 2 3 4 DownstreamCall)"
  have "fst (pending_alloc ?t 1 2 3 4 DownstreamCall) = 2" by code_simp
  then have a: "pending_alloc ?t 1 2 3 4 DownstreamCall = (2, ?t')" by (simp add: prod_eq_iff)
  have c: "has_capacity ?t" by code_simp
  have len: "length (filter is_alloc ([OpAlloc 5 6 7 8 Timer] @ ?later)) < 2 ^ 32 - 2" by (simp add: is_alloc_def)
  have "count_list (ended_ids ?later ?t') 2 = 0" by code_simp
  with pending_alloc_complete [OF len refl c a refl prod.collapse [symmetric]] show ?thesis
    by (auto split: option.splits)
qed

text \<open>Fact: The number of active entries is the number of outstanding identifiers, and an
  allocation is possible exactly when it is below the capacity.\<close>

theorem pending_count_correct:
  assumes "pending_wf t"
  shows "pending_count t = card (dom (outstanding t)) \<and>
    (has_capacity t \<longleftrightarrow> pending_count t < capacity t) \<and>
    (fst (pending_alloc t r s b l w) = 0 \<longleftrightarrow> card (dom (outstanding t)) = capacity t)"
proof -
  have le: "pending_count t \<le> capacity t" by (simp add: pending_count_def capacity_def)
  have nz: "pt_next_id t \<noteq> 0" using assms by (simp add: pending_wf_def)
  have "fst (pending_alloc t r s b l w) = 0 \<longleftrightarrow> \<not> has_capacity t"
  proof (cases "has_capacity t")
    case True
    then have "first_index (\<lambda>e. pr_active e = 0) (pt_entries t) \<noteq> None"
      by (simp add: first_index_None has_capacity_def list_ex_iff)
    with True nz show ?thesis by (auto simp: pending_alloc_def Let_def)
  next
    case False
    with pending_alloc_full show ?thesis by simp
  qed
  with le show ?thesis using pending_count_card [OF assms] has_capacity_count [of t] by auto
qed

theorem pending_count_correct_witness:
  "pending_count (PendingTable_new 3) = card (dom (outstanding (PendingTable_new 3)))"
  using pending_count_correct [OF pending_new_wf(1)] by blast

text \<open>Fact: The nearest deadline is the least deadline set on an active entry, and the maximal
  value if there is none.\<close>

theorem nearest_deadline_least:
  "(\<forall>e\<in>set (iter_active t). pr_deadline_ns e \<noteq> 0 \<longrightarrow> nearest_deadline t \<le> pr_deadline_ns e) \<and>
   (nearest_deadline t = - 1 \<or>
    (\<exists>e\<in>set (iter_active t). pr_deadline_ns e \<noteq> 0 \<and> nearest_deadline t = pr_deadline_ns e))"
  using nearest_deadline_fold [of "pt_entries t" "- 1"]
  by (auto simp: nearest_deadline_def iter_active_def)

theorem nearest_deadline_least_witness:
  "nearest_deadline
     \<lparr>pt_entries = [PendingRequest_zeroed\<lparr>pr_active := 1, pr_deadline_ns := 9\<rparr>,
                    PendingRequest_zeroed\<lparr>pr_active := 1, pr_deadline_ns := 5\<rparr>],
      pt_next_id = 3\<rparr> \<le> 5"
proof -
  let ?e = "PendingRequest_zeroed\<lparr>pr_active := 1, pr_deadline_ns := 5\<rparr>"
  let ?t = "\<lparr>pt_entries = [PendingRequest_zeroed\<lparr>pr_active := 1, pr_deadline_ns := 9\<rparr>, ?e], pt_next_id = 3\<rparr>"
  have "?e \<in> set (iter_active ?t)" by (simp add: iter_active_def)
  from nearest_deadline_least [THEN conjunct1, THEN bspec, OF this] show ?thesis by simp
qed

text \<open>C38: Identifiers are reused while still outstanding: with one request left open, the
  request opened after \<open>2 ^ 32 - 2\<close> others that were answered at once gets the same
  identifier, and answering by that identifier yields the old request.\<close>

theorem pending_id_reused:
  assumes "t = (short_request ^^ (2 ^ 32 - 2)) (snd (pending_alloc (PendingTable_new 2) r s b l w))"
    and "pending_alloc t r' s' b' l' w' = (rid, t')"
  shows "rid = 1 \<and> outstanding t 1 = Some (new_request r s b l w 1) \<and>
    fst (complete t' rid) = Some (new_request r s b l w 1)"
proof -
  let ?e = "new_request r s b l w 1"
  define n :: nat where "n = 4294967293"
  define t1 where "t1 = snd (pending_alloc (PendingTable_new 2) r s b l w)"
  have t1: "t1 = \<lparr>pt_entries = [?e, PendingRequest_zeroed], pt_next_id = 2\<rparr>"
    by (simp add: t1_def pending_alloc_def PendingTable_new_def first_index_def entry_update_def
        Let_def next_request_id_def numeral_2_eq_2)
  have "(2::nat) ^ 32 - 2 = Suc n" by (simp add: n_def)
  then have t: "t = t1\<lparr>pt_next_id := 1\<rparr>"
    using assms(1) short_requests_wrap [OF _ _ t1 n_def] by (simp add: t1_def)
  with assms(2) t1 have r: "rid = 1"
      and t': "pt_entries t' = [?e, new_request r' s' b' l' w' 1]"
    by (auto simp: pending_alloc_def first_index_def entry_update_def Let_def)
  have "fst (complete t' 1) = Some ?e"
    by (simp add: complete_def take_entry_def first_index_def t')
  moreover have "outstanding t 1 = Some ?e"
    by (simp add: outstanding_def find_by_id_def first_index_def t t1)
  ultimately show ?thesis using r by simp
qed

theorem pending_id_reused_witness:
  "fst (pending_alloc ((short_request ^^ (2 ^ 32 - 2)) (snd (pending_alloc (PendingTable_new 2) 3 4 5 6 Timer))) 7 7 7 7 Timer) = 1"
  using pending_id_reused [OF refl prod.collapse [symmetric]] by blast

end
