(* ===== verification/Memory.thy ===== *)
theory Memory
  imports Trona_Prelude
begin

text \<open>
  Byte-addressed memory for the code that works through raw pointers.  A region
  is a list of bytes, an address is an offset into it, and every access yields
  \<^const>\<open>None\<close> when it touches a byte outside the region; a function of the
  sources that dereferences pointers is modelled in the option monad, and its
  memory safety is the statement that the result is not \<^const>\<open>None\<close>.
  Multi-byte values are little-endian, as on both supported architectures.
\<close>

type_synonym mem = "u8 list"

section \<open>Reading and writing bytes\<close>

definition read_bytes :: "mem \<Rightarrow> nat \<Rightarrow> nat \<Rightarrow> u8 list option" where
  "read_bytes m a n = (if a + n \<le> length m then Some (take n (drop a m)) else None)"

definition read_u8 :: "mem \<Rightarrow> nat \<Rightarrow> u8 option" where
  "read_u8 m a = (if a < length m then Some (m ! a) else None)"

definition write_bytes :: "mem \<Rightarrow> nat \<Rightarrow> u8 list \<Rightarrow> mem option" where
  "write_bytes m a bs =
     (if a + length bs \<le> length m then Some (take a m @ bs @ drop (a + length bs) m) else None)"

text \<open>\<open>copy_from_slice\<close> into a part of a buffer.\<close>

definition put_slice :: "u8 list \<Rightarrow> nat \<Rightarrow> u8 list \<Rightarrow> u8 list" where
  "put_slice dst a bs = take a dst @ bs @ drop (a + length bs) dst"

section \<open>Little-endian words\<close>

primrec le_bytes :: "nat \<Rightarrow> 'a::len word \<Rightarrow> u8 list" where
  "le_bytes 0 w = []"
| "le_bytes (Suc n) w = ucast w # le_bytes n (drop_bit 8 w)"

primrec le_word :: "u8 list \<Rightarrow> 'a::len word" where
  "le_word [] = 0"
| "le_word (b # bs) = ucast b OR push_bit 8 (le_word bs)"

definition le32 :: "u32 \<Rightarrow> u8 list" where
  "le32 w = le_bytes 4 w"

definition read_u16 :: "mem \<Rightarrow> nat \<Rightarrow> u16 option" where
  "read_u16 m a = map_option le_word (read_bytes m a 2)"

definition read_u32 :: "mem \<Rightarrow> nat \<Rightarrow> u32 option" where
  "read_u32 m a = map_option le_word (read_bytes m a 4)"

definition read_u64 :: "mem \<Rightarrow> nat \<Rightarrow> u64 option" where
  "read_u64 m a = map_option le_word (read_bytes m a 8)"

section \<open>Facts\<close>

lemma length_le_bytes [simp]: "length (le_bytes n w) = n"
  by (induction n arbitrary: w) simp_all

lemma length_le32 [simp]: "length (le32 w) = 4"
  by (simp add: le32_def)

lemma bit_le_word_le_bytes:
  fixes w :: "'a::len word"
  shows "bit (le_word (le_bytes n w) :: 'a word) i \<longleftrightarrow> i < 8 * n \<and> bit w i"
proof (induction n arbitrary: w i)
  case 0
  then show ?case by simp
next
  case (Suc n)
  show ?case
  proof (cases "i < LENGTH('a)")
    case True
    then show ?thesis
      by (cases "i < 8") (auto simp: Suc.IH bit_or_iff bit_push_bit_iff bit_unsigned_iff bit_drop_bit_eq)
  next
    case False
    then show ?thesis by (auto dest: bit_imp_le_length)
  qed
qed

lemma le_word_le_bytes:
  fixes w :: "'a::len word"
  assumes "LENGTH('a) \<le> 8 * n"
  shows "le_word (le_bytes n w) = w"
  using assms by (intro bit_word_eqI) (simp add: bit_le_word_le_bytes)

lemma le_word_le32 [simp]: "le_word (le32 w) = w"
  unfolding le32_def by (rule le_word_le_bytes) simp

lemma write_bytes_Some:
  "write_bytes m a bs = Some m' \<longleftrightarrow>
     a + length bs \<le> length m \<and> m' = take a m @ bs @ drop (a + length bs) m"
  by (auto simp: write_bytes_def)

lemma write_bytes_length: "write_bytes m a bs = Some m' \<Longrightarrow> length m' = length m"
  by (auto simp: write_bytes_Some)

lemma read_write_same:
  assumes "write_bytes m a bs = Some m'"
  shows "read_bytes m' a (length bs) = Some bs"
  using assms by (auto simp: write_bytes_Some read_bytes_def)

lemma read_write_disjoint:
  assumes w: "write_bytes m a bs = Some m'" and d: "b + n \<le> a \<or> a + length bs \<le> b"
  shows "read_bytes m' b n = read_bytes m b n"
proof (cases "b + n \<le> length m")
  case False
  with write_bytes_length [OF w] show ?thesis by (simp add: read_bytes_def)
next
  case True
  have m': "m' = take a m @ bs @ drop (a + length bs) m" and le: "a + length bs \<le> length m"
    using w by (auto simp: write_bytes_Some)
  have "take n (drop b m') = take n (drop b m)"
  proof (rule nth_equalityI)
    show "length (take n (drop b m')) = length (take n (drop b m))"
      using write_bytes_length [OF w] by simp
    fix i assume "i < length (take n (drop b m'))"
    with True have i: "i < n" "b + i < length m" using write_bytes_length [OF w] by simp_all
    with d le show "take n (drop b m') ! i = take n (drop b m) ! i"
      using write_bytes_length [OF w] by (auto simp: m' nth_append)
  qed
  with True write_bytes_length [OF w] show ?thesis by (simp add: read_bytes_def)
qed

lemma read_bytes_split:
  "read_bytes m a (n + k) = Some bs \<Longrightarrow>
     read_bytes m a n = Some (take n bs) \<and> read_bytes m (a + n) k = Some (drop n bs)"
  by (auto simp: read_bytes_def take_drop ac_simps split: if_splits)

lemma read_bytes_length: "read_bytes m a n = Some bs \<Longrightarrow> length bs = n"
  by (auto simp: read_bytes_def split: if_splits)

end
