(* ===== verification/Cap_Table.thy ===== *)
theory Cap_Table
  imports Memory Kernel_Abi
begin

text \<open>
  The startup capability table, \<^verbatim>\<open>substrate/cap_table.rs\<close>: the builder with which a
  spawner serialises (role, slot) pairs into a page of the child, and the
  reader with which the child finds them and installs the well-known ones in
  the \<open>__trona_cap_*\<close> symbols.  A table pointer is an address in memory,
  \<^const>\<open>None\<close> when null; reading outside memory is the outer \<^const>\<open>None\<close> of the
  result.
\<close>

section \<open>Data\<close>

abbreviation (input) MAX_CAP_TABLE_ENTRIES :: nat where "MAX_CAP_TABLE_ENTRIES \<equiv> 32"
abbreviation (input) HEADER_SIZE :: nat where "HEADER_SIZE \<equiv> 16"
abbreviation (input) ENTRY_SIZE :: nat where "ENTRY_SIZE \<equiv> 16"

record TronaCapEntryV1 =
  ce_role_id :: u32
  ce_slot :: u32
  ce_rights :: u32
  ce_flags :: u32

definition TronaCapEntryV1_zeroed :: TronaCapEntryV1 where
  "TronaCapEntryV1_zeroed = \<lparr>ce_role_id = 0, ce_slot = 0, ce_rights = 0, ce_flags = 0\<rparr>"

record TronaCapTableV1 =
  ct_magic :: u32
  ct_version :: u32
  ct_count :: u32
  ct_reserved :: u32

datatype CapTableErr = Overflow | SlotOutOfRange

record CapTableBuilder =
  cb_entries :: "TronaCapEntryV1 list"
  cb_count :: nat

section \<open>Memory layout\<close>

definition entry_bytes :: "TronaCapEntryV1 \<Rightarrow> u8 list" where
  "entry_bytes e = le32 (ce_role_id e) @ le32 (ce_slot e) @ le32 (ce_rights e) @ le32 (ce_flags e)"

definition header_bytes :: "TronaCapTableV1 \<Rightarrow> u8 list" where
  "header_bytes h = le32 (ct_magic h) @ le32 (ct_version h) @ le32 (ct_count h) @ le32 (ct_reserved h)"

definition read_entry :: "mem \<Rightarrow> nat \<Rightarrow> TronaCapEntryV1 option" where
  "read_entry m a =
     do { r \<leftarrow> read_u32 m a; s \<leftarrow> read_u32 m (a + 4); g \<leftarrow> read_u32 m (a + 8); f \<leftarrow> read_u32 m (a + 12);
          Some \<lparr>ce_role_id = r, ce_slot = s, ce_rights = g, ce_flags = f\<rparr> }"

definition read_header :: "mem \<Rightarrow> nat \<Rightarrow> TronaCapTableV1 option" where
  "read_header m a =
     do { g \<leftarrow> read_u32 m a; v \<leftarrow> read_u32 m (a + 4); c \<leftarrow> read_u32 m (a + 8); r \<leftarrow> read_u32 m (a + 12);
          Some \<lparr>ct_magic = g, ct_version = v, ct_count = c, ct_reserved = r\<rparr> }"

section \<open>The builder\<close>

definition CapTableBuilder_new :: CapTableBuilder where
  "CapTableBuilder_new =
     \<lparr>cb_entries = replicate MAX_CAP_TABLE_ENTRIES TronaCapEntryV1_zeroed, cb_count = 0\<rparr>"

text \<open>A slot of 0 means that there is no such capability: it is skipped (with a diagnostic, left out here).\<close>

definition push ::
  "CapTableBuilder \<Rightarrow> u32 \<Rightarrow> u64 \<Rightarrow> u32 \<Rightarrow> u32 \<Rightarrow> (CapTableErr + unit) \<times> CapTableBuilder" where
  "push b role_id slot rights flags =
     (if slot = 0 then (Inr (), b)
      else if ucast (- 1 :: u32) < slot then (Inl SlotOutOfRange, b)
      else if MAX_CAP_TABLE_ENTRIES \<le> cb_count b then (Inl Overflow, b)
      else (Inr (), b\<lparr>cb_entries := (cb_entries b)[cb_count b :=
                        \<lparr>ce_role_id = role_id, ce_slot = ucast slot, ce_rights = rights,
                         ce_flags = flags\<rparr>],
                     cb_count := cb_count b + 1\<rparr>))"

definition byte_len :: "CapTableBuilder \<Rightarrow> nat" where
  "byte_len b = HEADER_SIZE + cb_count b * ENTRY_SIZE"

fun write_entries :: "CapTableBuilder \<Rightarrow> nat \<Rightarrow> nat list \<Rightarrow> mem \<Rightarrow> mem option" where
  "write_entries b entry_ptr [] m = Some m"
| "write_entries b entry_ptr (i # is) m =
     do { m' \<leftarrow> write_bytes m (entry_ptr + ENTRY_SIZE * i) (entry_bytes (cb_entries b ! i));
          write_entries b entry_ptr is m' }"

definition write_at :: "CapTableBuilder \<Rightarrow> nat \<Rightarrow> mem \<Rightarrow> (nat \<times> mem) option" where
  "write_at b scratch_addr m =
     (let header = \<lparr>ct_magic = TRONA_CAP_TABLE_MAGIC, ct_version = TRONA_CAP_TABLE_VERSION,
                    ct_count = of_nat (cb_count b), ct_reserved = 0\<rparr>
      in do { m1 \<leftarrow> write_bytes m scratch_addr (header_bytes header);
              m2 \<leftarrow> write_entries b (scratch_addr + HEADER_SIZE) [0..<cb_count b] m1;
              Some (byte_len b, m2) })"

section \<open>The reader\<close>

definition validate :: "mem \<Rightarrow> nat option \<Rightarrow> bool option" where
  "validate m table_ptr =
     (case table_ptr of
        None \<Rightarrow> Some False
      | Some a \<Rightarrow>
          do { h \<leftarrow> read_header m a;
               Some (ct_magic h = TRONA_CAP_TABLE_MAGIC \<and> ct_version h = TRONA_CAP_TABLE_VERSION) })"

fun lookup_from :: "mem \<Rightarrow> nat \<Rightarrow> u32 \<Rightarrow> nat list \<Rightarrow> TronaCapEntryV1 option option" where
  "lookup_from m entries role [] = Some None"
| "lookup_from m entries role (i # is) =
     do { e \<leftarrow> read_entry m (entries + ENTRY_SIZE * i);
          if ce_role_id e = role then Some (Some e) else lookup_from m entries role is }"

definition lookup :: "mem \<Rightarrow> nat option \<Rightarrow> u32 \<Rightarrow> TronaCapEntryV1 option option" where
  "lookup m table_ptr role =
     do { ok \<leftarrow> validate m table_ptr;
          if \<not> ok then Some None
          else do { h \<leftarrow> read_header m (the table_ptr);
                    lookup_from m (the table_ptr + HEADER_SIZE) role [0..<unat (ct_count h)] } }"

text \<open>The public weak symbols.\<close>

datatype cap_symbol =
    cap_procmgr_ep | cap_service_ep | cap_namesrv_ep | cap_vfs_ep | cap_mmsrv_ep | cap_rsrcsrv_ep
  | cap_console_ep | cap_signal_ntfn | cap_readiness_ntfn | cap_initrd_untyped | cap_fb_untyped
  | cap_pci_ioport | cap_com1_ioport | cspace_ntfn_sym | sc_cap_sym | cap_win32srv_ep

definition system_role_target :: "u32 \<Rightarrow> cap_symbol option" where
  "system_role_target role =
     (if role = ROLE_PROCMGR_CONTROL then Some cap_procmgr_ep
      else if role = ROLE_SERVICE_EP then Some cap_service_ep
      else if role = ROLE_NAMESRV_CLIENT then Some cap_namesrv_ep
      else if role = ROLE_VFS_CLIENT then Some cap_vfs_ep
      else if role = ROLE_MMSRV_CLIENT then Some cap_mmsrv_ep
      else if role = ROLE_RSRCSRV_CLIENT then Some cap_rsrcsrv_ep
      else if role = ROLE_CONSOLE_CLIENT then Some cap_console_ep
      else if role = ROLE_SIGNAL_NTFN then Some cap_signal_ntfn
      else if role = ROLE_READINESS_NTFN then Some cap_readiness_ntfn
      else if role = ROLE_INITRD_UNTYPED then Some cap_initrd_untyped
      else if role = ROLE_FB_UNTYPED then Some cap_fb_untyped
      else if role = ROLE_PCI_IOPORT then Some cap_pci_ioport
      else if role = ROLE_COM1_IOPORT then Some cap_com1_ioport
      else if role = ROLE_CSPACE_NTFN then Some cspace_ntfn_sym
      else if role = ROLE_SC_CAP then Some sc_cap_sym
      else if role = ROLE_WIN32SRV_CLIENT then Some cap_win32srv_ep
      else None)"

fun install_from :: "mem \<Rightarrow> nat \<Rightarrow> nat list \<Rightarrow> (cap_symbol \<Rightarrow> u64) \<Rightarrow> (cap_symbol \<Rightarrow> u64) option" where
  "install_from m entries [] syms = Some syms"
| "install_from m entries (i # is) syms =
     do { e \<leftarrow> read_entry m (entries + ENTRY_SIZE * i);
          install_from m entries is
            (case system_role_target (ce_role_id e) of
               Some target \<Rightarrow> syms(target := ucast (ce_slot e))
             | None \<Rightarrow> syms) }"

text \<open>
  The service-local hook \<open>__trona_svc_caps_install\<close> is a weak symbol whose strong
  definition is generated per service; it is the parameter \<open>hook\<close>, acting on
  service-local symbols only.
\<close>

definition install_well_known_caps ::
  "(nat \<Rightarrow> 's \<Rightarrow> 's) \<Rightarrow> mem \<Rightarrow> nat option \<Rightarrow> (cap_symbol \<Rightarrow> u64) \<Rightarrow> 's \<Rightarrow>
   (u32 \<times> (cap_symbol \<Rightarrow> u64) \<times> 's) option" where
  "install_well_known_caps hook m table_ptr syms svc =
     do { ok \<leftarrow> validate m table_ptr;
          if \<not> ok then Some (0, syms, svc)
          else do { h \<leftarrow> read_header m (the table_ptr);
                    syms' \<leftarrow> install_from m (the table_ptr + HEADER_SIZE) [0..<unat (ct_count h)] syms;
                    Some (ct_count h, syms', hook (the table_ptr) svc) } }"

text \<open>
  The auxiliary vector is an array of words; running past its end is \<^const>\<open>None\<close>.
  The result is the address of the table, 0 when absent.
\<close>

fun auxv_scan :: "u64 list \<Rightarrow> u64 option" where
  "auxv_scan [] = None"
| "auxv_scan (tag # rest) =
     (if tag = 0 then Some 0
      else case rest of
             [] \<Rightarrow> None
           | val # rest' \<Rightarrow>
               if tag = AT_TRONA_CAP_TABLE \<and> val \<noteq> 0 then Some val else auxv_scan rest')"

definition find_in_auxv :: "u64 list option \<Rightarrow> u64 option" where
  "find_in_auxv auxv = (case auxv of None \<Rightarrow> Some 0 | Some ws \<Rightarrow> auxv_scan ws)"

definition runtime_install_from_auxv ::
  "(nat \<Rightarrow> 's \<Rightarrow> 's) \<Rightarrow> mem \<Rightarrow> u64 list option \<Rightarrow> (cap_symbol \<Rightarrow> u64) \<Rightarrow> 's \<Rightarrow>
   (u32 \<times> (cap_symbol \<Rightarrow> u64) \<times> 's) option" where
  "runtime_install_from_auxv hook m auxv syms svc =
     do { table \<leftarrow> find_in_auxv auxv;
          if table = 0 then Some (0, syms, svc)
          else install_well_known_caps hook m (Some (unat table)) syms svc }"

section \<open>Specification\<close>

text \<open>The entries a builder holds, and a sequence of pushes.\<close>

definition built :: "CapTableBuilder \<Rightarrow> TronaCapEntryV1 list" where
  "built b = take (cb_count b) (cb_entries b)"

definition builder_wf :: "CapTableBuilder \<Rightarrow> bool" where
  "builder_wf b \<longleftrightarrow> length (cb_entries b) = MAX_CAP_TABLE_ENTRIES \<and> cb_count b \<le> MAX_CAP_TABLE_ENTRIES"

definition push_all ::
  "(u32 \<times> u64 \<times> u32 \<times> u32) list \<Rightarrow> CapTableBuilder \<Rightarrow> CapTableBuilder" where
  "push_all ps b = fold (\<lambda>(role, slot, rights, flags) b. snd (push b role slot rights flags)) ps b"

definition entry_of :: "u32 \<times> u64 \<times> u32 \<times> u32 \<Rightarrow> TronaCapEntryV1" where
  "entry_of = (\<lambda>(role, slot, rights, flags).
     \<lparr>ce_role_id = role, ce_slot = ucast slot, ce_rights = rights, ce_flags = flags\<rparr>)"

definition slot_of :: "u32 \<times> u64 \<times> u32 \<times> u32 \<Rightarrow> u64" where
  "slot_of = (\<lambda>(role, slot, rights, flags). slot)"

text \<open>Memory holds a list of entries from an address on.\<close>

definition holds_entries :: "mem \<Rightarrow> nat \<Rightarrow> TronaCapEntryV1 list \<Rightarrow> bool" where
  "holds_entries m a es \<longleftrightarrow> (\<forall>i<length es. read_entry m (a + ENTRY_SIZE * i) = Some (es ! i))"

text \<open>The last entry of a list with a role.\<close>

definition last_with_role :: "TronaCapEntryV1 list \<Rightarrow> u32 \<Rightarrow> TronaCapEntryV1 option" where
  "last_with_role es role = find (\<lambda>e. ce_role_id e = role) (rev es)"

section \<open>Reading back what was written\<close>

lemma length_entry_bytes [simp]: "length (entry_bytes e) = 16"
  by (simp add: entry_bytes_def)

lemma length_header_bytes [simp]: "length (header_bytes h) = 16"
  by (simp add: header_bytes_def)

lemma read_four_words:
  assumes "read_bytes m a 16 = Some (le32 w0 @ le32 w1 @ le32 w2 @ le32 w3)"
  shows "read_u32 m a = Some w0" "read_u32 m (a + 4) = Some w1"
    "read_u32 m (a + 8) = Some w2" "read_u32 m (a + 12) = Some w3"
proof -
  have r1: "read_bytes m a 4 = Some (le32 w0)"
      "read_bytes m (a + 4) 12 = Some (le32 w1 @ le32 w2 @ le32 w3)"
    using read_bytes_split [of m a 4 12] assms by simp_all
  have r2: "read_bytes m (a + 4) 4 = Some (le32 w1)" "read_bytes m (a + 8) 8 = Some (le32 w2 @ le32 w3)"
    using read_bytes_split [of m "a + 4" 4 8] r1 by (simp_all add: ac_simps)
  have r3: "read_bytes m (a + 8) 4 = Some (le32 w2)" "read_bytes m (a + 12) 4 = Some (le32 w3)"
    using read_bytes_split [of m "a + 8" 4 4] r2 by (simp_all add: ac_simps)
  from r1 r2 r3 show "read_u32 m a = Some w0" "read_u32 m (a + 4) = Some w1"
    "read_u32 m (a + 8) = Some w2" "read_u32 m (a + 12) = Some w3"
    by (simp_all add: read_u32_def)
qed

lemma read_entry_bytes:
  "read_bytes m a 16 = Some (entry_bytes e) \<Longrightarrow> read_entry m a = Some e"
  using read_four_words [of m a] by (simp add: read_entry_def entry_bytes_def)

lemma read_header_bytes:
  "read_bytes m a 16 = Some (header_bytes h) \<Longrightarrow> read_header m a = Some h"
  using read_four_words [of m a] by (simp add: read_header_def header_bytes_def)

lemma write_entries_frame:
  assumes "write_entries b p is m = Some m'"
    and "\<And>i. i \<in> set is \<Longrightarrow> a + n \<le> p + 16 * i \<or> p + 16 * i + 16 \<le> a"
  shows "read_bytes m' a n = read_bytes m a n \<and> length m' = length m"
  using assms
proof (induction "is" arbitrary: m)
  case Nil
  then show ?case by simp
next
  case (Cons i "is")
  from Cons.prems(1) obtain m1
    where w: "write_bytes m (p + 16 * i) (entry_bytes (cb_entries b ! i)) = Some m1"
      and r: "write_entries b p is m1 = Some m'"
    by (auto simp: bind_eq_Some_conv)
  from Cons.prems(2) have "a + n \<le> p + 16 * i \<or> p + 16 * i + 16 \<le> a" by simp
  with read_write_disjoint [OF w, of a n] have "read_bytes m1 a n = read_bytes m a n" by simp
  with Cons.IH [OF r] Cons.prems(2) write_bytes_length [OF w] show ?case by simp
qed

lemma write_entries_spec:
  assumes "write_entries b p is m = Some m'" "distinct is" "i \<in> set is"
  shows "read_entry m' (p + 16 * i) = Some (cb_entries b ! i)"
  using assms
proof (induction "is" arbitrary: m)
  case Nil
  then show ?case by simp
next
  case (Cons k "is")
  from Cons.prems(1) obtain m1
    where w: "write_bytes m (p + 16 * k) (entry_bytes (cb_entries b ! k)) = Some m1"
      and r: "write_entries b p is m1 = Some m'"
    by (auto simp: bind_eq_Some_conv)
  show ?case
  proof (cases "i = k")
    case False
    with Cons.IH [OF r] Cons.prems(2,3) show ?thesis by simp
  next
    case True
    have "read_bytes m' (p + 16 * k) 16 = read_bytes m1 (p + 16 * k) 16"
    proof (rule conjunct1 [OF write_entries_frame [OF r]])
      fix j assume "j \<in> set is"
      then have "j \<noteq> k" using Cons.prems(2) by auto
      then show "p + 16 * k + 16 \<le> p + 16 * j \<or> p + 16 * j + 16 \<le> p + 16 * k" by linarith
    qed
    with read_write_same [OF w] have "read_bytes m' (p + 16 * k) 16 = Some (entry_bytes (cb_entries b ! k))"
      by simp
    then show ?thesis using True read_entry_bytes by simp
  qed
qed

lemma write_entries_total:
  assumes "\<And>i. i \<in> set is \<Longrightarrow> p + 16 * i + 16 \<le> length m"
  shows "\<exists>m'. write_entries b p is m = Some m'"
  using assms
proof (induction "is" arbitrary: m)
  case Nil
  then show ?case by simp
next
  case (Cons i "is")
  then obtain m1 where w: "write_bytes m (p + 16 * i) (entry_bytes (cb_entries b ! i)) = Some m1"
    by (force simp: write_bytes_def)
  with Cons.IH [of m1] Cons.prems write_bytes_length [OF w] show ?case by auto
qed

lemma write_at_spec:
  assumes wf: "builder_wf b" and fit: "addr + byte_len b \<le> length m"
  obtains m' where "write_at b addr m = Some (byte_len b, m')" "length m' = length m"
    "read_header m' addr = Some \<lparr>ct_magic = TRONA_CAP_TABLE_MAGIC,
       ct_version = TRONA_CAP_TABLE_VERSION, ct_count = of_nat (cb_count b), ct_reserved = 0\<rparr>"
    "holds_entries m' (addr + 16) (built b)"
    "\<And>a n. a + n \<le> addr \<or> addr + byte_len b \<le> a \<Longrightarrow> read_bytes m' a n = read_bytes m a n"
proof -
  define h where "h = \<lparr>ct_magic = TRONA_CAP_TABLE_MAGIC, ct_version = TRONA_CAP_TABLE_VERSION,
      ct_count = of_nat (cb_count b), ct_reserved = 0\<rparr>"
  obtain m1 where w1: "write_bytes m addr (header_bytes h) = Some m1"
    using fit by (force simp: write_bytes_def byte_len_def)
  have "p + 16 * i + 16 \<le> length m1" if "i \<in> set [0..<cb_count b]" "p = addr + 16" for i p
    using that fit write_bytes_length [OF w1] by (simp add: byte_len_def)
  then obtain m' where w2: "write_entries b (addr + 16) [0..<cb_count b] m1 = Some m'"
    using write_entries_total [of "[0..<cb_count b]" "addr + 16" m1 b] by blast
  show thesis
  proof (rule that [of m'])
    show "write_at b addr m = Some (byte_len b, m')"
      using w1 w2 by (simp add: write_at_def h_def)
    show "length m' = length m"
      using write_entries_frame [OF w2, of 0 0] write_bytes_length [OF w1] by simp
    have "read_bytes m' addr 16 = Some (header_bytes h)"
      using write_entries_frame [OF w2, of addr 16] read_write_same [OF w1] by simp
    then show "read_header m' addr = Some \<lparr>ct_magic = TRONA_CAP_TABLE_MAGIC,
       ct_version = TRONA_CAP_TABLE_VERSION, ct_count = of_nat (cb_count b), ct_reserved = 0\<rparr>"
      using read_header_bytes [of m' addr h] by (simp add: h_def)
    show "holds_entries m' (addr + 16) (built b)"
      using write_entries_spec [OF w2] wf by (auto simp: holds_entries_def built_def builder_wf_def)
    fix a n assume a: "a + n \<le> addr \<or> addr + byte_len b \<le> a"
    have "read_bytes m' a n = read_bytes m1 a n"
      using a by (intro conjunct1 [OF write_entries_frame [OF w2]]) (auto simp: byte_len_def)
    also have "\<dots> = read_bytes m a n"
      using a by (intro read_write_disjoint [OF w1]) (auto simp: byte_len_def)
    finally show "read_bytes m' a n = read_bytes m a n" .
  qed
qed

section \<open>Lookup and installation\<close>

lemma holds_entries_Cons:
  "holds_entries m a (e # es) \<longleftrightarrow> read_entry m a = Some e \<and> holds_entries m (a + 16) es"
  by (auto simp: holds_entries_def All_less_Suc2 add.assoc)

lemma lookup_from_eq:
  assumes "holds_entries m a es"
  shows "lookup_from m a role [0..<length es] = Some (find (\<lambda>e. ce_role_id e = role) es)"
proof -
  have "lookup_from m a role [k..<length es] = Some (find (\<lambda>e. ce_role_id e = role) (drop k es))"
    if "k \<le> length es" for k
    using that
  proof (induction "length es - k" arbitrary: k)
    case 0
    then show ?case by simp
  next
    case (Suc n)
    then have k: "k < length es" by simp
    then have "[k..<length es] = k # [Suc k..<length es]" "drop k es = es ! k # drop (Suc k) es"
      by (simp_all add: upt_conv_Cons Cons_nth_drop_Suc)
    with Suc k assms show ?case by (simp add: holds_entries_def)
  qed
  from this [of 0] show ?thesis by simp
qed

lemma system_role_target_inj:
  "system_role_target r = Some s \<Longrightarrow> system_role_target r' = Some s \<Longrightarrow> r = r'"
  by (auto simp: system_role_target_def split: if_splits)

lemma last_with_role_snoc:
  "last_with_role (es @ [e]) role = (if ce_role_id e = role then Some e else last_with_role es role)"
  by (simp add: last_with_role_def)

lemma install_from_append:
  "install_from m a (is @ js) syms = do { s \<leftarrow> install_from m a is syms; install_from m a js s }"
  by (induction "is" arbitrary: syms) (auto split: bind_split)

lemma install_from_eq:
  assumes "holds_entries m a es" "k \<le> length es"
  shows "\<exists>syms'. install_from m a [0..<k] syms = Some syms' \<and>
    (\<forall>role s. system_role_target role = Some s \<longrightarrow>
       syms' s = (case last_with_role (take k es) role of Some e \<Rightarrow> ucast (ce_slot e) | None \<Rightarrow> syms s))"
  using assms(2)
proof (induction k)
  case 0
  then show ?case by (simp add: last_with_role_def)
next
  case (Suc k)
  then obtain s1 where s1: "install_from m a [0..<k] syms = Some s1"
    and IH: "\<And>role s. system_role_target role = Some s \<Longrightarrow>
       s1 s = (case last_with_role (take k es) role of Some e \<Rightarrow> ucast (ce_slot e) | None \<Rightarrow> syms s)"
    by auto
  have rd: "read_entry m (a + 16 * k) = Some (es ! k)"
    using assms(1) Suc.prems by (simp add: holds_entries_def)
  have tk: "take (Suc k) es = take k es @ [es ! k]"
    using Suc.prems by (simp add: take_Suc_conv_app_nth)
  define s2 where "s2 = (case system_role_target (ce_role_id (es ! k)) of
      Some target \<Rightarrow> s1(target := ucast (ce_slot (es ! k))) | None \<Rightarrow> s1)"
  have "install_from m a [0..<Suc k] syms = Some s2"
    using s1 rd by (simp add: install_from_append s2_def)
  moreover have "s2 s = (case last_with_role (take (Suc k) es) role of Some e \<Rightarrow> ucast (ce_slot e) | None \<Rightarrow> syms s)"
    if "system_role_target role = Some s" for role s
  proof (cases "ce_role_id (es ! k) = role")
    case True
    with that show ?thesis by (simp add: s2_def tk last_with_role_snoc)
  next
    case False
    then have "s2 s = s1 s"
      using that system_role_target_inj [of role s "ce_role_id (es ! k)"]
      by (auto simp: s2_def split: option.splits)
    with False IH [OF that] show ?thesis by (simp add: tk last_with_role_snoc)
  qed
  ultimately show ?case by blast
qed

section \<open>Pushing\<close>

lemma push_ok:
  assumes wf: "builder_wf b" and "slot \<noteq> 0" "unat slot < 2 ^ 32" "cb_count b < 32"
  shows "fst (push b role slot rights flags) = Inr ()"
    "builder_wf (snd (push b role slot rights flags))"
    "built (snd (push b role slot rights flags)) = built b @ [entry_of (role, slot, rights, flags)]"
    "cb_count (snd (push b role slot rights flags)) = Suc (cb_count b)"
proof -
  have "\<not> ucast (- 1 :: u32) < slot"
    using assms(3) by (simp add: word_less_nat_alt unat_max32 unsigned_ucast_eq)
  with assms show "fst (push b role slot rights flags) = Inr ()"
    "builder_wf (snd (push b role slot rights flags))"
    "built (snd (push b role slot rights flags)) = built b @ [entry_of (role, slot, rights, flags)]"
    "cb_count (snd (push b role slot rights flags)) = Suc (cb_count b)"
    by (simp_all add: push_def builder_wf_def built_def entry_of_def take_Suc_conv_app_nth)
qed

lemma push_all_built:
  assumes "builder_wf b" "\<And>p. p \<in> set ps \<Longrightarrow> unat (slot_of p) < 2 ^ 32"
    "cb_count b + length (filter (\<lambda>p. slot_of p \<noteq> 0) ps) \<le> 32"
  shows "builder_wf (push_all ps b) \<and>
    built (push_all ps b) = built b @ map entry_of (filter (\<lambda>p. slot_of p \<noteq> 0) ps) \<and>
    cb_count (push_all ps b) = cb_count b + length (filter (\<lambda>p. slot_of p \<noteq> 0) ps)"
  using assms
proof (induction ps arbitrary: b)
  case Nil
  then show ?case by (simp add: push_all_def)
next
  case (Cons p ps)
  obtain role slot rights flags where p: "p = (role, slot, rights, flags)" by (cases p)
  let ?b = "snd (push b role slot rights flags)"
  have all: "push_all (p # ps) b = push_all ps ?b" by (simp add: push_all_def p)
  show ?case
  proof (cases "slot = 0")
    case True
    then have "?b = b" by (simp add: push_def)
    with Cons True all show ?thesis by (simp add: p slot_of_def)
  next
    case False
    have sl: "slot_of p = slot" by (simp add: p slot_of_def)
    have "cb_count b < 32" using Cons.prems(3) False sl by simp
    moreover have "unat slot < 2 ^ 32" using Cons.prems(2) [of p] sl by simp
    ultimately have b: "builder_wf ?b" "built ?b = built b @ [entry_of p]" "cb_count ?b = Suc (cb_count b)"
      using push_ok [OF Cons.prems(1) False] by (simp_all add: p)
    have "builder_wf (push_all ps ?b) \<and>
      built (push_all ps ?b) = built ?b @ map entry_of (filter (\<lambda>p. slot_of p \<noteq> 0) ps) \<and>
      cb_count (push_all ps ?b) = cb_count ?b + length (filter (\<lambda>p. slot_of p \<noteq> 0) ps)"
      by (rule Cons.IH) (use Cons.prems b False sl in auto)
    with b False sl all show ?thesis by simp
  qed
qed

lemma builder_new_wf: "builder_wf CapTableBuilder_new" "built CapTableBuilder_new = []"
  "cb_count CapTableBuilder_new = 0"
  by (simp_all add: builder_wf_def CapTableBuilder_new_def built_def)

lemma built_length: "builder_wf b \<Longrightarrow> length (built b) = cb_count b"
  by (simp add: built_def builder_wf_def)

lemma validate_header:
  assumes "read_header m a = Some h" "ct_magic h = TRONA_CAP_TABLE_MAGIC"
    "ct_version h = TRONA_CAP_TABLE_VERSION"
  shows "validate m (Some a) = Some True"
  using assms by (simp add: validate_def)

lemma find_distinct_roles:
  assumes "distinct (map ce_role_id es)"
  shows "last_with_role es role = find (\<lambda>e. ce_role_id e = role) es"
  using assms
proof (induction es)
  case Nil
  then show ?case by (simp add: last_with_role_def)
next
  case (Cons e es)
  have none: "find (\<lambda>e. ce_role_id e = role) (rev es) = None" if "ce_role_id e = role"
    using Cons.prems that by (auto simp: find_None_iff image_iff)
  have app: "find P (xs @ ys) = (case find P xs of Some x \<Rightarrow> Some x | None \<Rightarrow> find P ys)"
    for P and xs ys :: "TronaCapEntryV1 list"
    by (induction xs) auto
  show ?case
    using Cons none by (auto simp: last_with_role_def app split: option.splits)
qed

lemma find_map_entry:
  "find (\<lambda>e. ce_role_id e = role) (map entry_of qs) = map_option entry_of (find (\<lambda>p. fst p = role) qs)"
  by (induction qs) (auto simp: entry_of_def)

lemma find_filter_conj: "find P (filter Q xs) = find (\<lambda>x. P x \<and> Q x) xs"
  by (induction xs) auto

lemma find_set: "find P xs = Some x \<Longrightarrow> x \<in> set xs"
  by (induction xs) (auto split: if_splits)

lemma entry_slot:
  assumes "unat (slot_of p) < 2 ^ 32"
  shows "ucast (ce_slot (entry_of p)) = slot_of p"
proof -
  have "ucast (ucast (slot_of p) :: u32) = slot_of p"
    using assms bit_unat_less [OF assms] by (auto intro!: bit_word_eqI simp: bit_simps dest: bit_unat_less)
  then show ?thesis by (simp add: entry_of_def slot_of_def case_prod_beta)
qed

section \<open>Properties\<close>

text \<open>C23: Serialising a table and reading it back: if the region is large enough, the write
  stays inside it and changes nothing else, the written table validates, and a lookup returns
  the first entry pushed under the role, or nothing, without reading outside memory.\<close>

theorem cap_table_round_trip:
  assumes "builder_wf b" and "addr + byte_len b \<le> length m"
  shows "\<exists>m'. write_at b addr m = Some (byte_len b, m') \<and> length m' = length m \<and>
    (\<forall>a n. a + n \<le> addr \<or> addr + byte_len b \<le> a \<longrightarrow> read_bytes m' a n = read_bytes m a n) \<and>
    validate m' (Some addr) = Some True \<and>
    (\<forall>role. lookup m' (Some addr) role = Some (find (\<lambda>e. ce_role_id e = role) (built b)))"
proof -
  obtain m' where m': "write_at b addr m = Some (byte_len b, m')" "length m' = length m"
    and h: "read_header m' addr = Some \<lparr>ct_magic = TRONA_CAP_TABLE_MAGIC,
       ct_version = TRONA_CAP_TABLE_VERSION, ct_count = of_nat (cb_count b), ct_reserved = 0\<rparr>"
    and e: "holds_entries m' (addr + 16) (built b)"
    and fr: "\<And>a n. a + n \<le> addr \<or> addr + byte_len b \<le> a \<Longrightarrow> read_bytes m' a n = read_bytes m a n"
    using write_at_spec [OF assms] by metis
  have v: "validate m' (Some addr) = Some True" by (rule validate_header [OF h]) simp_all
  have "cb_count b < 4294967296" using assms(1) by (simp add: builder_wf_def)
  then have cnt: "unat (of_nat (cb_count b) :: u32) = length (built b)"
    using built_length [OF assms(1)] by (simp add: unat_of_nat_lt32)
  have "lookup m' (Some addr) role = Some (find (\<lambda>e. ce_role_id e = role) (built b))" for role
    using v h lookup_from_eq [OF e, of role] by (simp add: lookup_def cnt)
  with m' fr v show ?thesis by blast
qed

theorem cap_table_round_trip_witness:
  "\<exists>m'. write_at (snd (push CapTableBuilder_new 4 77 1 0)) 8 (replicate 64 0) = Some (32, m') \<and>
    lookup m' (Some 8) 4 = Some (Some \<lparr>ce_role_id = 4, ce_slot = 77, ce_rights = 1, ce_flags = 0\<rparr>)"
proof -
  let ?b = "snd (push CapTableBuilder_new 4 77 1 0)"
  note b = push_ok [OF builder_new_wf(1), of 77 4 1 0, unfolded builder_new_wf, simplified]
  have len: "byte_len ?b = 32" using b(4) by (simp add: byte_len_def)
  have blt: "built ?b = [\<lparr>ce_role_id = 4, ce_slot = 77, ce_rights = 1, ce_flags = 0\<rparr>]"
    using b(3) by (simp add: entry_of_def)
  from cap_table_round_trip [OF b(2), of 8 "replicate 64 0"] show ?thesis by (auto simp: len blt)
qed

text \<open>C24: End to end delivery: capabilities pushed by the spawner under different roles, with
  slot numbers that fit 32 bits, written at an address of memory and announced in the auxiliary
  vector, arrive at startup in the symbols of the child: every public role holds its slot, and a
  public role that was not pushed (or was pushed with slot 0) keeps its previous value.\<close>

theorem cap_delivery:
  assumes "\<And>p. p \<in> set ps \<Longrightarrow> unat (slot_of p) < 2 ^ 32"
    and "length (filter (\<lambda>p. slot_of p \<noteq> 0) ps) \<le> 32"
    and "distinct (map (\<lambda>p. fst p) (filter (\<lambda>p. slot_of p \<noteq> 0) ps))"
    and "b = push_all ps CapTableBuilder_new"
    and "unat addr + byte_len b \<le> length m" and "addr \<noteq> 0"
    and "write_at b (unat addr) m = Some (n, m')"
    and "find_in_auxv auxv = Some addr"
  shows "\<exists>syms'. runtime_install_from_auxv hook m' auxv syms svc =
      Some (of_nat (length (filter (\<lambda>p. slot_of p \<noteq> 0) ps)), syms', hook (unat addr) svc) \<and>
    (\<forall>role s. system_role_target role = Some s \<longrightarrow>
       syms' s = (case find (\<lambda>p. fst p = role \<and> slot_of p \<noteq> 0) ps of
                    Some p \<Rightarrow> slot_of p | None \<Rightarrow> syms s))"
proof -
  let ?qs = "filter (\<lambda>p. slot_of p \<noteq> 0) ps"
  have b: "builder_wf b" "built b = map entry_of ?qs" "cb_count b = length ?qs"
    using push_all_built [OF builder_new_wf(1) assms(1), of ps] assms(2,4)
    by (simp_all add: builder_new_wf)
  obtain m1 where m1: "write_at b (unat addr) m = Some (byte_len b, m1)"
    and h: "read_header m1 (unat addr) = Some \<lparr>ct_magic = TRONA_CAP_TABLE_MAGIC,
       ct_version = TRONA_CAP_TABLE_VERSION, ct_count = of_nat (cb_count b), ct_reserved = 0\<rparr>"
    and e: "holds_entries m1 (unat addr + 16) (built b)"
    using write_at_spec [OF b(1) assms(5)] by metis
  have m': "m' = m1" using m1 assms(7) by simp
  have v: "validate m1 (Some (unat addr)) = Some True" by (rule validate_header [OF h]) simp_all
  have cnt: "unat (of_nat (cb_count b) :: u32) = length (built b)"
    using built_length [OF b(1)] assms(2) b(3) by (simp add: unat_of_nat_lt32)
  obtain syms' where i: "install_from m1 (unat addr + 16) [0..<length (built b)] syms = Some syms'"
    and s: "\<And>role s. system_role_target role = Some s \<Longrightarrow>
       syms' s = (case last_with_role (built b) role of Some e \<Rightarrow> ucast (ce_slot e) | None \<Rightarrow> syms s)"
    using install_from_eq [OF e order.refl, of syms] by auto
  have run: "runtime_install_from_auxv hook m' auxv syms svc =
      Some (of_nat (length ?qs), syms', hook (unat addr) svc)"
    using assms(6,8) v h i
    by (simp add: runtime_install_from_auxv_def install_well_known_caps_def m' cnt [unfolded b(3)] b(3))
  have "map ce_role_id (built b) = map fst ?qs" using b(2) by (simp add: entry_of_def case_prod_beta)
  then have dist: "distinct (map ce_role_id (built b))" using assms(3) by simp
  have last: "last_with_role (built b) role = map_option entry_of (find (\<lambda>p. fst p = role) ?qs)" for role
    by (rule trans [OF find_distinct_roles [OF dist]]) (simp only: b(2) find_map_entry)
  have val: "(case last_with_role (built b) role of Some e \<Rightarrow> ucast (ce_slot e) | None \<Rightarrow> syms s) =
      (case find (\<lambda>p. fst p = role \<and> slot_of p \<noteq> 0) ps of Some p \<Rightarrow> slot_of p | None \<Rightarrow> syms s)" for role s
    unfolding last find_filter_conj
    by (auto split: option.split dest!: find_set intro!: entry_slot assms(1))
  show ?thesis using run s val by auto
qed

theorem cap_delivery_witness:
  "\<exists>m' syms'. runtime_install_from_auxv (\<lambda>_ s. s) m' (Some [0x101C, 8, 0, 0]) (\<lambda>_. 0) () = Some (1, syms', ()) \<and>
     syms' cap_vfs_ep = 77 \<and> syms' cap_mmsrv_ep = 0"
proof -
  let ?ps = "[(4, 77, 1, 0), (5, 0, 1, 0)] :: (u32 \<times> u64 \<times> u32 \<times> u32) list"
  let ?b = "push_all ?ps CapTableBuilder_new"
  have slots: "unat (slot_of p) < 2 ^ 32" if "p \<in> set ?ps" for p
    using that by (auto simp: slot_of_def)
  have flt: "filter (\<lambda>p. slot_of p \<noteq> 0) ?ps = [(4, 77, 1, 0)]" by (simp add: slot_of_def)
  have cnt: "cb_count ?b = 1" "builder_wf ?b"
    using push_all_built [OF builder_new_wf(1) slots, of ?ps]
    unfolding flt by (simp_all add: builder_new_wf)
  have len: "byte_len ?b = 32" using cnt by (simp add: byte_len_def)
  obtain m' where w: "write_at ?b (unat (8 :: u64)) (replicate 64 0) = Some (byte_len ?b, m')"
  proof -
    have "unat (8 :: u64) + byte_len ?b \<le> length (replicate 64 0 :: mem)" by (simp add: len)
    from write_at_spec [OF cnt(2) this] that show thesis by metis
  qed
  have aux: "find_in_auxv (Some [0x101C, 8, 0, 0]) = Some 8" by (simp add: find_in_auxv_def)
  from cap_delivery [OF slots _ _ refl _ _ w aux, of "\<lambda>_ s. s" "\<lambda>_. 0" "()", unfolded flt len]
  obtain syms' where "runtime_install_from_auxv (\<lambda>_ s. s) m' (Some [0x101C, 8, 0, 0]) (\<lambda>_. 0) () = Some (1, syms', ())"
    and s: "\<And>role s. system_role_target role = Some s \<Longrightarrow>
       syms' s = (case find (\<lambda>p. fst p = role \<and> slot_of p \<noteq> 0) ?ps of Some p \<Rightarrow> slot_of p | None \<Rightarrow> 0)"
    by auto
  moreover have "syms' cap_vfs_ep = 77"
    using s [of 4 cap_vfs_ep] by (simp add: system_role_target_def slot_of_def)
  moreover have "syms' cap_mmsrv_ep = 0"
    using s [of 5 cap_mmsrv_ep] by (simp add: system_role_target_def slot_of_def)
  ultimately show ?thesis by blast
qed

text \<open>Fact: A push is refused, without effect, exactly when the slot does not fit 32 bits or the
  builder is full, and a slot of 0 is skipped; the raw authority roles and all service-local
  roles have no public symbol.\<close>

theorem cap_push_errors:
  assumes "builder_wf b" and "push b role slot rights flags = (r, b')"
  shows "(r = Inl SlotOutOfRange \<longleftrightarrow> 2 ^ 32 \<le> unat slot) \<and>
    (r = Inl Overflow \<longleftrightarrow> 0 < unat slot \<and> unat slot < 2 ^ 32 \<and> cb_count b = 32) \<and>
    (r = Inr () \<and> slot \<noteq> 0 \<longrightarrow> built b' = built b @ [entry_of (role, slot, rights, flags)]) \<and>
    (r \<noteq> Inr () \<or> slot = 0 \<longrightarrow> b' = b) \<and> builder_wf b'"
proof -
  have max: "ucast (- 1 :: u32) < slot \<longleftrightarrow> 2 ^ 32 \<le> unat slot"
    by (auto simp: word_less_nat_alt unat_max32 unsigned_ucast_eq)
  have zero: "slot = 0 \<longleftrightarrow> unat slot = 0" by (simp add: unat_eq_zero)
  show ?thesis
    using assms by (auto simp: push_def max zero builder_wf_def built_def entry_of_def
        take_Suc_conv_app_nth split: if_splits)
qed

theorem cap_push_errors_witness:
  "fst (push CapTableBuilder_new 1 0x100000000 0 0) = Inl SlotOutOfRange"
  using cap_push_errors [OF builder_new_wf(1) prod.collapse [symmetric], of 1 "0x100000000" 0 0]
  by simp

end
