(* ===== verification/Cpio.thy ===== *)
theory Cpio
  imports Memory
begin

text \<open>
  The reader of CPIO archives in newc format, \<^verbatim>\<open>loader/cpio.rs\<close>.  The archive is a
  byte array, pointers into it are offsets, and offsets and sizes are 64-bit
  words as in the source, so that the sums in the bounds checks wrap.  A read
  outside the array is \<^const>\<open>None\<close>; so is a search that does not end.
\<close>

section \<open>Data\<close>

abbreviation (input) CPIO_HEADER_SIZE :: u64 where "CPIO_HEADER_SIZE \<equiv> 110"

record CpioEntry =
  cpe_name :: u64
  cpe_name_len :: u64
  cpe_data :: u64
  cpe_data_len :: u64

record CpioEntryExt = CpioEntry +
  cpx_mode :: u32
  cpx_uid :: u32
  cpx_gid :: u32
  cpx_nlink :: u32
  cpx_mtime :: u32
  cpx_ino :: u32

section \<open>Header fields\<close>

definition hex_digit :: "u8 \<Rightarrow> u64 option" where
  "hex_digit b =
     (if 0x30 \<le> b \<and> b \<le> 0x39 then Some (ucast (b - 0x30))
      else if 0x61 \<le> b \<and> b \<le> 0x66 then Some (ucast (b - 0x61 + 10))
      else if 0x41 \<le> b \<and> b \<le> 0x46 then Some (ucast (b - 0x41 + 10))
      else None)"

fun parse_hex_loop :: "mem \<Rightarrow> nat \<Rightarrow> nat list \<Rightarrow> u64 \<Rightarrow> u64 option" where
  "parse_hex_loop m a [] val = Some val"
| "parse_hex_loop m a (i # is) val =
     do { b \<leftarrow> read_u8 m (a + i);
          case hex_digit b of
            None \<Rightarrow> Some 0
          | Some digit \<Rightarrow> parse_hex_loop m a is (push_bit 4 val OR digit) }"

definition parse_hex8 :: "mem \<Rightarrow> nat \<Rightarrow> u64 option" where
  "parse_hex8 m a = parse_hex_loop m a [0..<8] 0"

definition align4 :: "u64 \<Rightarrow> u64" where
  "align4 n = (n + 3) AND NOT 3"

text \<open>Comparison of the bytes at an address with given ones, up to the first difference.\<close>

fun match_bytes :: "mem \<Rightarrow> nat \<Rightarrow> u8 list \<Rightarrow> bool option" where
  "match_bytes m a [] = Some True"
| "match_bytes m a (x # xs) =
     do { b \<leftarrow> read_u8 m a; if b \<noteq> x then Some False else match_bytes m (a + 1) xs }"

definition cpio_magic :: "u8 list" where
  "cpio_magic = [0x30, 0x37, 0x30, 0x37, 0x30, 0x31]"

definition cpio_trailer :: "u8 list" where
  "cpio_trailer = [0x54, 0x52, 0x41, 0x49, 0x4C, 0x45, 0x52, 0x21, 0x21, 0x21]"

definition check_magic :: "mem \<Rightarrow> nat \<Rightarrow> bool option" where
  "check_magic m header = match_bytes m header cpio_magic"

definition is_trailer :: "mem \<Rightarrow> nat \<Rightarrow> u64 \<Rightarrow> bool option" where
  "is_trailer m name name_len =
     (if name_len \<noteq> 10 then Some False else match_bytes m name cpio_trailer)"

section \<open>One entry\<close>

text \<open>
  The beginning that all five functions share: bounds of the header, magic,
  the two sizes, bounds of the name, length of the name without its final NUL,
  the trailer test, and the position of the data.
\<close>

datatype cpio_hdr =
    NoHeader | BadMagic | BadName
  | Hdr (h_name: u64) (h_name_len: u64) (h_trailer: bool) (h_data_start: u64) (h_filesize: u64)

definition cpio_header :: "mem \<Rightarrow> u64 \<Rightarrow> u64 \<Rightarrow> cpio_hdr option" where
  "cpio_header m archive_len offset =
     (if archive_len < offset + CPIO_HEADER_SIZE then Some NoHeader
      else do {
        magic \<leftarrow> check_magic m (unat offset);
        if \<not> magic then Some BadMagic
        else do {
          namesize \<leftarrow> parse_hex8 m (unat offset + 94);
          filesize \<leftarrow> parse_hex8 m (unat offset + 54);
          let name_start = offset + CPIO_HEADER_SIZE
          in if archive_len < name_start + namesize then Some BadName
             else do {
               nul \<leftarrow> (if 0 < namesize
                       then map_option (\<lambda>b. b = 0) (read_u8 m (unat name_start + unat (namesize - 1)))
                       else Some False);
               let name_len = (if nul then namesize - 1 else namesize)
               in do {
                 trailer \<leftarrow> is_trailer m (unat name_start) name_len;
                 Some (Hdr name_start name_len trailer
                         (align4 (offset + CPIO_HEADER_SIZE + namesize)) filesize) } } } })"

definition cpio_next :: "mem \<Rightarrow> u64 \<Rightarrow> u64 \<Rightarrow> (CpioEntry \<times> u64) option option" where
  "cpio_next m archive_len off =
     do { h \<leftarrow> cpio_header m archive_len off;
          case h of
            Hdr name name_len trailer data_start filesize \<Rightarrow>
              if trailer then Some None
              else let data_end = data_start + filesize
                   in if archive_len < data_end then Some None
                      else Some (Some (\<lparr>cpe_name = name, cpe_name_len = name_len,
                                        cpe_data = data_start, cpe_data_len = filesize\<rparr>,
                                       align4 data_end))
          | _ \<Rightarrow> Some None }"

text \<open>The metadata fields of the header.\<close>

definition read_ext :: "mem \<Rightarrow> u64 \<Rightarrow> CpioEntry \<Rightarrow> CpioEntryExt option" where
  "read_ext m off e =
     do { ino \<leftarrow> parse_hex8 m (unat off + 6); mode \<leftarrow> parse_hex8 m (unat off + 14);
          uid \<leftarrow> parse_hex8 m (unat off + 22); gid \<leftarrow> parse_hex8 m (unat off + 30);
          nlink \<leftarrow> parse_hex8 m (unat off + 38); mtime \<leftarrow> parse_hex8 m (unat off + 46);
          Some (CpioEntry.extend e
                 (CpioEntryExt.fields (ucast mode) (ucast uid) (ucast gid) (ucast nlink)
                    (ucast mtime) (ucast ino))) }"

definition cpio_next_ext :: "mem \<Rightarrow> u64 \<Rightarrow> u64 \<Rightarrow> (CpioEntryExt \<times> u64) option option" where
  "cpio_next_ext m archive_len off =
     do { h \<leftarrow> cpio_header m archive_len off;
          case h of
            Hdr name name_len trailer data_start filesize \<Rightarrow>
              if trailer then Some None
              else let data_end = data_start + filesize
                   in if archive_len < data_end then Some None
                      else do {
                        x \<leftarrow> read_ext m off \<lparr>cpe_name = name, cpe_name_len = name_len,
                                              cpe_data = data_start, cpe_data_len = filesize\<rparr>;
                        Some (Some (x, align4 data_end)) }
          | _ \<Rightarrow> Some None }"

section \<open>Searching\<close>

text \<open>
  The loop of \<open>cpio_find_file\<close> from an offset.  \<open>name\<close> is the array of \<open>name_len\<close>
  bytes that the caller passes.
\<close>

partial_function (option) find_file_from ::
  "mem \<Rightarrow> u64 \<Rightarrow> u8 list \<Rightarrow> u64 \<Rightarrow> CpioEntry option option" where
  "find_file_from m archive_len name offset =
     do { h \<leftarrow> cpio_header m archive_len offset;
          case h of
            Hdr entry_name entry_name_len trailer data_start filesize \<Rightarrow>
              if trailer then Some None
              else let data_end = data_start + filesize
                   in if archive_len < data_end then Some None
                      else do {
                        found \<leftarrow> (if unat entry_name_len = length name
                                   then match_bytes m (unat entry_name) name else Some False);
                        if found
                        then Some (Some \<lparr>cpe_name = entry_name, cpe_name_len = entry_name_len,
                                         cpe_data = data_start, cpe_data_len = filesize\<rparr>)
                        else find_file_from m archive_len name (align4 data_end) }
          | _ \<Rightarrow> Some None }"

definition cpio_find_file :: "mem \<Rightarrow> u64 \<Rightarrow> u8 list \<Rightarrow> CpioEntry option option" where
  "cpio_find_file m archive_len name = find_file_from m archive_len name 0"

partial_function (option) find_file_ext_from ::
  "mem \<Rightarrow> u64 \<Rightarrow> u8 list \<Rightarrow> u64 \<Rightarrow> CpioEntryExt option option" where
  "find_file_ext_from m archive_len name offset =
     do { h \<leftarrow> cpio_header m archive_len offset;
          case h of
            Hdr entry_name entry_name_len trailer data_start filesize \<Rightarrow>
              if trailer then Some None
              else let data_end = data_start + filesize
                   in if archive_len < data_end then Some None
                      else do {
                        found \<leftarrow> (if unat entry_name_len = length name
                                   then match_bytes m (unat entry_name) name else Some False);
                        if found
                        then do {
                          x \<leftarrow> read_ext m offset \<lparr>cpe_name = entry_name, cpe_name_len = entry_name_len,
                                         cpe_data = data_start, cpe_data_len = filesize\<rparr>;
                          Some (Some x) }
                        else find_file_ext_from m archive_len name (align4 data_end) }
          | _ \<Rightarrow> Some None }"

definition cpio_find_file_ext :: "mem \<Rightarrow> u64 \<Rightarrow> u8 list \<Rightarrow> CpioEntryExt option option" where
  "cpio_find_file_ext m archive_len name = find_file_ext_from m archive_len name 0"

partial_function (option) archive_size_from :: "mem \<Rightarrow> u64 \<Rightarrow> u64 \<Rightarrow> u64 option" where
  "archive_size_from m max_len offset =
     do { h \<leftarrow> cpio_header m max_len offset;
          case h of
            NoHeader \<Rightarrow> Some max_len
          | BadMagic \<Rightarrow> Some offset
          | BadName \<Rightarrow> Some max_len
          | Hdr name name_len trailer data_start filesize \<Rightarrow>
              let data_end = data_start + filesize;
                  next_offset = align4 data_end
              in if trailer then Some next_offset
                 else if max_len < data_end then Some max_len
                 else archive_size_from m max_len next_offset }"

definition cpio_archive_size :: "mem \<Rightarrow> u64 \<Rightarrow> u64 option" where
  "cpio_archive_size m max_len = archive_size_from m max_len 0"

section \<open>Specification\<close>

text \<open>The entries of an archive, by repeated use of \<open>cpio_next\<close>.\<close>

partial_function (option) cpio_entries :: "mem \<Rightarrow> u64 \<Rightarrow> u64 \<Rightarrow> CpioEntry list option" where
  "cpio_entries m archive_len off =
     do { r \<leftarrow> cpio_next m archive_len off;
          case r of
            None \<Rightarrow> Some []
          | Some (e, off') \<Rightarrow> do { es \<leftarrow> cpio_entries m archive_len off'; Some (e # es) } }"

definition entry_name :: "mem \<Rightarrow> CpioEntry \<Rightarrow> u8 list" where
  "entry_name m e = take (unat (cpe_name_len e)) (drop (unat (cpe_name e)) m)"

definition entry_data :: "mem \<Rightarrow> CpioEntry \<Rightarrow> u8 list" where
  "entry_data m e = take (unat (cpe_data_len e)) (drop (unat (cpe_data e)) m)"

text \<open>
  An archive that the functions can be used on: the array has the announced
  length, which is at most what an allocation can have.
\<close>

definition archive_ok :: "mem \<Rightarrow> u64 \<Rightarrow> bool" where
  "archive_ok m archive_len \<longleftrightarrow> unat archive_len \<le> length m \<and> unat archive_len < 2 ^ 63"

definition al4 :: "nat \<Rightarrow> nat" where
  "al4 n = (n + 3) div 4 * 4"

text \<open>The length of a name without its final NUL.\<close>

definition cpio_name_len :: "mem \<Rightarrow> nat \<Rightarrow> nat \<Rightarrow> nat" where
  "cpio_name_len m name_start namesize =
     (if 0 < namesize \<and> m ! (name_start + namesize - 1) = 0 then namesize - 1 else namesize)"

text \<open>The result of one step: the end of the archive, or an entry inside it and progress.\<close>

definition entry_inside :: "u64 \<Rightarrow> u64 \<Rightarrow> CpioEntry \<Rightarrow> u64 \<Rightarrow> bool" where
  "entry_inside len off e off' \<longleftrightarrow>
     unat (cpe_name e) = unat off + 110 \<and>
     unat (cpe_name e) + unat (cpe_name_len e) \<le> unat (cpe_data e) \<and>
     unat (cpe_data e) + unat (cpe_data_len e) \<le> unat len \<and>
     4 dvd unat (cpe_data e) \<and>
     unat off' = al4 (unat (cpe_data e) + unat (cpe_data_len e)) \<and>
     unat off + 110 \<le> unat off' \<and> unat off' \<le> unat len + 3"

text \<open>
  The newc format, as it is written: a file is a name, the six metadata fields
  (inode, mode, uid, gid, link count, modification time) and its data.  Numbers
  are eight hexadecimal digits; name and data are padded to a multiple of four.
\<close>

record cpio_file =
  cf_name :: "u8 list"
  cf_meta :: "u32 list"
  cf_data :: "u8 list"

definition hex_char :: "nat \<Rightarrow> u8" where
  "hex_char d = (if d < 10 then of_nat (0x30 + d) else of_nat (0x41 + d - 10))"

primrec hex_digits :: "nat \<Rightarrow> nat \<Rightarrow> nat list" where
  "hex_digits 0 n = []"
| "hex_digits (Suc k) n = hex_digits k (n div 16) @ [n mod 16]"

definition hex8 :: "nat \<Rightarrow> u8 list" where
  "hex8 n = map hex_char (hex_digits 8 n)"

definition encode_header :: "cpio_file \<Rightarrow> u8 list" where
  "encode_header f = cpio_magic @ concat (map (\<lambda>w. hex8 (unat w)) (cf_meta f)) @
     hex8 (length (cf_data f)) @ concat (replicate 4 (hex8 0)) @
     hex8 (length (cf_name f) + 1) @ hex8 0"

definition pad4 :: "u8 list \<Rightarrow> u8 list" where
  "pad4 bs = bs @ replicate (al4 (length bs) - length bs) 0"

definition encode_file :: "cpio_file \<Rightarrow> u8 list" where
  "encode_file f = pad4 (encode_header f @ cf_name f @ [0]) @ pad4 (cf_data f)"

definition trailer_file :: cpio_file where
  "trailer_file = \<lparr>cf_name = cpio_trailer, cf_meta = replicate 6 0, cf_data = []\<rparr>"

definition encode_archive :: "cpio_file list \<Rightarrow> u8 list" where
  "encode_archive fs = concat (map encode_file fs) @ encode_file trailer_file"

definition file_ok :: "cpio_file \<Rightarrow> bool" where
  "file_ok f \<longleftrightarrow> length (cf_meta f) = 6 \<and> length (cf_name f) + 1 < 2 ^ 32 \<and>
     length (cf_data f) < 2 ^ 32"

text \<open>What an archive stores of a file, and what a reader gets from an entry.\<close>

definition file_view :: "cpio_file \<Rightarrow> u8 list \<times> u8 list \<times> u32 list option" where
  "file_view f = (cf_name f, cf_data f, Some (cf_meta f))"

definition ext_meta :: "CpioEntryExt \<Rightarrow> u32 list" where
  "ext_meta x = [cpx_ino x, cpx_mode x, cpx_uid x, cpx_gid x, cpx_nlink x, cpx_mtime x]"

definition entry_view :: "mem \<Rightarrow> CpioEntry \<Rightarrow> u8 list \<times> u8 list \<times> u32 list option" where
  "entry_view m e =
     (entry_name m e, entry_data m e, map_option ext_meta (read_ext m (cpe_name e - 110) e))"

section \<open>Numbers\<close>

lemma unat_align4:
  assumes "unat n + 3 < 2 ^ 64"
  shows "unat (align4 n) = al4 (unat n)"
proof -
  have "align4 n = (n + 3) AND NOT (mask 2)" by (simp add: align4_def mask_eq_exp_minus_1)
  then have "unat (align4 n) = unat (n + 3) div 4 * 4"
    using unat_and_not_mask [of "n + 3" 2] by simp
  moreover have "unat (n + 3) = unat n + 3" using assms by (subst unat_add_le) simp_all
  ultimately show ?thesis by (simp add: al4_def)
qed

lemma al4_bounds: "n \<le> al4 n" "al4 n \<le> n + 3" "4 dvd al4 n"
  by (simp_all add: al4_def)

lemma hex_digit_less: "hex_digit b = Some d \<Longrightarrow> unat d < 16"
proof -
  assume h: "hex_digit b = Some d"
  have *: "unat (ucast (b - x + y) :: u64) < 16" if "x \<le> b" "b \<le> z" "unat z - unat x + unat y < 16" for x y z :: u8
  proof -
    have "unat (b - x) = unat b - unat x" using that(1) by (rule unat_sub_le)
    moreover have "unat b \<le> unat z" using that(2) by (simp add: word_le_nat_alt)
    ultimately have "unat (b - x) + unat y < 16" using that(3) by linarith
    then have "unat (b - x + y) < 16" by (simp add: unat_add_le)
    then show ?thesis by (simp add: unsigned_ucast_eq le_less_trans [OF take_bit_nat_less_eq_self])
  qed
  from h * [of "0x30" "0x39" 0] * [of "0x61" "0x66" 10] * [of "0x41" "0x46" 10] show ?thesis
    by (auto simp: hex_digit_def split: if_splits)
qed

lemma hex_shift:
  assumes "unat v < 2 ^ 60" "unat d < 16"
  shows "unat (push_bit 4 v OR d :: u64) = unat v * 16 + unat d"
proof -
  have nb: "\<not> bit d n" if "4 \<le> n" for n
    using bit_unat_less [of d 4 n] assms(2) that by auto
  have "push_bit 4 v OR d = push_bit 4 v + d"
    by (rule disjunctive_add [symmetric]) (use nb in \<open>auto simp: bit_simps\<close>)
  moreover have "unat (push_bit 4 v) = unat v * 16"
    using assms(1) by (simp add: push_bit_eq_mult unat_word_ariths)
  ultimately show ?thesis using assms by (simp add: unat_add_le)
qed

lemma parse_hex_loop_less:
  assumes "parse_hex_loop m a is v = Some w" "unat v < 16 ^ k" "k + length is \<le> 15"
  shows "unat w < 16 ^ (k + length is)"
  using assms
proof (induction "is" arbitrary: v k)
  case Nil
  then show ?case by simp
next
  case (Cons i "is")
  from Cons.prems(1) obtain b where "read_u8 m (a + i) = Some b"
      and r: "(case hex_digit b of None \<Rightarrow> Some 0 | Some d \<Rightarrow> parse_hex_loop m a is (push_bit 4 v OR d)) = Some w"
    by (auto simp: bind_eq_Some_conv)
  show ?case
  proof (cases "hex_digit b")
    case None
    with r show ?thesis by simp
  next
    case (Some d)
    have d: "unat d < 16" using hex_digit_less [OF Some] .
    have "(16::nat) ^ k \<le> 16 ^ 15" using Cons.prems(3) by (intro power_increasing) simp_all
    then have "unat v < 2 ^ 60" using Cons.prems(2) by (simp add: power_mult [symmetric])
    then have "unat (push_bit 4 v OR d) = unat v * 16 + unat d" using hex_shift d by blast
    also have "\<dots> < (unat v + 1) * 16" using d by simp
    also have "\<dots> \<le> 16 ^ k * 16" using Cons.prems(2) by (intro mult_le_mono1) simp
    finally have "unat (push_bit 4 v OR d) < 16 ^ Suc k" by (simp add: mult.commute)
    then have "unat w < 16 ^ (Suc k + length is)"
      using Cons.IH [of "push_bit 4 v OR d" "Suc k"] r Some Cons.prems(3) by simp
    then show ?thesis by simp
  qed
qed

lemma parse_hex8_less:
  assumes "parse_hex8 m a = Some w"
  shows "unat w < 2 ^ 32"
  using parse_hex_loop_less [of m a "[0..<8]" 0 w 0] assms by (simp add: parse_hex8_def)

lemma parse_hex_loop_total:
  assumes "\<And>i. i \<in> set is \<Longrightarrow> a + i < length m"
  shows "\<exists>w. parse_hex_loop m a is v = Some w"
  using assms
proof (induction "is" arbitrary: v)
  case Nil
  then show ?case by simp
next
  case (Cons i "is")
  then obtain b where "read_u8 m (a + i) = Some b" by (auto simp: read_u8_def)
  with Cons show ?case by (auto split: option.split)
qed

lemma parse_hex8_total: "a + 8 \<le> length m \<Longrightarrow> \<exists>w. parse_hex8 m a = Some w"
  unfolding parse_hex8_def by (rule parse_hex_loop_total) auto

lemma match_bytes_eq:
  assumes "a + length xs \<le> length m"
  shows "match_bytes m a xs = Some (take (length xs) (drop a m) = xs)"
  using assms
proof (induction xs arbitrary: a)
  case Nil
  then show ?case by simp
next
  case (Cons x xs)
  then have a: "a < length m" by simp
  then have "drop a m = m ! a # drop (Suc a) m" by (simp add: Cons_nth_drop_Suc)
  with Cons a show ?case by (simp add: read_u8_def)
qed

section \<open>The header\<close>

lemma length_cpio_strings [simp]: "length cpio_magic = 6" "length cpio_trailer = 10"
  by (simp_all add: cpio_magic_def cpio_trailer_def)

lemma check_magic_eq:
  "a + 6 \<le> length m \<Longrightarrow> check_magic m a = Some (take 6 (drop a m) = cpio_magic)"
  using match_bytes_eq [of a cpio_magic m] by (simp add: check_magic_def)

lemma is_trailer_eq:
  assumes "a + unat n \<le> length m"
  shows "is_trailer m a n = Some (take (unat n) (drop a m) = cpio_trailer)"
proof (cases "n = 10")
  case True
  with match_bytes_eq [of a cpio_trailer m] assms show ?thesis
    by (simp add: is_trailer_def)
next
  case False
  then have "unat n \<noteq> unat (10 :: u64)" unfolding word_unat_eq_iff .
  then have "length (take (unat n) (drop a m)) \<noteq> length cpio_trailer"
    using assms by simp
  then have "take (unat n) (drop a m) \<noteq> cpio_trailer" by metis
  with False show ?thesis by (simp add: is_trailer_def)
qed

text \<open>What the common part computes, in numbers without wrap-around.\<close>

lemma cpio_header_short:
  assumes "archive_ok m len" "unat off \<le> unat len + 3" "unat len < unat off + 110"
  shows "cpio_header m len off = Some NoHeader"
proof -
  have "unat (off + 110) = unat off + 110"
    using assms by (subst unat_add_le) (simp_all add: archive_ok_def)
  with assms(3) show ?thesis by (simp add: cpio_header_def word_less_nat_alt)
qed

lemma cpio_header_magic:
  assumes "archive_ok m len" "unat off + 110 \<le> unat len" "take 6 (drop (unat off) m) \<noteq> cpio_magic"
  shows "cpio_header m len off = Some BadMagic"
proof -
  have "unat (off + 110) = unat off + 110"
    using assms by (subst unat_add_le) (simp_all add: archive_ok_def)
  moreover have "unat off + 6 \<le> length m" using assms(1,2) by (simp add: archive_ok_def)
  ultimately show ?thesis using assms(2,3)
    by (simp add: cpio_header_def word_less_nat_alt check_magic_eq)
qed

lemma cpio_header_name:
  assumes ok: "archive_ok m len" and off: "unat off + 110 \<le> unat len"
    and magic: "take 6 (drop (unat off) m) = cpio_magic"
    and ns: "parse_hex8 m (unat off + 94) = Some ns" and fs: "parse_hex8 m (unat off + 54) = Some fs"
    and big: "unat len < unat off + 110 + unat ns"
  shows "cpio_header m len off = Some BadName"
proof -
  have u: "unat (off + 110) = unat off + 110"
    using ok off by (subst unat_add_le) (simp_all add: archive_ok_def)
  have "unat (off + 110 + ns) = unat off + 110 + unat ns"
    using ok off parse_hex8_less [OF ns] u by (subst unat_add_le) (simp_all add: archive_ok_def)
  moreover have "unat off + 6 \<le> length m" using ok off by (simp add: archive_ok_def)
  ultimately show ?thesis using off u big magic ns fs
    by (simp add: cpio_header_def word_less_nat_alt check_magic_eq)
qed

lemma cpio_header_ok:
  assumes ok: "archive_ok m len" and off: "unat off + 110 \<le> unat len"
    and magic: "take 6 (drop (unat off) m) = cpio_magic"
    and ns: "parse_hex8 m (unat off + 94) = Some ns" and fs: "parse_hex8 m (unat off + 54) = Some fs"
    and fit: "unat off + 110 + unat ns \<le> unat len"
  obtains nl ds where
    "cpio_header m len off =
       Some (Hdr (off + 110) nl (take (unat nl) (drop (unat off + 110) m) = cpio_trailer) ds fs)"
    "unat (off + 110) = unat off + 110"
    "unat nl = cpio_name_len m (unat off + 110) (unat ns)"
    "unat ds = al4 (unat off + 110 + unat ns)"
    "unat (ds + fs) = al4 (unat off + 110 + unat ns) + unat fs"
    "unat (align4 (ds + fs)) = al4 (al4 (unat off + 110 + unat ns) + unat fs)"
proof -
  have lenb: "unat len < 2 ^ 63" "unat len \<le> length m" using ok by (simp_all add: archive_ok_def)
  have u: "unat (off + 110) = unat off + 110"
    using lenb off by (subst unat_add_le) simp_all
  have un: "unat (off + 110 + ns) = unat off + 110 + unat ns"
    using lenb fit u by (subst unat_add_le) simp_all
  define ds where "ds = align4 (off + 110 + ns)"
  have uds: "unat ds = al4 (unat off + 110 + unat ns)"
    unfolding ds_def un [symmetric] using un lenb fit by (intro unat_align4) simp
  have dsb: "unat ds < 2 ^ 63 + 3" using uds al4_bounds(2) [of "unat off + 110 + unat ns"] lenb fit by linarith
  have ude: "unat (ds + fs) = unat ds + unat fs"
    using dsb parse_hex8_less [OF fs] by (intro unat_add_le) simp
  have ual: "unat (align4 (ds + fs)) = al4 (unat ds + unat fs)"
    unfolding ude [symmetric] using dsb ude parse_hex8_less [OF fs] by (intro unat_align4) simp
  define nul where "nul \<longleftrightarrow> 0 < ns \<and> m ! (unat off + 110 + unat ns - 1) = 0"
  define nl where "nl = (if nul then ns - 1 else ns)"
  have n1: "unat (ns - 1) = unat ns - 1" if "0 < ns"
    using that by (intro trans [OF unat_sub_le]) (auto simp: word_le_nat_alt word_less_nat_alt)
  have unl: "unat nl = cpio_name_len m (unat off + 110) (unat ns)"
    using n1 by (auto simp: nl_def nul_def cpio_name_len_def word_less_nat_alt)
  then have nlb: "unat nl \<le> unat ns" by (simp add: cpio_name_len_def)
  have rd: "(if 0 < ns then map_option (\<lambda>b. b = 0) (read_u8 m (unat (off + 110) + unat (ns - 1))) else Some False)
      = Some nul"
    using n1 u fit lenb by (auto simp: nul_def read_u8_def word_less_nat_alt)
  have tr: "is_trailer m (unat (off + 110)) nl = Some (take (unat nl) (drop (unat off + 110) m) = cpio_trailer)"
    using is_trailer_eq [of "unat (off + 110)" nl m] u nlb fit lenb by simp
  have h: "cpio_header m len off =
       Some (Hdr (off + 110) nl (take (unat nl) (drop (unat off + 110) m) = cpio_trailer) ds fs)"
    using off u un fit magic ns fs lenb rd tr
    by (simp add: cpio_header_def word_less_nat_alt check_magic_eq nl_def ds_def Let_def)
  show thesis by (rule that [OF h u unl uds]) (simp_all add: ude ual uds)
qed

section \<open>Entries\<close>

lemma cpio_header_total:
  assumes ok: "archive_ok m len" and off: "unat off \<le> unat len + 3"
  obtains (stop) h where "cpio_header m len off = Some h" "h = NoHeader \<or> h = BadMagic \<or> h = BadName"
  | (hdr) nl tr ds fs where "cpio_header m len off = Some (Hdr (off + 110) nl tr ds fs)"
      "unat off + 110 \<le> unat len" "unat (off + 110) = unat off + 110"
      "unat off + 110 + unat nl \<le> unat ds" "4 dvd unat ds"
      "unat (ds + fs) = unat ds + unat fs" "unat (align4 (ds + fs)) = al4 (unat ds + unat fs)"
proof (cases "unat len < unat off + 110")
  case True
  with cpio_header_short [OF ok off] stop show thesis by blast
next
  case False
  then have le: "unat off + 110 \<le> unat len" by simp
  have len: "unat len \<le> length m" using ok by (simp add: archive_ok_def)
  show thesis
  proof (cases "take 6 (drop (unat off) m) = cpio_magic")
    case False
    with cpio_header_magic [OF ok le] stop show thesis by blast
  next
    case magic: True
    obtain ns where ns: "parse_hex8 m (unat off + 94) = Some ns"
      using parse_hex8_total [of "unat off + 94" m] le len by auto
    obtain fs where fs: "parse_hex8 m (unat off + 54) = Some fs"
      using parse_hex8_total [of "unat off + 54" m] le len by auto
    show thesis
    proof (cases "unat len < unat off + 110 + unat ns")
      case True
      with cpio_header_name [OF ok le magic ns fs] stop show thesis by blast
    next
      case False
      then have fit: "unat off + 110 + unat ns \<le> unat len" by simp
      obtain nl ds where h: "cpio_header m len off =
           Some (Hdr (off + 110) nl (take (unat nl) (drop (unat off + 110) m) = cpio_trailer) ds fs)"
        and u: "unat (off + 110) = unat off + 110"
        and nl: "unat nl = cpio_name_len m (unat off + 110) (unat ns)"
        and ds: "unat ds = al4 (unat off + 110 + unat ns)"
        and de: "unat (ds + fs) = al4 (unat off + 110 + unat ns) + unat fs"
        and al: "unat (align4 (ds + fs)) = al4 (al4 (unat off + 110 + unat ns) + unat fs)"
        using cpio_header_ok [OF ok le magic ns fs fit] by metis
      have "unat nl \<le> unat ns" by (simp add: nl cpio_name_len_def)
      then have "unat off + 110 + unat nl \<le> unat ds"
        using al4_bounds(1) [of "unat off + 110 + unat ns"] ds by linarith
      with hdr [OF h le u] de al ds al4_bounds(3) show thesis by simp
    qed
  qed
qed

lemma cpio_next_cases:
  assumes ok: "archive_ok m len" and off: "unat off \<le> unat len + 3"
  shows "cpio_next m len off = Some None \<or>
    (\<exists>e off'. cpio_next m len off = Some (Some (e, off')) \<and> entry_inside len off e off')"
proof (rule cpio_header_total [OF ok off])
  fix h assume "cpio_header m len off = Some h" "h = NoHeader \<or> h = BadMagic \<or> h = BadName"
  then show ?thesis by (auto simp: cpio_next_def)
next
  fix nl tr ds fs
  assume h: "cpio_header m len off = Some (Hdr (off + 110) nl tr ds fs)"
    "unat off + 110 \<le> unat len" "unat (off + 110) = unat off + 110"
    "unat off + 110 + unat nl \<le> unat ds" "4 dvd unat ds"
    "unat (ds + fs) = unat ds + unat fs" "unat (align4 (ds + fs)) = al4 (unat ds + unat fs)"
  show ?thesis
  proof (cases "tr \<or> len < ds + fs")
    case True
    with h(1) show ?thesis by (auto simp: cpio_next_def Let_def)
  next
    case False
    then have "unat ds + unat fs \<le> unat len" using h(6) by (simp add: word_less_nat_alt)
    with h al4_bounds(1) [of "unat ds + unat fs"] al4_bounds(2) [of "unat ds + unat fs"] False
    show ?thesis by (simp add: cpio_next_def Let_def entry_inside_def)
  qed
qed

lemma name_match:
  assumes "unat (cpe_name e) + unat (cpe_name_len e) \<le> length m"
  shows "(if unat (cpe_name_len e) = length name then match_bytes m (unat (cpe_name e)) name else Some False)
    = Some (entry_name m e = name)"
proof (cases "unat (cpe_name_len e) = length name")
  case True
  with match_bytes_eq [of "unat (cpe_name e)" name m] assms show ?thesis by (simp add: entry_name_def)
next
  case False
  have "length (entry_name m e) = unat (cpe_name_len e)" using assms by (simp add: entry_name_def)
  with False show ?thesis by auto
qed

lemma read_ext_total:
  assumes "unat off + 110 \<le> length m"
  obtains x where "read_ext m off e = Some x" "CpioEntry.truncate x = e"
proof -
  have "\<exists>w. parse_hex8 m (unat off + k) = Some w" if "k \<le> 46" for k
    using parse_hex8_total [of "unat off + k" m] assms that by simp
  from this [of 6] this [of 14] this [of 22] this [of 30] this [of 38] this [of 46]
  show thesis using that by (fastforce simp: read_ext_def CpioEntry.defs)
qed

text \<open>The search loop in terms of \<open>cpio_next\<close>.\<close>

lemma find_file_from_step:
  assumes ok: "archive_ok m len" and off: "unat off \<le> unat len + 3"
  shows "find_file_from m len name off =
    (case cpio_next m len off of
       Some (Some (e, off')) \<Rightarrow>
         if entry_name m e = name then Some (Some e) else find_file_from m len name off'
     | _ \<Rightarrow> Some None)"
proof (rule cpio_header_total [OF ok off])
  fix h assume "cpio_header m len off = Some h" "h = NoHeader \<or> h = BadMagic \<or> h = BadName"
  then show ?thesis by (subst find_file_from.simps) (auto simp: cpio_next_def)
next
  fix nl tr ds fs
  assume h: "cpio_header m len off = Some (Hdr (off + 110) nl tr ds fs)"
    "unat off + 110 \<le> unat len" "unat (off + 110) = unat off + 110"
    "unat off + 110 + unat nl \<le> unat ds" "4 dvd unat ds"
    "unat (ds + fs) = unat ds + unat fs" "unat (align4 (ds + fs)) = al4 (unat ds + unat fs)"
  show ?thesis
  proof (cases "tr \<or> len < ds + fs")
    case True
    with h(1) show ?thesis by (subst find_file_from.simps) (auto simp: cpio_next_def Let_def)
  next
    case False
    then have "unat ds + unat fs \<le> unat len" using h(6) by (simp add: word_less_nat_alt)
    then have inm: "unat (off + 110) + unat nl \<le> length m"
      using h(3,4) ok by (simp add: archive_ok_def)
    let ?e = "\<lparr>cpe_name = off + 110, cpe_name_len = nl, cpe_data = ds, cpe_data_len = fs\<rparr>"
    from name_match [of ?e m name] inm False h(1) show ?thesis
      by (subst find_file_from.simps) (auto simp: cpio_next_def Let_def)
  qed
qed

lemma find_file_ext_from_step:
  assumes ok: "archive_ok m len" and off: "unat off \<le> unat len + 3"
  shows "find_file_ext_from m len name off =
    (case cpio_next m len off of
       Some (Some (e, off')) \<Rightarrow>
         if entry_name m e = name then map_option Some (read_ext m off e)
         else find_file_ext_from m len name off'
     | _ \<Rightarrow> Some None)"
proof (rule cpio_header_total [OF ok off])
  fix h assume "cpio_header m len off = Some h" "h = NoHeader \<or> h = BadMagic \<or> h = BadName"
  then show ?thesis by (subst find_file_ext_from.simps) (auto simp: cpio_next_def)
next
  fix nl tr ds fs
  assume h: "cpio_header m len off = Some (Hdr (off + 110) nl tr ds fs)"
    "unat off + 110 \<le> unat len" "unat (off + 110) = unat off + 110"
    "unat off + 110 + unat nl \<le> unat ds" "4 dvd unat ds"
    "unat (ds + fs) = unat ds + unat fs" "unat (align4 (ds + fs)) = al4 (unat ds + unat fs)"
  show ?thesis
  proof (cases "tr \<or> len < ds + fs")
    case True
    with h(1) show ?thesis by (subst find_file_ext_from.simps) (auto simp: cpio_next_def Let_def)
  next
    case False
    then have "unat ds + unat fs \<le> unat len" using h(6) by (simp add: word_less_nat_alt)
    then have inm: "unat (off + 110) + unat nl \<le> length m"
      using h(3,4) ok by (simp add: archive_ok_def)
    let ?e = "\<lparr>cpe_name = off + 110, cpe_name_len = nl, cpe_data = ds, cpe_data_len = fs\<rparr>"
    from name_match [of ?e m name] inm False h(1) show ?thesis
      by (subst find_file_ext_from.simps)
        (auto simp: cpio_next_def Let_def map_conv_bind_option comp_def)
  qed
qed

lemma cpio_next_offset: "cpio_next m len off = Some (Some (e, off')) \<Longrightarrow> cpe_name e - 110 = off"
  by (auto simp: cpio_next_def cpio_header_def Let_def bind_eq_Some_conv
      split: if_splits cpio_hdr.splits)

lemma find_file_from_entries:
  assumes ok: "archive_ok m len" and off: "unat off \<le> unat len + 3"
  shows "\<exists>es. cpio_entries m len off = Some es \<and>
    find_file_from m len name off = Some (find (\<lambda>e. entry_name m e = name) es) \<and>
    (\<forall>e\<in>set es. unat off + 110 \<le> unat (cpe_name e) \<and>
       unat (cpe_name e) + unat (cpe_name_len e) \<le> unat (cpe_data e) \<and>
       unat (cpe_data e) + unat (cpe_data_len e) \<le> unat len)"
  using off
proof (induction "unat len + 4 - unat off" arbitrary: off rule: less_induct)
  case less
  from cpio_next_cases [OF ok less.prems] show ?case
  proof (elim disjE exE conjE)
    assume "cpio_next m len off = Some None"
    then show ?thesis
      by (subst cpio_entries.simps) (simp add: find_file_from_step [OF ok less.prems])
  next
    fix e off' assume n: "cpio_next m len off = Some (Some (e, off'))" and i: "entry_inside len off e off'"
    have "unat len + 4 - unat off' < unat len + 4 - unat off" "unat off' \<le> unat len + 3"
      using i less.prems by (auto simp: entry_inside_def)
    from less.hyps [OF this] obtain es where es: "cpio_entries m len off' = Some es"
      "find_file_from m len name off' = Some (find (\<lambda>e. entry_name m e = name) es)"
      "\<forall>e\<in>set es. unat off' + 110 \<le> unat (cpe_name e) \<and>
         unat (cpe_name e) + unat (cpe_name_len e) \<le> unat (cpe_data e) \<and>
         unat (cpe_data e) + unat (cpe_data_len e) \<le> unat len"
      by blast
    have "cpio_entries m len off = Some (e # es)"
      by (subst cpio_entries.simps) (simp add: n es(1))
    moreover have "find_file_from m len name off = Some (find (\<lambda>e. entry_name m e = name) (e # es))"
      using n es(2) by (simp add: find_file_from_step [OF ok less.prems])
    moreover have "unat off + 110 \<le> unat off' + 110" using i by (simp add: entry_inside_def)
    ultimately show ?thesis using es(3) i by (fastforce simp: entry_inside_def)
  qed
qed

section \<open>Reading what was written\<close>

lemma hex_digit_char:
  assumes "d < 16"
  shows "hex_digit (hex_char d) = Some (of_nat d)"
proof -
  have "d \<in> {0..<16}" using assms by simp
  then have "d \<in> set [0..<16]" by simp
  moreover have "\<forall>d\<in>set [0..<16]. hex_digit (hex_char d) = Some (of_nat d)" by code_simp
  ultimately show ?thesis by blast
qed

lemma parse_hex_loop_digits:
  assumes "take (length ds) (drop (a + i) m) = map hex_char ds" "\<And>d. d \<in> set ds \<Longrightarrow> d < 16"
    "a + i + length ds \<le> length m" "unat v < 16 ^ k" "k + length ds \<le> 15"
  shows "\<exists>w. parse_hex_loop m a [i..<i + length ds] v = Some w \<and>
    unat w = foldl (\<lambda>x d. x * 16 + d) (unat v) ds"
  using assms
proof (induction ds arbitrary: i v k)
  case Nil
  then show ?case by simp
next
  case (Cons d ds)
  have ai: "a + i < length m" using Cons.prems(3) by simp
  then have dr: "drop (a + i) m = m ! (a + i) # drop (a + Suc i) m" by (simp add: Cons_nth_drop_Suc)
  have hd: "m ! (a + i) = hex_char d" and tl: "take (length ds) (drop (a + Suc i) m) = map hex_char ds"
    using Cons.prems(1) dr by simp_all
  have d: "d < 16" using Cons.prems(2) by simp
  have ud: "unat (of_nat d :: u64) = d" using d by (simp add: unat_of_nat_lt64)
  have "(16::nat) ^ k \<le> 16 ^ 15" using Cons.prems(5) by (intro power_increasing) simp_all
  then have "unat v < 2 ^ 60" using Cons.prems(4) by (simp add: power_mult [symmetric])
  then have sh: "unat (push_bit 4 v OR of_nat d) = unat v * 16 + d"
    using hex_shift [of v "of_nat d"] ud d by simp
  have "unat v * 16 + d < (unat v + 1) * 16" using d by simp
  also have "\<dots> \<le> 16 ^ k * 16" using Cons.prems(4) by (intro mult_le_mono1) simp
  finally have lt: "unat (push_bit 4 v OR of_nat d) < 16 ^ Suc k" using sh by (simp add: mult.commute)
  obtain w where w: "parse_hex_loop m a [Suc i..<Suc i + length ds] (push_bit 4 v OR of_nat d) = Some w"
      "unat w = foldl (\<lambda>x d. x * 16 + d) (unat (push_bit 4 v OR of_nat d)) ds"
    using Cons.IH [of "Suc i" "push_bit 4 v OR of_nat d" "Suc k"] tl lt Cons.prems by auto
  have "[i..<i + length (d # ds)] = i # [Suc i..<Suc i + length ds]"
    using upt_conv_Cons [of i "i + length (d # ds)"] by (simp del: upt_Suc)
  with w sh ai hd hex_digit_char [OF d] show ?case by (simp add: read_u8_def del: upt_Suc)
qed

lemma hex_digits_props:
  "length (hex_digits k n) = k" "d \<in> set (hex_digits k n) \<Longrightarrow> d < 16"
  by (induction k arbitrary: n) auto

lemma hex_digits_value: "n < 16 ^ k \<Longrightarrow> foldl (\<lambda>x d. x * 16 + d) 0 (hex_digits k n) = n"
proof (induction k arbitrary: n)
  case 0
  then show ?case by simp
next
  case (Suc k)
  then have "n div 16 < 16 ^ k" by (simp add: less_mult_imp_div_less mult.commute)
  with Suc.IH show ?case by simp
qed

lemma length_hex8 [simp]: "length (hex8 n) = 8"
  by (simp add: hex8_def hex_digits_props)

lemma parse_hex8_hex8:
  assumes "take 8 (drop a m) = hex8 n" "n < 2 ^ 32"
  shows "\<exists>w. parse_hex8 m a = Some w \<and> unat w = n"
proof -
  have "a + 8 \<le> length m"
    using arg_cong [OF assms(1), of length] by (auto simp: min_def split: if_splits)
  with parse_hex_loop_digits [of "hex_digits 8 n" a 0 m 0 0] assms hex_digits_value [of n 8]
  show ?thesis by (auto simp: parse_hex8_def hex8_def hex_digits_props)
qed

lemma length_concat_hex8: "length (concat (map (\<lambda>w. hex8 (f w)) xs)) = 8 * length xs"
  by (induction xs) simp_all

lemma length_encode_header: "length (cf_meta f) = 6 \<Longrightarrow> length (encode_header f) = 110"
  by (simp add: encode_header_def length_concat_hex8 numeral_eq_Suc)

lemma length_pad4 [simp]: "length (pad4 bs) = al4 (length bs)"
  using al4_bounds(1) by (simp add: pad4_def)

lemma al4_mult: "4 dvd a \<Longrightarrow> al4 (a + n) = a + al4 n"
  by (elim dvdE) (simp add: al4_def add.assoc)

lemma al4_dvd: "4 dvd n \<Longrightarrow> al4 n = n"
  using al4_mult [of n 0] by (simp add: al4_def)

lemma encode_header_slices:
  assumes "length (cf_meta f) = 6"
  shows "take 6 (encode_header f @ r) = cpio_magic"
    "take 8 (drop 54 (encode_header f @ r)) = hex8 (length (cf_data f))"
    "take 8 (drop 94 (encode_header f @ r)) = hex8 (length (cf_name f) + 1)"
proof -
  let ?M = "concat (map (\<lambda>w. hex8 (unat w)) (cf_meta f))"
  let ?Z = "concat (replicate 4 (hex8 0))"
  have M: "length ?M = 48" using assms by (simp add: length_concat_hex8)
  have Z: "length ?Z = 32" by (simp add: numeral_eq_Suc)
  show "take 6 (encode_header f @ r) = cpio_magic" by (simp add: encode_header_def)
  show "take 8 (drop 54 (encode_header f @ r)) = hex8 (length (cf_data f))"
    unfolding encode_header_def append_assoc drop_append M length_cpio_strings using M by simp
  show "take 8 (drop 94 (encode_header f @ r)) = hex8 (length (cf_name f) + 1)"
    unfolding encode_header_def append_assoc drop_append M Z length_cpio_strings length_hex8 using M Z by simp
qed

lemma concat_hex8_slice:
  assumes "i < length ws"
  shows "take 8 (drop (8 * i) (concat (map (\<lambda>w. hex8 (unat w)) ws) @ r)) = hex8 (unat (ws ! i))"
  using assms
proof (induction ws arbitrary: i)
  case Nil
  then show ?case by simp
next
  case (Cons w ws)
  then show ?case by (cases i) simp_all
qed

lemma encode_header_meta:
  assumes "length (cf_meta f) = 6" "i < 6"
  shows "take 8 (drop (6 + 8 * i) (encode_header f @ r)) = hex8 (unat (cf_meta f ! i))"
proof -
  have d: "drop (6 + 8 * i) (encode_header f @ r) =
      drop (8 * i) (concat (map (\<lambda>w. hex8 (unat w)) (cf_meta f)) @ (hex8 (length (cf_data f)) @
        concat (replicate 4 (hex8 0)) @ hex8 (length (cf_name f) + 1) @ hex8 0 @ r))"
    by (simp add: encode_header_def)
  show ?thesis unfolding d by (rule concat_hex8_slice) (simp add: assms)
qed

lemma ucast_eq_unat: "unat (w :: u64) = unat (v :: u32) \<Longrightarrow> ucast w = v"
  by (metis of_nat_unat ucast_id)

lemma read_ext_encoded:
  assumes m: "drop (unat off) m = encode_header f @ r" and meta: "length (cf_meta f) = 6"
  shows "\<exists>x. read_ext m off e = Some x \<and> CpioEntry.truncate x = e \<and> ext_meta x = cf_meta f"
proof -
  have "\<exists>w. parse_hex8 m (unat off + (6 + 8 * i)) = Some w \<and> ucast w = cf_meta f ! i" if "i < 6" for i
  proof -
    have "drop (unat off + (6 + 8 * i)) m = drop (6 + 8 * i) (encode_header f @ r)"
      unfolding m [symmetric] by (simp add: add.commute)
    with parse_hex8_hex8 [of "unat off + (6 + 8 * i)" m "unat (cf_meta f ! i)"]
      encode_header_meta [OF meta that, of r] unat_lt32 [of "cf_meta f ! i"]
    show ?thesis by (auto intro: ucast_eq_unat)
  qed
  from this [of 0] this [of 1] this [of 2] this [of 3] this [of 4] this [of 5]
  obtain w0 w1 w2 w3 w4 w5 where
    "parse_hex8 m (unat off + 6) = Some w0" "ucast w0 = cf_meta f ! 0"
    "parse_hex8 m (unat off + 14) = Some w1" "ucast w1 = cf_meta f ! 1"
    "parse_hex8 m (unat off + 22) = Some w2" "ucast w2 = cf_meta f ! 2"
    "parse_hex8 m (unat off + 30) = Some w3" "ucast w3 = cf_meta f ! 3"
    "parse_hex8 m (unat off + 38) = Some w4" "ucast w4 = cf_meta f ! 4"
    "parse_hex8 m (unat off + 46) = Some w5" "ucast w5 = cf_meta f ! 5"
    by auto
  moreover have "cf_meta f = map ((!) (cf_meta f)) [0, 1, 2, 3, 4, 5]"
    using meta by (intro nth_equalityI) (auto simp: less_Suc_eq numeral_eq_Suc)
  ultimately show ?thesis
    by (simp add: read_ext_def ext_meta_def CpioEntry.defs CpioEntryExt.defs)
qed

text \<open>One encoded file inside an archive, at an aligned offset.\<close>

lemma cpio_header_encoded:
  assumes ok: "archive_ok m len" "unat len = length m"
    and m: "m = pre @ encode_file f @ post" and off: "unat off = length pre" and al: "4 dvd length pre"
    and f: "file_ok f"
  obtains nl ds fs where
    "cpio_header m len off = Some (Hdr (off + 110) nl (cf_name f = cpio_trailer) ds fs)"
    "take (unat nl) (drop (unat (off + 110)) m) = cf_name f"
    "take (unat fs) (drop (unat ds) m) = cf_data f"
    "\<not> len < ds + fs"
    "unat (align4 (ds + fs)) = length (pre @ encode_file f)"
proof -
  let ?n = "length (cf_name f)" and ?d = "length (cf_data f)"
  let ?h = "encode_header f @ cf_name f @ [0]"
  obtain z1 z2 where z: "m = pre @ encode_header f @ (cf_name f @ [0] @ z1 @ cf_data f @ z2)"
    and lz: "length (?h @ z1) = al4 (length ?h)"
    using al4_bounds(1) [of "length ?h"] unfolding m encode_file_def pad4_def by auto
  have H: "length (encode_header f) = 110" and meta: "length (cf_meta f) = 6"
    using f by (simp_all add: file_ok_def length_encode_header)
  have dr: "drop (unat off + k) m = drop k (encode_header f @ (cf_name f @ [0] @ z1 @ cf_data f @ z2))" for k
    unfolding z off by simp
  have le: "unat off + 110 \<le> unat len" using ok(2) off H z by simp
  have magic: "take 6 (drop (unat off) m) = cpio_magic"
    using dr [of 0] encode_header_slices(1) [OF meta] by (simp only: add_0_right drop_0)
  obtain ns where ns: "parse_hex8 m (unat off + 94) = Some ns" "unat ns = ?n + 1"
    using parse_hex8_hex8 [of "unat off + 94" m "?n + 1"] f
    unfolding dr encode_header_slices(3) [OF meta] by (auto simp: file_ok_def)
  obtain fs where fs: "parse_hex8 m (unat off + 54) = Some fs" "unat fs = ?d"
    using parse_hex8_hex8 [of "unat off + 54" m ?d] f
    unfolding dr encode_header_slices(2) [OF meta] by (auto simp: file_ok_def)
  have fit: "unat off + 110 + unat ns \<le> unat len" using ok(2) off ns(2) H z by simp
  obtain nl ds where h: "cpio_header m len off =
        Some (Hdr (off + 110) nl (take (unat nl) (drop (unat off + 110) m) = cpio_trailer) ds fs)"
    and u: "unat (off + 110) = unat off + 110"
    and nl: "unat nl = cpio_name_len m (unat off + 110) (unat ns)"
    and ds: "unat ds = al4 (unat off + 110 + unat ns)"
    and de: "unat (ds + fs) = al4 (unat off + 110 + unat ns) + unat fs"
    and an: "unat (align4 (ds + fs)) = al4 (al4 (unat off + 110 + unat ns) + unat fs)"
    using cpio_header_ok [OF ok(1) le magic ns(1) fs(1) fit] by metis
  have "m ! (unat off + 110 + ?n) = 0" unfolding z off using H by (simp add: nth_append)
  then have nl': "unat nl = ?n" using nl ns(2) by (simp add: cpio_name_len_def ac_simps)
  have name: "take (unat nl) (drop (unat off + 110) m) = cf_name f" unfolding dr nl' using H by simp
  have ds': "unat ds = unat off + length (?h @ z1)"
    unfolding ds lz ns(2) add.assoc using al4_mult [OF al, folded off] H by simp
  have data: "take (unat fs) (drop (unat ds) m) = cf_data f"
    unfolding ds' dr fs(2) using H by simp
  have "\<not> len < ds + fs"
    using de ds ds' fs(2) ok(2) off z by (simp add: word_less_nat_alt)
  moreover have "unat (align4 (ds + fs)) = length (pre @ encode_file f)"
  proof -
    have "4 dvd unat ds" using ds al4_bounds(3) by simp
    then have "unat (align4 (ds + fs)) = unat ds + al4 ?d"
      unfolding an ds [symmetric] fs(2) by (rule al4_mult)
    then show ?thesis using ds' lz off by (simp add: encode_file_def)
  qed
  ultimately show thesis using that [of nl ds fs] h name data u by simp
qed

text \<open>A whole archive, at an aligned offset and followed by anything.\<close>

lemma cpio_next_encoded:
  assumes ok: "archive_ok m len" "unat len = length m"
    and m: "m = pre @ encode_file f @ post" and off: "unat off = length pre" and al: "4 dvd length pre"
    and f: "file_ok f" "cf_name f \<noteq> cpio_trailer"
  obtains e off' where "cpio_next m len off = Some (Some (e, off'))" "entry_view m e = file_view f"
    "unat off' = length (pre @ encode_file f)" "archive_size_from m len off = archive_size_from m len off'"
proof -
  obtain nl ds fs where h: "cpio_header m len off = Some (Hdr (off + 110) nl (cf_name f = cpio_trailer) ds fs)"
      "take (unat nl) (drop (unat (off + 110)) m) = cf_name f"
      "take (unat fs) (drop (unat ds) m) = cf_data f"
      "\<not> len < ds + fs" "unat (align4 (ds + fs)) = length (pre @ encode_file f)"
    using cpio_header_encoded [OF ok m off al f(1)] by metis
  let ?e = "\<lparr>cpe_name = off + 110, cpe_name_len = nl, cpe_data = ds, cpe_data_len = fs\<rparr>"
  obtain r where r: "drop (unat off) m = encode_header f @ r"
    unfolding m off encode_file_def pad4_def by simp
  have "length (cf_meta f) = 6" using f(1) by (simp add: file_ok_def)
  from read_ext_encoded [OF r this, of ?e] have "entry_view m ?e = file_view f"
    using h(2,3) by (auto simp: entry_view_def file_view_def entry_name_def entry_data_def)
  moreover have "cpio_next m len off = Some (Some (?e, align4 (ds + fs)))"
    using h(1,4) f(2) by (simp add: cpio_next_def Let_def)
  moreover have "archive_size_from m len off = archive_size_from m len (align4 (ds + fs))"
    using h(1,4) f(2) by (subst archive_size_from.simps) (simp add: Let_def)
  ultimately show thesis using that h(5) by blast
qed

lemma file_ok_trailer: "file_ok trailer_file"
  by (simp add: file_ok_def trailer_file_def)

lemma dvd_encode_file: "4 dvd length (encode_file f)"
  using al4_bounds(3) by (simp add: encode_file_def)

lemma encoded_entries:
  assumes ok: "archive_ok m len" "unat len = length m"
    and m: "m = pre @ encode_archive fs @ post" and off: "unat off = length pre" and al: "4 dvd length pre"
    and fs: "list_all (\<lambda>f. file_ok f \<and> cf_name f \<noteq> cpio_trailer) fs"
  shows "\<exists>es. cpio_entries m len off = Some es \<and> map (entry_view m) es = map file_view fs \<and>
    map_option unat (archive_size_from m len off) = Some (length (pre @ encode_archive fs))"
  using m off al fs
proof (induction fs arbitrary: pre off)
  case Nil
  then have m: "m = pre @ encode_file trailer_file @ post" by (simp add: encode_archive_def)
  have tn: "(cf_name trailer_file = cpio_trailer) = True" by (simp add: trailer_file_def)
  obtain nl ds fs where h: "cpio_header m len off = Some (Hdr (off + 110) nl True ds fs)"
      "unat (align4 (ds + fs)) = length (pre @ encode_file trailer_file)"
    using cpio_header_encoded [OF ok m Nil.prems(2,3) file_ok_trailer] unfolding tn by metis
  then have "cpio_next m len off = Some None" by (simp add: cpio_next_def)
  then have "cpio_entries m len off = Some []" by (subst cpio_entries.simps) simp
  moreover have "archive_size_from m len off = Some (align4 (ds + fs))"
    using h(1) by (subst archive_size_from.simps) (simp add: Let_def)
  ultimately show ?case using h(2) by (simp add: encode_archive_def)
next
  case (Cons f fs)
  then have m1: "m = pre @ encode_file f @ encode_archive fs @ post" by (simp add: encode_archive_def)
  then have m2: "m = (pre @ encode_file f) @ encode_archive fs @ post" by simp
  have f: "file_ok f" "cf_name f \<noteq> cpio_trailer" using Cons.prems(4) by simp_all
  obtain e off' where e: "cpio_next m len off = Some (Some (e, off'))" "entry_view m e = file_view f"
      "unat off' = length (pre @ encode_file f)" "archive_size_from m len off = archive_size_from m len off'"
    using cpio_next_encoded [OF ok m1 Cons.prems(2,3) f] by metis
  have "4 dvd length (pre @ encode_file f)" using Cons.prems(3) dvd_encode_file by simp
  from Cons.IH [OF m2 e(3) this] Cons.prems(4) obtain es where es: "cpio_entries m len off' = Some es"
      "map (entry_view m) es = map file_view fs"
      "map_option unat (archive_size_from m len off') = Some (length ((pre @ encode_file f) @ encode_archive fs))"
    by auto
  have "cpio_entries m len off = Some (e # es)" by (subst cpio_entries.simps) (simp add: e(1) es(1))
  with es e show ?case by (simp add: encode_archive_def)
qed

lemma find_view:
  "map (entry_view m) es = map file_view fs \<Longrightarrow>
   map_option (entry_view m) (find (\<lambda>e. entry_name m e = name) es) =
   map_option file_view (find (\<lambda>f. cf_name f = name) fs)"
proof (induction fs arbitrary: es)
  case Nil
  then show ?case by simp
next
  case (Cons f fs)
  then obtain e es' where es: "es = e # es'" "entry_view m e = file_view f"
      "map (entry_view m) es' = map file_view fs" by auto
  then have "entry_name m e = cf_name f" by (simp add: entry_view_def file_view_def)
  with es Cons.IH [OF es(3)] show ?case by simp
qed

lemma find_file_ext_from_eq:
  assumes ok: "archive_ok m len" and off: "unat off \<le> unat len + 3"
  shows "\<exists>r x. find_file_from m len name off = Some r \<and> find_file_ext_from m len name off = Some x \<and>
    map_option CpioEntry.truncate x = r \<and>
    (\<forall>e. r = Some e \<longrightarrow> read_ext m (cpe_name e - 110) e = x)"
  using off
proof (induction "unat len + 4 - unat off" arbitrary: off rule: less_induct)
  case less
  note steps = find_file_from_step [OF ok less.prems] find_file_ext_from_step [OF ok less.prems]
  from cpio_next_cases [OF ok less.prems] show ?case
  proof (elim disjE exE conjE)
    assume "cpio_next m len off = Some None"
    then show ?thesis by (simp add: steps)
  next
    fix e off' assume n: "cpio_next m len off = Some (Some (e, off'))" and i: "entry_inside len off e off'"
    have "unat len + 4 - unat off' < unat len + 4 - unat off" "unat off' \<le> unat len + 3"
      using i less.prems by (auto simp: entry_inside_def)
    note IH = less.hyps [OF this]
    have "unat off + 110 \<le> length m" using i ok by (auto simp: entry_inside_def archive_ok_def)
    then obtain x where "read_ext m off e = Some x" "CpioEntry.truncate x = e" by (rule read_ext_total)
    with n IH cpio_next_offset [OF n] show ?thesis by (auto simp: steps)
  qed
qed

lemma archive_size_total:
  assumes ok: "archive_ok m len" and off: "unat off \<le> unat len + 3"
  shows "\<exists>n. archive_size_from m len off = Some n"
  using off
proof (induction "unat len + 4 - unat off" arbitrary: off rule: less_induct)
  case less
  show ?case
  proof (rule cpio_header_total [OF ok less.prems])
    fix h assume "cpio_header m len off = Some h" "h = NoHeader \<or> h = BadMagic \<or> h = BadName"
    then show ?thesis by (subst archive_size_from.simps) auto
  next
    fix nl tr ds fs
    assume h: "cpio_header m len off = Some (Hdr (off + 110) nl tr ds fs)"
      "unat off + 110 \<le> unat len" "unat (off + 110) = unat off + 110"
      "unat off + 110 + unat nl \<le> unat ds" "4 dvd unat ds"
      "unat (ds + fs) = unat ds + unat fs" "unat (align4 (ds + fs)) = al4 (unat ds + unat fs)"
    show ?thesis
    proof (cases "tr \<or> len < ds + fs")
      case True
      with h(1) show ?thesis by (subst archive_size_from.simps) (auto simp: Let_def)
    next
      case False
      then have "unat ds + unat fs \<le> unat len" using h(6) by (simp add: word_less_nat_alt)
      then have "unat len + 4 - unat (align4 (ds + fs)) < unat len + 4 - unat off"
        "unat (align4 (ds + fs)) \<le> unat len + 3"
        using al4_bounds(1,2) [of "unat ds + unat fs"] h by linarith+
      from less.hyps [OF this] h(1) False show ?thesis
        by (subst archive_size_from.simps) (simp add: Let_def)
    qed
  qed
qed

section \<open>Properties\<close>

text \<open>C6: On every byte array with a length below 2^63, whatever its contents, a search
  reads only inside the array, ends, and returns the first of the entries that repeated
  calls of \<open>cpio_next\<close> enumerate whose name is the one asked for; names and data of all
  entries lie inside the archive.\<close>

theorem cpio_find_safe:
  assumes "archive_ok m len"
  shows "\<exists>es. cpio_entries m len 0 = Some es \<and>
    cpio_find_file m len name = Some (find (\<lambda>e. entry_name m e = name) es) \<and>
    (\<forall>e\<in>set es. unat (cpe_name e) + unat (cpe_name_len e) \<le> unat (cpe_data e) \<and>
       unat (cpe_data e) + unat (cpe_data_len e) \<le> unat len)"
  using find_file_from_entries [OF assms, of 0 name] by (auto simp: cpio_find_file_def)

theorem cpio_find_safe_witness:
  "\<exists>m es. m = encode_archive [\<lparr>cf_name = [0x61], cf_meta = [7, 0x81A4, 0, 0, 1, 5], cf_data = [1, 2, 3]\<rparr>] @ [9] \<and>
    cpio_entries m (of_nat (length m)) 0 = Some es \<and> length es = 1 \<and>
    cpio_find_file m (of_nat (length m)) [0x61] = Some (find (\<lambda>e. entry_name m e = [0x61]) es) \<and>
    (\<forall>e\<in>set es. unat (cpe_data e) + unat (cpe_data_len e) \<le> length m)"
proof -
  let ?f = "\<lparr>cf_name = [0x61], cf_meta = [7, 0x81A4, 0, 0, 1, 5], cf_data = [1, 2, 3]\<rparr>"
  define m where m: "m = encode_archive [?f] @ [9]"
  have "length m < 1000"
    by (simp add: m encode_archive_def encode_file_def length_encode_header trailer_file_def al4_def)
  then have l: "unat (of_nat (length m) :: u64) = length m" by (intro unat_of_nat_lt64) simp
  with \<open>length m < 1000\<close> have ok: "archive_ok m (of_nat (length m))" by (simp add: archive_ok_def)
  have "list_all (\<lambda>f. file_ok f \<and> cf_name f \<noteq> cpio_trailer) [?f]" by (simp add: file_ok_def cpio_trailer_def)
  with encoded_entries [OF ok l, of "[]" "[?f]" "[9]" 0] m
  obtain es where es: "cpio_entries m (of_nat (length m)) 0 = Some es" "map (entry_view m) es = map file_view [?f]" by auto
  from arg_cong [OF es(2), of length] have "length es = 1" by simp
  with cpio_find_safe [OF ok, of "[0x61]"] es(1) l m show ?thesis by auto
qed

text \<open>Fact: The extended search is safe and ends under the same conditions, it finds exactly
  the entry that the plain search finds, and its metadata are read from the header of that
  entry.\<close>

theorem cpio_find_ext_agrees:
  assumes "archive_ok m len"
  shows "\<exists>r x. cpio_find_file m len name = Some r \<and> cpio_find_file_ext m len name = Some x \<and>
    map_option CpioEntry.truncate x = r \<and>
    (\<forall>e. r = Some e \<longrightarrow> read_ext m (cpe_name e - CPIO_HEADER_SIZE) e = x)"
  using find_file_ext_from_eq [OF assms, of 0 name]
  by (simp add: cpio_find_file_def cpio_find_file_ext_def)

theorem cpio_find_ext_agrees_witness:
  "\<exists>r x. cpio_find_file (replicate 200 0x30) 200 [0x61] = Some r \<and>
    cpio_find_file_ext (replicate 200 0x30) 200 [0x61] = Some x \<and> map_option CpioEntry.truncate x = r"
proof -
  have "archive_ok (replicate 200 0x30) 200" by (simp add: archive_ok_def)
  from cpio_find_ext_agrees [OF this, of "[0x61]"] show ?thesis by blast
qed

text \<open>C5: In an archive written in newc format, and whatever follows it in memory, a search
  returns the first file of the given name with its data and metadata, or nothing when there
  is no such file, and \<open>cpio_archive_size\<close> is the length of the archive with its trailer.\<close>

theorem cpio_round_trip:
  assumes fs: "list_all (\<lambda>f. file_ok f \<and> cf_name f \<noteq> cpio_trailer) fs"
    and m: "m = encode_archive fs @ post" and len: "length m < 2 ^ 63"
  shows "\<exists>r. cpio_find_file m (of_nat (length m)) name = Some r \<and>
    map_option (entry_view m) r = map_option file_view (find (\<lambda>f. cf_name f = name) fs) \<and>
    cpio_archive_size m (of_nat (length m)) = Some (of_nat (length (encode_archive fs)))"
proof -
  let ?l = "of_nat (length m) :: u64"
  have l: "unat ?l = length m" using len by (intro unat_of_nat_lt64) simp
  have ok: "archive_ok m ?l" using l len by (simp add: archive_ok_def)
  obtain es where es: "cpio_entries m ?l 0 = Some es" "map (entry_view m) es = map file_view fs"
      "map_option unat (archive_size_from m ?l 0) = Some (length (encode_archive fs))"
    using encoded_entries [OF ok l, of "[]" fs post 0] m fs by auto
  have "find_file_from m ?l name 0 = Some (find (\<lambda>e. entry_name m e = name) es)"
    using find_file_from_entries [OF ok, of 0 name] es(1) by auto
  moreover have "archive_size_from m ?l 0 = Some (of_nat (length (encode_archive fs)))"
  proof -
    obtain z where z: "archive_size_from m ?l 0 = Some z" "unat z = length (encode_archive fs)"
      using es(3) by auto
    have "z = of_nat (length (encode_archive fs))" unfolding z(2) [symmetric] by simp
    with z(1) show ?thesis by simp
  qed
  ultimately show ?thesis using find_view [OF es(2)]
    by (simp add: cpio_find_file_def cpio_archive_size_def)
qed

theorem cpio_round_trip_witness:
  "\<exists>m r. m = encode_archive [\<lparr>cf_name = [0x61], cf_meta = [7, 0x81A4, 0, 0, 1, 5], cf_data = [1, 2, 3]\<rparr>] @ [9] \<and>
    cpio_find_file m (of_nat (length m)) [0x61] = Some r \<and>
    map_option (entry_view m) r = Some ([0x61], [1, 2, 3], Some [7, 0x81A4, 0, 0, 1, 5])"
proof -
  let ?f = "\<lparr>cf_name = [0x61], cf_meta = [7, 0x81A4, 0, 0, 1, 5], cf_data = [1, 2, 3]\<rparr>"
  have "list_all (\<lambda>f. file_ok f \<and> cf_name f \<noteq> cpio_trailer) [?f]"
    by (simp add: file_ok_def cpio_trailer_def)
  moreover define m where m: "m = encode_archive [?f] @ [9]"
  moreover have "length m < 1000"
    by (simp add: m encode_archive_def encode_file_def length_encode_header trailer_file_def al4_def)
  then have "length m < 2 ^ 63" by simp
  ultimately obtain r where r: "cpio_find_file m (of_nat (length m)) [0x61] = Some r"
      "map_option (entry_view m) r = map_option file_view (find (\<lambda>f. cf_name f = [0x61]) [?f])"
    using cpio_round_trip [of "[?f]" m "[9]" "[0x61]"] by blast
  from r(2) have "map_option (entry_view m) r = Some ([0x61], [1, 2, 3], Some [7, 0x81A4, 0, 0, 1, 5])"
    by (simp add: file_view_def)
  with m r(1) show ?thesis by blast
qed

text \<open>Fact: \<open>cpio_archive_size\<close> reads inside the array and ends, but its result is not bounded by
  \<open>max_len\<close>: the trailer is accepted before its data size is checked, so a trailer that
  announces 256 bytes of data makes the size 380 in an array of 124 bytes.\<close>

theorem cpio_archive_size_beyond:
  "(\<forall>m len. archive_ok m len \<longrightarrow> cpio_archive_size m len \<noteq> None) \<and>
   (\<exists>m. length m = 124 \<and> archive_ok m 124 \<and> cpio_archive_size m 124 = Some 380)"
proof (intro conjI allI impI)
  fix m len assume "archive_ok m len"
  from archive_size_total [OF this, of 0] show "cpio_archive_size m len \<noteq> None"
    by (auto simp: cpio_archive_size_def)
next
  let ?m = "cpio_magic @ concat (replicate 6 (hex8 0)) @ hex8 256 @ concat (replicate 4 (hex8 0)) @
    hex8 11 @ hex8 0 @ cpio_trailer @ replicate 4 0"
  have "cpio_header ?m 124 0 = Some (Hdr 110 10 True 124 256)" by code_simp
  then have "cpio_archive_size ?m 124 = Some 380"
    unfolding cpio_archive_size_def by (subst archive_size_from.simps) (simp add: align4_def)
  moreover have "length ?m = 124" by code_simp
  ultimately show "\<exists>m. length m = 124 \<and> archive_ok m 124 \<and> cpio_archive_size m 124 = Some 380"
    by (intro exI [of _ ?m]) (simp add: archive_ok_def)
qed

theorem cpio_archive_size_beyond_witness:
  "cpio_archive_size (replicate 200 0x30) 200 \<noteq> None"
  using cpio_archive_size_beyond by (auto simp: archive_ok_def)

end
