(* ===== verification/Layout.thy ===== *)
theory Layout
  imports Kernel_Abi
begin

text \<open>
  The planner of a child process, \<^verbatim>\<open>substrate/layout.rs\<close>: the ranges of its CSpace
  and the regions of its address space, with and without randomisation.
  Addresses are 64-bit words whose arithmetic wraps; the random number generator
  is a parameter, a function on its own state that may fail.
\<close>

section \<open>CSpace\<close>

abbreviation (input) MAX_CSPACE_EXPANSIONS64 :: u64 where "MAX_CSPACE_EXPANSIONS64 \<equiv> 8"
abbreviation (input) AUTHORITY_RECV_SLOT_COUNT :: u64 where "AUTHORITY_RECV_SLOT_COUNT \<equiv> 1024"
abbreviation (input) CHILD_FRAME_SLOT_BASE :: u64 where "CHILD_FRAME_SLOT_BASE \<equiv> 64"
abbreviation (input) FLAG_HAS_RECV_RANGE :: u64 where "FLAG_HAS_RECV_RANGE \<equiv> 1"
abbreviation (input) FLAG_HAS_EXPAND_RANGE :: u64 where "FLAG_HAS_EXPAND_RANGE \<equiv> 2"

record TronaCspaceLayoutV1 =
  cl_version :: u64
  cl_flags :: u64
  cl_cnode_bits :: u64
  cl_frame_slot_base :: u64
  cl_alloc_base :: u64
  cl_alloc_limit :: u64
  cl_recv_base :: u64
  cl_recv_limit :: u64
  cl_expand_base :: u64
  cl_expand_limit :: u64

definition TronaCspaceLayoutV1_zeroed :: TronaCspaceLayoutV1 where
  "TronaCspaceLayoutV1_zeroed =
     \<lparr>cl_version = 0, cl_flags = 0, cl_cnode_bits = 0, cl_frame_slot_base = 0, cl_alloc_base = 0,
      cl_alloc_limit = 0, cl_recv_base = 0, cl_recv_limit = 0, cl_expand_base = 0, cl_expand_limit = 0\<rparr>"

definition alloc_count :: "TronaCspaceLayoutV1 \<Rightarrow> u64" where
  "alloc_count l =
     (if cl_alloc_base l < cl_alloc_limit l then cl_alloc_limit l - cl_alloc_base l else 0)"

definition recv_count :: "TronaCspaceLayoutV1 \<Rightarrow> u64" where
  "recv_count l =
     (if cl_recv_base l < cl_recv_limit l then cl_recv_limit l - cl_recv_base l else 0)"

definition has_recv_range :: "TronaCspaceLayoutV1 \<Rightarrow> bool" where
  "has_recv_range l \<longleftrightarrow> cl_recv_base l < cl_recv_limit l"

definition has_expand_range :: "TronaCspaceLayoutV1 \<Rightarrow> bool" where
  "has_expand_range l \<longleftrightarrow> cl_expand_base l < cl_expand_limit l"

datatype CspaceLayoutProfile = DefaultService | Pager | BootstrapAuthority

text \<open>The parts of \<open>compute_cspace_layout\<close>, one per variable it binds.\<close>

definition layout_total_slots :: "u64 \<Rightarrow> u64" where
  "layout_total_slots cnode_bits = (if 63 \<le> cnode_bits then 0 else push_bit (unat cnode_bits) 1)"

definition layout_recv :: "CspaceLayoutProfile \<Rightarrow> u64 \<Rightarrow> u64 \<times> u64" where
  "layout_recv profile total_slots =
     (if (profile = Pager \<or> profile = BootstrapAuthority) \<and> total_slots \<noteq> 0
      then let reserve = (if AUTHORITY_RECV_SLOT_COUNT < total_slots
                          then AUTHORITY_RECV_SLOT_COUNT else total_slots)
           in (saturating_sub total_slots reserve, total_slots)
      else (0, 0))"

definition layout_expand :: "bool \<Rightarrow> u64 \<Rightarrow> u64 \<times> u64" where
  "layout_expand has_expand_window total_slots =
     (if has_expand_window
      then let base = (if CSPACE_EXPAND_BASE < total_slots then CSPACE_EXPAND_BASE else total_slots);
               requested = CSPACE_EXPAND_BASE + MAX_CSPACE_EXPANSIONS64;
               limit = (if total_slots < requested then total_slots else requested)
           in if base < limit then (base, limit) else (0, 0)
      else (0, 0))"

definition compute_cspace_layout ::
  "u64 \<Rightarrow> u64 \<Rightarrow> CspaceLayoutProfile \<Rightarrow> bool \<Rightarrow> TronaCspaceLayoutV1" where
  "compute_cspace_layout cnode_bits frame_slot_floor profile has_expand_window =
     (let total_slots = layout_total_slots cnode_bits;
          frame_slot_base = (if CHILD_FRAME_SLOT_BASE < frame_slot_floor
                             then frame_slot_floor else CHILD_FRAME_SLOT_BASE);
          (recv_base, recv_limit) = layout_recv profile total_slots;
          (expand_base, expand_limit) = layout_expand has_expand_window total_slots;
          alloc_limit = total_slots;
          alloc_limit = (if expand_base < expand_limit \<and> expand_base < alloc_limit
                         then expand_base else alloc_limit);
          alloc_limit = (if recv_base < recv_limit \<and> recv_base < alloc_limit
                         then recv_base else alloc_limit);
          alloc_base = (if frame_slot_base < alloc_limit then frame_slot_base else alloc_limit);
          flags = 0;
          flags = (if recv_base < recv_limit then flags OR FLAG_HAS_RECV_RANGE else flags);
          flags = (if expand_base < expand_limit then flags OR FLAG_HAS_EXPAND_RANGE else flags)
      in \<lparr>cl_version = 1, cl_flags = flags, cl_cnode_bits = cnode_bits,
          cl_frame_slot_base = frame_slot_base, cl_alloc_base = alloc_base,
          cl_alloc_limit = alloc_limit, cl_recv_base = recv_base, cl_recv_limit = recv_limit,
          cl_expand_base = expand_base, cl_expand_limit = expand_limit\<rparr>)"

section \<open>Address space\<close>

abbreviation (input) IPC_BUF_BASE :: u64 where "IPC_BUF_BASE \<equiv> 0x200000"
abbreviation (input) ELF_CODE_BASE :: u64 where "ELF_CODE_BASE \<equiv> 0x210000"
abbreviation (input) DEFAULT_STACK_BASE :: u64 where "DEFAULT_STACK_BASE \<equiv> 0x3F8000"
abbreviation (input) WINDOW2_STACK_BASE :: u64 where "WINDOW2_STACK_BASE \<equiv> 0x7F8000"
abbreviation (input) STACK_SIZE :: u64 where "STACK_SIZE \<equiv> 0x20000"
abbreviation (input) INITRD_BASE :: u64 where "INITRD_BASE \<equiv> 0x1000000"
abbreviation (input) MMAP_BASE_GAP :: u64 where "MMAP_BASE_GAP \<equiv> 0x10000000"
abbreviation (input) ASLR_CODE_MAX_PAGES :: u64 where "ASLR_CODE_MAX_PAGES \<equiv> 256"
abbreviation (input) ASLR_STACK_MAX_PAGES :: u64 where "ASLR_STACK_MAX_PAGES \<equiv> 64"

record VmRegion =
  rg_base :: u64
  rg_size :: u64

definition VmRegion_zero :: VmRegion where
  "VmRegion_zero = \<lparr>rg_base = 0, rg_size = 0\<rparr>"

definition region_end :: "VmRegion \<Rightarrow> u64" where
  "region_end r = rg_base r + rg_size r"

definition page_count :: "VmRegion \<Rightarrow> u64" where
  "page_count r = rg_size r div 0x1000"

record VmLayoutPlan =
  pl_ipc_buf :: VmRegion
  pl_elf_code :: VmRegion
  pl_rtld :: VmRegion
  pl_shared_libs :: VmRegion
  pl_stack :: VmRegion
  pl_scratch :: VmRegion
  pl_initrd :: VmRegion
  pl_stack_top :: u64

definition VmLayoutPlan_zeroed :: VmLayoutPlan where
  "VmLayoutPlan_zeroed =
     \<lparr>pl_ipc_buf = VmRegion_zero, pl_elf_code = VmRegion_zero, pl_rtld = VmRegion_zero,
      pl_shared_libs = VmRegion_zero, pl_stack = VmRegion_zero, pl_scratch = VmRegion_zero,
      pl_initrd = VmRegion_zero, pl_stack_top = 0\<rparr>"

definition page_align_up :: "u64 \<Rightarrow> u64" where
  "page_align_up v = (v + 0xFFF) AND NOT 0xFFF"

definition code_end :: "VmLayoutPlan \<Rightarrow> u64" where
  "code_end p =
     (if 0 < rg_size (pl_shared_libs p) then region_end (pl_shared_libs p)
      else if 0 < rg_size (pl_rtld p) then region_end (pl_rtld p)
      else region_end (pl_elf_code p))"

text \<open>Raising a limit to the end of a nonempty region, in \<open>heap_base\<close> and \<open>max_mapped_end\<close>.\<close>

definition raise_end :: "VmRegion \<Rightarrow> u64 \<Rightarrow> u64" where
  "raise_end r highest =
     (if 0 < rg_size r \<and> highest < region_end r then region_end r else highest)"

definition heap_base :: "VmLayoutPlan \<Rightarrow> u64" where
  "heap_base p =
     (let highest = code_end p;
          highest = raise_end (pl_stack p) highest;
          highest = raise_end (pl_scratch p) highest;
          highest = raise_end (pl_initrd p) highest
      in page_align_up highest)"

definition plan_regions :: "VmLayoutPlan \<Rightarrow> VmRegion list" where
  "plan_regions p =
     [pl_ipc_buf p, pl_elf_code p, pl_rtld p, pl_shared_libs p, pl_stack p, pl_scratch p, pl_initrd p]"

definition max_mapped_end :: "VmLayoutPlan \<Rightarrow> u64" where
  "max_mapped_end p =
     fold raise_end (plan_regions p) 0"

definition compute_mmap_base :: "VmLayoutPlan \<Rightarrow> u64 \<Rightarrow> u64" where
  "compute_mmap_base p heap =
     (let high = max (max_mapped_end p) heap
      in page_align_up (saturating_add high MMAP_BASE_GAP))"

text \<open>
  The code regions above a base and the end of the highest one, as both planners
  compute them.
\<close>

definition place_rtld :: "VmRegion \<Rightarrow> u64 \<Rightarrow> VmRegion" where
  "place_rtld elf_code rtld_span =
     (if 0 < rtld_span
      then \<lparr>rg_base = page_align_up (region_end elf_code + 0x1000), rg_size = page_align_up rtld_span\<rparr>
      else VmRegion_zero)"

definition place_shared :: "VmRegion \<Rightarrow> u64 \<Rightarrow> VmRegion" where
  "place_shared rtld shared_lib_cache_pages =
     (if 0 < shared_lib_cache_pages \<and> 0 < rg_size rtld
      then \<lparr>rg_base = page_align_up (region_end rtld + 0x1000), rg_size = shared_lib_cache_pages * 0x1000\<rparr>
      else VmRegion_zero)"

definition place_code_end :: "VmRegion \<Rightarrow> VmRegion \<Rightarrow> VmRegion \<Rightarrow> u64" where
  "place_code_end elf_code rtld shared_libs =
     (if 0 < rg_size shared_libs then region_end shared_libs
      else if 0 < rg_size rtld then region_end rtld
      else region_end elf_code)"

text \<open>Stack and scratch page of the deterministic planner, and its initrd window.\<close>

definition place_stack :: "u64 \<Rightarrow> VmRegion \<times> VmRegion \<times> u64" where
  "place_stack c_end =
     (if c_end \<le> DEFAULT_STACK_BASE
      then (\<lparr>rg_base = DEFAULT_STACK_BASE, rg_size = STACK_SIZE\<rparr>,
            \<lparr>rg_base = DEFAULT_STACK_BASE + STACK_SIZE, rg_size = 0x1000\<rparr>,
            DEFAULT_STACK_BASE + STACK_SIZE)
      else if c_end \<le> WINDOW2_STACK_BASE
      then (\<lparr>rg_base = WINDOW2_STACK_BASE, rg_size = STACK_SIZE\<rparr>,
            \<lparr>rg_base = WINDOW2_STACK_BASE + STACK_SIZE, rg_size = 0x1000\<rparr>,
            WINDOW2_STACK_BASE + STACK_SIZE)
      else let sbase = page_align_up (c_end + 0x10000)
           in (\<lparr>rg_base = sbase, rg_size = STACK_SIZE\<rparr>,
               \<lparr>rg_base = sbase + STACK_SIZE, rg_size = 0x1000\<rparr>,
               sbase + STACK_SIZE))"

definition place_initrd :: "VmRegion \<Rightarrow> bool \<Rightarrow> u64 \<Rightarrow> VmRegion" where
  "place_initrd scratch map_initrd initrd_window_size =
     (if map_initrd \<and> 0 < initrd_window_size
      then let initrd_base = (if 0 < rg_size scratch \<and> INITRD_BASE < region_end scratch
                              then page_align_up (region_end scratch + 0x1000) else INITRD_BASE)
           in \<lparr>rg_base = initrd_base, rg_size = page_align_up initrd_window_size\<rparr>
      else VmRegion_zero)"

definition compute_vm_layout :: "u64 \<Rightarrow> u64 \<Rightarrow> u64 \<Rightarrow> bool \<Rightarrow> u64 \<Rightarrow> VmLayoutPlan" where
  "compute_vm_layout elf_span rtld_span shared_lib_cache_pages map_initrd initrd_window_size =
     (let ipc_buf = \<lparr>rg_base = IPC_BUF_BASE, rg_size = 0x1000\<rparr>;
          elf_code = \<lparr>rg_base = ELF_CODE_BASE, rg_size = page_align_up elf_span\<rparr>;
          rtld = place_rtld elf_code rtld_span;
          shared_libs = place_shared rtld shared_lib_cache_pages;
          (stack, scratch, stack_top) = place_stack (place_code_end elf_code rtld shared_libs);
          initrd = place_initrd scratch map_initrd initrd_window_size
      in \<lparr>pl_ipc_buf = ipc_buf, pl_elf_code = elf_code, pl_rtld = rtld, pl_shared_libs = shared_libs,
          pl_stack = stack, pl_scratch = scratch, pl_initrd = initrd, pl_stack_top = stack_top\<rparr>)"

definition random_slide :: "u64 option \<Rightarrow> u64 \<Rightarrow> u64" where
  "random_slide r max_pages = (case r of Some v \<Rightarrow> (v mod max_pages) * 0x1000 | None \<Rightarrow> 0)"

definition place_stack_slide :: "u64 \<Rightarrow> u64 \<Rightarrow> (VmRegion \<times> VmRegion \<times> u64) option" where
  "place_stack_slide c_end stack_slide =
     (if c_end \<le> saturating_sub DEFAULT_STACK_BASE stack_slide
      then let sbase = DEFAULT_STACK_BASE - stack_slide
           in Some (\<lparr>rg_base = sbase, rg_size = STACK_SIZE\<rparr>,
                    \<lparr>rg_base = sbase + STACK_SIZE, rg_size = 0x1000\<rparr>, sbase + STACK_SIZE)
      else if c_end \<le> saturating_sub WINDOW2_STACK_BASE stack_slide
      then let sbase = WINDOW2_STACK_BASE - stack_slide
           in Some (\<lparr>rg_base = sbase, rg_size = STACK_SIZE\<rparr>,
                    \<lparr>rg_base = sbase + STACK_SIZE, rg_size = 0x1000\<rparr>, sbase + STACK_SIZE)
      else None)"

definition compute_vm_layout_randomized ::
  "('s \<Rightarrow> u64 option \<times> 's) \<Rightarrow> u64 \<Rightarrow> u64 \<Rightarrow> u64 \<Rightarrow> bool \<Rightarrow> u64 \<Rightarrow> 's \<Rightarrow> VmLayoutPlan \<times> 's" where
  "compute_vm_layout_randomized rand_u64 elf_span rtld_span shared_lib_cache_pages map_initrd
       initrd_window_size s =
     (let (r1, s1) = rand_u64 s;
          (r2, s2) = rand_u64 s1;
          code_slide = random_slide r1 ASLR_CODE_MAX_PAGES;
          stack_slide = random_slide r2 ASLR_STACK_MAX_PAGES;
          fallback = compute_vm_layout elf_span rtld_span shared_lib_cache_pages map_initrd
                       initrd_window_size;
          ipc_buf = \<lparr>rg_base = IPC_BUF_BASE, rg_size = 0x1000\<rparr>;
          elf_code = \<lparr>rg_base = ELF_CODE_BASE + code_slide, rg_size = page_align_up elf_span\<rparr>;
          rtld = place_rtld elf_code rtld_span;
          shared_libs = place_shared rtld shared_lib_cache_pages
      in case place_stack_slide (place_code_end elf_code rtld shared_libs) stack_slide of
           None \<Rightarrow> (fallback, s2)
         | Some (stack, scratch, stack_top) \<Rightarrow>
             if rg_base scratch < region_end stack then (fallback, s2)
             else let initrd = (if map_initrd \<and> 0 < initrd_window_size
                                then \<lparr>rg_base = INITRD_BASE, rg_size = page_align_up initrd_window_size\<rparr>
                                else VmRegion_zero)
                  in (\<lparr>pl_ipc_buf = ipc_buf, pl_elf_code = elf_code, pl_rtld = rtld,
                       pl_shared_libs = shared_libs, pl_stack = stack, pl_scratch = scratch,
                       pl_initrd = initrd, pl_stack_top = stack_top\<rparr>, s2))"

section \<open>Specification\<close>

definition page_up :: "nat \<Rightarrow> nat" where
  "page_up n = (n + 4095) div 4096 * 4096"

text \<open>
  A region of whole pages that ends far below the end of the 64-bit address space, so
  that sums of its end with the gaps of the planner do not wrap.
\<close>

definition region_ok :: "VmRegion \<Rightarrow> bool" where
  "region_ok r \<longleftrightarrow> 4096 dvd unat (rg_base r) \<and> 4096 dvd unat (rg_size r) \<and>
     unat (rg_base r) + unat (rg_size r) < 2 ^ 63 + 2 ^ 26"

definition below :: "VmRegion \<Rightarrow> VmRegion \<Rightarrow> bool" where
  "below a b \<longleftrightarrow> rg_size a = 0 \<or> rg_size b = 0 \<or>
     unat (rg_base a) + unat (rg_size a) \<le> unat (rg_base b)"

text \<open>The regions of a plan are whole pages, and in ascending order without overlap.\<close>

definition plan_ok :: "VmLayoutPlan \<Rightarrow> bool" where
  "plan_ok p \<longleftrightarrow> list_all region_ok (plan_regions p) \<and> sorted_wrt below (plan_regions p) \<and>
     pl_stack_top p = region_end (pl_stack p) \<and> unat (rg_size (pl_stack p)) = 0x20000 \<and>
     pl_stack_top p \<noteq> 0"

definition spans_ok :: "u64 \<Rightarrow> u64 \<Rightarrow> u64 \<Rightarrow> u64 \<Rightarrow> bool" where
  "spans_ok elf_span rtld_span pages initrd \<longleftrightarrow>
     unat elf_span + unat rtld_span + 4096 * unat pages + unat initrd < 2 ^ 63"

text \<open>The addresses of a region.\<close>

definition region_addrs :: "VmRegion \<Rightarrow> nat set" where
  "region_addrs r = {unat (rg_base r)..<unat (rg_base r) + unat (rg_size r)}"

text \<open>The slots of the three ranges of a CSpace.\<close>

definition alloc_slots :: "TronaCspaceLayoutV1 \<Rightarrow> nat set" where
  "alloc_slots l = {unat (cl_alloc_base l)..<unat (cl_alloc_limit l)}"

definition recv_slots :: "TronaCspaceLayoutV1 \<Rightarrow> nat set" where
  "recv_slots l = {unat (cl_recv_base l)..<unat (cl_recv_limit l)}"

definition expand_slots :: "TronaCspaceLayoutV1 \<Rightarrow> nat set" where
  "expand_slots l = {unat (cl_expand_base l)..<unat (cl_expand_limit l)}"

text \<open>The three code regions lie in order between their base and their common end.\<close>

definition code_placed :: "nat \<Rightarrow> nat \<Rightarrow> VmRegion \<Rightarrow> bool" where
  "code_placed base c_end r \<longleftrightarrow> region_ok r \<and>
     (rg_size r = 0 \<or> base \<le> unat (rg_base r) \<and> unat (rg_base r) + unat (rg_size r) \<le> c_end)"

section \<open>Pages\<close>

lemma unat_page_align_up:
  assumes "unat v + 4095 < 2 ^ 64"
  shows "unat (page_align_up v) = page_up (unat v)"
proof -
  have "page_align_up v = (v + 0xFFF) AND NOT (mask 12)"
    by (simp add: page_align_up_def mask_eq_exp_minus_1)
  then have "unat (page_align_up v) = unat (v + 0xFFF) div 4096 * 4096"
    using unat_and_not_mask [of "v + 0xFFF" 12] by simp
  moreover have "unat (v + 0xFFF) = unat v + 4095" using assms by (subst unat_add_le) simp_all
  ultimately show ?thesis by (simp add: page_up_def)
qed

lemma page_up_bounds: "n \<le> page_up n" "page_up n \<le> n + 4095" "4096 dvd page_up n"
  by (simp_all add: page_up_def)

lemma page_up_dvd: "4096 dvd n \<Longrightarrow> page_up n = n"
  by (elim dvdE) (simp add: page_up_def)

lemma page_up_pos: "0 < page_up n \<longleftrightarrow> 0 < n"
  using page_up_bounds(1) [of n] by (auto simp: page_up_def)

lemma unat_region_end: "unat (rg_base r) + unat (rg_size r) < 2 ^ 64 \<Longrightarrow>
    unat (region_end r) = unat (rg_base r) + unat (rg_size r)"
  unfolding region_end_def by (subst unat_add_le) simp_all

text \<open>The first page boundary after a gap above an aligned address.\<close>

lemma unat_next_page:
  assumes "4096 dvd unat e" "4096 dvd unat g" "unat e + unat g + 4096 < 2 ^ 64"
  shows "unat (page_align_up (e + g)) = unat e + unat g"
proof -
  have u: "unat (e + g) = unat e + unat g" using assms(3) by (subst unat_add_le) simp_all
  then have "unat (page_align_up (e + g)) = page_up (unat (e + g))"
    using assms(3) by (intro unat_page_align_up) simp
  then show ?thesis using u assms(1,2) by (simp add: page_up_dvd)
qed

lemma region_simps [simp]: "rg_base VmRegion_zero = 0" "rg_size VmRegion_zero = 0"
  "region_ok VmRegion_zero" "below a VmRegion_zero" "below VmRegion_zero a"
  by (simp_all add: VmRegion_zero_def region_ok_def below_def)

section \<open>Code regions\<close>

lemma place_rtld_spec:
  assumes r: "r = place_rtld e span" and e: "region_ok e"
    and b: "unat (rg_base e) + unat (rg_size e) + unat span + 3 * 4096 < 2 ^ 63 + 2 ^ 26"
  shows "(span = 0 \<and> r = VmRegion_zero) \<or>
    (region_ok r \<and> 0 < unat (rg_size r) \<and> unat (rg_size r) \<le> unat span + 4095 \<and>
     unat (rg_base r) = unat (rg_base e) + unat (rg_size e) + 4096)"
proof (cases "span = 0")
  case True
  then show ?thesis by (simp add: r place_rtld_def)
next
  case False
  have ue: "unat (region_end e) = unat (rg_base e) + unat (rg_size e)"
    using e by (simp add: region_ok_def unat_region_end)
  have 1: "unat (page_align_up (region_end e + 0x1000)) = unat (region_end e) + unat (0x1000 :: u64)"
    using e b ue by (intro unat_next_page) (simp_all add: region_ok_def)
  have 2: "unat (page_align_up span) = page_up (unat span)"
    using b by (intro unat_page_align_up) simp
  from False have "0 < unat span" by (simp add: unat_gt_0)
  with 1 2 ue e b False page_up_bounds [of "unat span"] page_up_pos [of "unat span"]
  show ?thesis by (auto simp: r place_rtld_def region_ok_def word_less_nat_alt)
qed

lemma unat_pages:
  fixes pages :: u64
  assumes "4096 * unat pages < 2 ^ 63"
  shows "unat (pages * 0x1000) = 4096 * unat pages"
  using assms by (simp add: unat_word_ariths)

lemma place_shared_spec:
  assumes r: "r = place_shared e pages" and e: "region_ok e"
    and b: "unat (rg_base e) + unat (rg_size e) + 4096 * unat pages + 2 * 4096 < 2 ^ 63 + 2 ^ 26"
      "4096 * unat pages < 2 ^ 63"
  shows "r = VmRegion_zero \<or>
    (region_ok r \<and> 0 < unat (rg_size r) \<and> unat (rg_size r) = 4096 * unat pages \<and>
     0 < unat (rg_size e) \<and> unat (rg_base r) = unat (rg_base e) + unat (rg_size e) + 4096)"
proof (cases "0 < pages \<and> 0 < rg_size e")
  case False
  then show ?thesis by (auto simp: r place_shared_def)
next
  case True
  have ue: "unat (region_end e) = unat (rg_base e) + unat (rg_size e)"
    using e by (simp add: region_ok_def unat_region_end)
  have 1: "unat (page_align_up (region_end e + 0x1000)) = unat (region_end e) + unat (0x1000 :: u64)"
    using e b ue by (intro unat_next_page) (simp_all add: region_ok_def)
  with True unat_pages [OF b(2)] ue e b show ?thesis
    by (simp add: r place_shared_def region_ok_def word_less_nat_alt)
qed

lemma word_pos_unat: "0 < (w :: u64) \<longleftrightarrow> 0 < unat w" "w = 0 \<longleftrightarrow> unat w = 0"
  by (simp_all add: word_less_nat_alt unsigned_eq_0_iff)

lemma code_regions_spec:
  assumes base: "4096 dvd unat base" "unat base < 2 ^ 24"
    and elf: "elf = \<lparr>rg_base = base, rg_size = page_align_up elf_span\<rparr>"
    and rtld: "rtld = place_rtld elf rtld_span" and shared: "shared = place_shared rtld pages"
    and spans: "spans_ok elf_span rtld_span pages initrd"
    and c: "c = place_code_end elf rtld shared"
  shows "list_all (code_placed (unat base) (unat c)) [elf, rtld, shared]"
    "sorted_wrt below [elf, rtld, shared]"
    "unat base \<le> unat c" "4096 dvd unat c" "unat c + unat initrd < 2 ^ 63 + 2 ^ 25"
proof -
  note sp = spans [unfolded spans_ok_def]
  have pu: "unat (page_align_up elf_span) = page_up (unat elf_span)"
    using sp by (intro unat_page_align_up) simp
  have E: "region_ok elf" "unat (rg_size elf) \<le> unat elf_span + 4095" "unat (rg_base elf) = unat base"
    using base sp pu page_up_bounds(2,3) [of "unat elf_span"]
    unfolding elf region_ok_def by auto
  have R: "(rtld_span = 0 \<and> rtld = VmRegion_zero) \<or>
     (region_ok rtld \<and> 0 < unat (rg_size rtld) \<and> unat (rg_size rtld) \<le> unat rtld_span + 4095 \<and>
      unat (rg_base rtld) = unat (rg_base elf) + unat (rg_size elf) + 4096)"
    by (rule place_rtld_spec [OF rtld E(1)]) (use E sp base in simp)
  have Rok: "region_ok rtld" using R by auto
  have S: "shared = VmRegion_zero \<or>
     (region_ok shared \<and> 0 < unat (rg_size shared) \<and> unat (rg_size shared) = 4096 * unat pages \<and>
      0 < unat (rg_size rtld) \<and> unat (rg_base shared) = unat (rg_base rtld) + unat (rg_size rtld) + 4096)"
    by (rule place_shared_spec [OF shared Rok]) (use R E sp base in auto)
  note ends = unat_region_end [of elf] unat_region_end [of rtld] unat_region_end [of shared]
  have uc: "unat c = (if 0 < unat (rg_size shared) then unat (rg_base shared) + unat (rg_size shared)
      else if 0 < unat (rg_size rtld) then unat (rg_base rtld) + unat (rg_size rtld)
      else unat (rg_base elf) + unat (rg_size elf))"
    using E Rok S ends by (auto simp: c place_code_end_def word_pos_unat region_ok_def)
  show "list_all (code_placed (unat base) (unat c)) [elf, rtld, shared]"
    using uc E R S by (auto simp: code_placed_def word_pos_unat)
  show "sorted_wrt below [elf, rtld, shared]" using R S by (auto simp: below_def)
  show "unat base \<le> unat c" using uc E R S by auto
  show "4096 dvd unat c" using uc E R S by (auto simp: region_ok_def)
  show "unat c + unat initrd < 2 ^ 63 + 2 ^ 25" using uc E R S sp base by auto
qed

section \<open>Plans\<close>

text \<open>A plan from code regions that end at \<open>c\<close>, a stack above, a scratch page and an initrd above that.\<close>

lemma plan_okI:
  assumes code: "list_all (code_placed (unat base) (unat c)) [elf, rtld, shared]"
      "sorted_wrt below [elf, rtld, shared]" "unat ELF_CODE_BASE \<le> unat base"
    and stk: "4096 dvd unat sb" "unat c \<le> unat sb" "unat sb + 0x21000 < 2 ^ 63 + 2 ^ 26"
    and sb: "unat ELF_CODE_BASE \<le> unat sb"
    and ini: "region_ok ini" "rg_size ini = 0 \<or> unat sb + 0x21000 \<le> unat (rg_base ini)"
  shows "plan_ok \<lparr>pl_ipc_buf = \<lparr>rg_base = IPC_BUF_BASE, rg_size = 0x1000\<rparr>, pl_elf_code = elf,
     pl_rtld = rtld, pl_shared_libs = shared, pl_stack = \<lparr>rg_base = sb, rg_size = STACK_SIZE\<rparr>,
     pl_scratch = \<lparr>rg_base = sb + STACK_SIZE, rg_size = 0x1000\<rparr>, pl_initrd = ini,
     pl_stack_top = sb + STACK_SIZE\<rparr>"
proof -
  let ?ipc = "\<lparr>rg_base = 0x200000, rg_size = 0x1000\<rparr> :: VmRegion"
  let ?stk = "\<lparr>rg_base = sb, rg_size = 0x20000\<rparr> :: VmRegion"
  let ?scr = "\<lparr>rg_base = sb + 0x20000, rg_size = 0x1000\<rparr> :: VmRegion"
  have u: "unat (sb + 0x20000) = unat sb + 0x20000" using stk(3) by (subst unat_add_le) simp_all
  have top: "sb + 0x20000 \<noteq> 0" using u by (auto simp: word_pos_unat)
  have ok: "region_ok ?ipc" "region_ok ?stk" "region_ok ?scr"
    using stk(1,3) u by (simp_all add: region_ok_def)
  have low: "below ?ipc r" and high: "below r ?stk" "below r ?scr" "below r ini"
    if "code_placed (unat base) (unat c) r" for r
    using that code(3) stk(2) u ini(2) by (auto simp: code_placed_def below_def)
  have "list_all region_ok [elf, rtld, shared]" using code(1) by (auto simp: code_placed_def)
  moreover have "below ?ipc ?stk" "below ?ipc ?scr" "below ?ipc ini" "below ?stk ?scr" "below ?stk ini"
    "below ?scr ini"
    using stk u ini(2) sb by (auto simp: below_def)
  ultimately show ?thesis using ok low high code(1,2) ini(1) top
    by (simp add: plan_ok_def plan_regions_def region_end_def)
qed

lemma place_stack_spec:
  assumes "4096 dvd unat c" "unat c < 2 ^ 63 + 2 ^ 25"
  obtains sb where "place_stack c = (\<lparr>rg_base = sb, rg_size = STACK_SIZE\<rparr>,
      \<lparr>rg_base = sb + STACK_SIZE, rg_size = 0x1000\<rparr>, sb + STACK_SIZE)"
    "4096 dvd unat sb" "unat c \<le> unat sb" "unat ELF_CODE_BASE \<le> unat sb"
    "unat sb = 0x3F8000 \<or> unat sb = 0x7F8000 \<or> unat sb = unat c + 0x10000"
proof (cases "c \<le> 0x7F8000")
  case True
  show thesis
  proof (cases "c \<le> 0x3F8000")
    case True
    with that [of "0x3F8000"] show thesis by (simp add: place_stack_def word_le_nat_alt)
  next
    case False
    with True have "place_stack c = (\<lparr>rg_base = 0x7F8000, rg_size = 0x20000\<rparr>,
        \<lparr>rg_base = 0x818000, rg_size = 0x1000\<rparr>, 0x818000)"
      by (simp add: place_stack_def)
    with True that [of "0x7F8000"] show thesis by (simp add: word_le_nat_alt)
  qed
next
  case False
  have "unat (page_align_up (c + 0x10000)) = unat c + unat (0x10000 :: u64)"
    using assms by (intro unat_next_page) simp_all
  with False that [of "page_align_up (c + 0x10000)"] assms show thesis
    by (simp add: place_stack_def Let_def word_le_nat_alt)
qed

lemma place_initrd_spec:
  assumes "ini = place_initrd \<lparr>rg_base = sb + STACK_SIZE, rg_size = 0x1000\<rparr> mi w"
    and "4096 dvd unat sb" "unat sb + unat w < 2 ^ 63 + 2 ^ 25 + 2 ^ 24" "unat w < 2 ^ 63"
  shows "region_ok ini" "rg_size ini = 0 \<or> unat sb + 0x21000 \<le> unat (rg_base ini)"
proof -
  define scr :: VmRegion where "scr = \<lparr>rg_base = sb + 0x20000, rg_size = 0x1000\<rparr>"
  have ue: "unat (region_end scr) = unat sb + 0x21000"
    using assms(3) by (simp add: scr_def region_end_def unat_word_ariths)
  have pu: "unat (page_align_up w) = page_up (unat w)" using assms(3) by (intro unat_page_align_up) simp
  have na: "unat (page_align_up (region_end scr + 0x1000)) = unat (region_end scr) + unat (0x1000 :: u64)"
    using ue assms by (intro unat_next_page) (simp_all add: dvd_add)
  let ?b = "if 0x1000000 < region_end scr then page_align_up (region_end scr + 0x1000) else 0x1000000"
  have ini: "ini = (if mi \<and> 0 < w then \<lparr>rg_base = ?b, rg_size = page_align_up w\<rparr> else VmRegion_zero)"
    by (simp add: assms(1) place_initrd_def scr_def Let_def)
  have b: "4096 dvd unat ?b" "unat sb + 0x21000 \<le> unat ?b" "unat ?b \<le> unat sb + 0x22000 \<or> unat ?b = 0x1000000"
    using ue na assms(2) by (auto simp: word_less_nat_alt dvd_add)
  show "region_ok ini"
    using b pu page_up_bounds(2,3) [of "unat w"] assms(3,4) by (auto simp: ini region_ok_def)
  show "rg_size ini = 0 \<or> unat sb + 0x21000 \<le> unat (rg_base ini)" using b(2) by (simp add: ini)
qed

lemma compute_vm_layout_ok:
  assumes spans: "spans_ok elf_span rtld_span pages initrd"
  shows "plan_ok (compute_vm_layout elf_span rtld_span pages mi initrd)"
proof -
  define elf :: VmRegion where "elf = \<lparr>rg_base = 0x210000, rg_size = page_align_up elf_span\<rparr>"
  define rtld where "rtld = place_rtld elf rtld_span"
  define shared where "shared = place_shared rtld pages"
  define c where "c = place_code_end elf rtld shared"
  have "4096 dvd unat (0x210000 :: u64)" "unat (0x210000 :: u64) < 2 ^ 24" by simp_all
  note code = code_regions_spec [OF this elf_def rtld_def shared_def spans c_def]
  have "unat c < 2 ^ 63 + 2 ^ 25" using code(5) by simp
  from place_stack_spec [OF code(4) this] obtain sb where
    sb: "place_stack c = (\<lparr>rg_base = sb, rg_size = 0x20000\<rparr>,
      \<lparr>rg_base = sb + 0x20000, rg_size = 0x1000\<rparr>, sb + 0x20000)"
    "4096 dvd unat sb" "unat c \<le> unat sb" "unat (0x210000 :: u64) \<le> unat sb"
    "unat sb = 0x3F8000 \<or> unat sb = 0x7F8000 \<or> unat sb = unat c + 0x10000" .
  define ini where "ini = place_initrd \<lparr>rg_base = sb + 0x20000, rg_size = 0x1000\<rparr> mi initrd"
  have sum: "unat sb + unat initrd < 2 ^ 63 + 2 ^ 25 + 2 ^ 24"
    using sb(5) code(5) spans by (auto simp: spans_ok_def)
  have "unat initrd < 2 ^ 63" using spans by (simp add: spans_ok_def)
  note ini = place_initrd_spec [OF ini_def sb(2) sum this]
  have "unat sb + 0x21000 < 2 ^ 63 + 2 ^ 26" using sum by simp
  from plan_okI [OF code(1,2) order_refl sb(2,3) this sb(4) ini] show ?thesis
    using sb(1) by (simp add: compute_vm_layout_def Let_def elf_def [symmetric] rtld_def [symmetric]
        shared_def [symmetric] c_def [symmetric] ini_def [symmetric])
qed

lemma random_slide_spec:
  assumes "unat n = N" "0 < N" "N \<le> 256"
  shows "4096 dvd unat (random_slide r n)" "unat (random_slide r n) \<le> (N - 1) * 4096"
proof -
  have "unat ((v mod n) * 0x1000) = unat v mod N * 4096" for v
  proof -
    have "unat v mod N < 256" using assms mod_less_divisor [of N "unat v"] by linarith
    then show ?thesis using assms(1) by (simp add: unat_word_ariths)
  qed
  moreover have "unat v mod N * 4096 \<le> (N - 1) * 4096" for v :: u64
    using assms(2) by (intro mult_le_mono1) (simp add: less_Suc_eq_le [symmetric])
  ultimately show "4096 dvd unat (random_slide r n)" "unat (random_slide r n) \<le> (N - 1) * 4096"
    by (auto simp: random_slide_def split: option.split)
qed

lemma place_stack_slide_spec:
  assumes "place_stack_slide c sl = Some (stack, scratch, tp)"
    and "4096 dvd unat sl" "unat sl \<le> 63 * 4096"
  obtains sb where "stack = \<lparr>rg_base = sb, rg_size = STACK_SIZE\<rparr>"
    "scratch = \<lparr>rg_base = sb + STACK_SIZE, rg_size = 0x1000\<rparr>" "tp = sb + STACK_SIZE"
    "4096 dvd unat sb" "unat c \<le> unat sb" "unat ELF_CODE_BASE \<le> unat sb" "unat sb \<le> 0x7F8000"
proof -
  have *: "unat (d - sl) = unat d - unat sl" "unat (saturating_sub d sl) = unat d - unat sl"
    "4096 dvd unat (d - sl)" if "4096 dvd unat d" "0x3F8000 \<le> unat d" for d
  proof -
    have le: "sl \<le> d" using assms(3) that by (simp add: word_le_nat_alt)
    then show "unat (d - sl) = unat d - unat sl" by (rule unat_sub_le)
    then show "4096 dvd unat (d - sl)" using that assms(2) by simp
    show "unat (saturating_sub d sl) = unat d - unat sl" by (simp add: unat_saturating_sub)
  qed
  from * [of "0x3F8000"] * [of "0x7F8000"] assms that show thesis
    by (auto simp: place_stack_slide_def Let_def word_le_nat_alt split: if_splits)
qed

lemma compute_vm_layout_randomized_ok:
  assumes spans: "spans_ok elf_span rtld_span pages initrd"
  shows "plan_ok (fst (compute_vm_layout_randomized rand elf_span rtld_span pages mi initrd s))"
proof -
  obtain r1 s1 r2 s2 where r: "rand s = (r1, s1)" "rand s1 = (r2, s2)" by fastforce
  define base where "base = 0x210000 + random_slide r1 256"
  define elf where "elf = \<lparr>rg_base = base, rg_size = page_align_up elf_span\<rparr>"
  define rtld where "rtld = place_rtld elf rtld_span"
  define shared where "shared = place_shared rtld pages"
  define c where "c = place_code_end elf rtld shared"
  note sl1 = random_slide_spec [of 256 256 r1, simplified]
  have ub: "unat base = 0x210000 + unat (random_slide r1 256)"
    unfolding base_def using sl1(2) by (subst unat_add_le) simp_all
  have "4096 dvd unat base" "unat base < 2 ^ 24" using ub sl1 by (simp_all add: dvd_add)
  note code = code_regions_spec [OF this elf_def rtld_def shared_def spans c_def]
  note eqs = compute_vm_layout_randomized_def r Let_def base_def [symmetric] elf_def [symmetric]
    rtld_def [symmetric] shared_def [symmetric] c_def [symmetric]
  show ?thesis
  proof (cases "place_stack_slide c (random_slide r2 64)")
    case None
    then show ?thesis using compute_vm_layout_ok [OF spans] by (simp add: eqs)
  next
    case (Some x)
    obtain stack scratch tp where x: "x = (stack, scratch, tp)" by (cases x)
    have S: "place_stack_slide c (random_slide r2 64) = Some (stack, scratch, tp)" using Some x by simp
    obtain sb where sb: "stack = \<lparr>rg_base = sb, rg_size = 0x20000\<rparr>"
      "scratch = \<lparr>rg_base = sb + 0x20000, rg_size = 0x1000\<rparr>" "tp = sb + 0x20000"
      "4096 dvd unat sb" "unat c \<le> unat sb" "unat (0x210000 :: u64) \<le> unat sb" "unat sb \<le> 0x7F8000"
      by (rule place_stack_slide_spec [OF S]) (use random_slide_spec [of 64 64 r2] in simp_all)
    define ini where "ini = (if mi \<and> 0 < initrd
      then \<lparr>rg_base = 0x1000000, rg_size = page_align_up initrd\<rparr> else VmRegion_zero)"
    have "unat (page_align_up initrd) = page_up (unat initrd)"
      using spans by (intro unat_page_align_up) (simp add: spans_ok_def)
    then have ini: "region_ok ini" "rg_size ini = 0 \<or> unat sb + 0x21000 \<le> unat (rg_base ini)"
      using page_up_bounds(2,3) [of "unat initrd"] spans sb(7)
      by (auto simp: ini_def region_ok_def spans_ok_def)
    have "unat sb + 0x21000 < 2 ^ 63 + 2 ^ 26" "unat (0x210000 :: u64) \<le> unat base"
      using sb(7) ub by simp_all
    from plan_okI [OF code(1,2) this(2) sb(4,5) this(1) sb(6) ini] S sb(1-3) show ?thesis
      by (simp add: eqs region_end_def ini_def [symmetric])
  qed
qed

text \<open>Without random numbers the two planners agree.\<close>

lemma place_stack_slide_0:
  "place_stack_slide c 0 = (if c \<le> WINDOW2_STACK_BASE then Some (place_stack c) else None)"
  by (auto simp: place_stack_slide_def place_stack_def saturating_sub_def elim: order_trans)

lemma place_initrd_low:
  assumes "place_stack c = (stack, scratch, tp)" "c \<le> WINDOW2_STACK_BASE"
  shows "place_initrd scratch mi w =
    (if mi \<and> 0 < w then \<lparr>rg_base = INITRD_BASE, rg_size = page_align_up w\<rparr> else VmRegion_zero)"
    "\<not> rg_base scratch < region_end stack"
  using assms by (auto simp: place_stack_def place_initrd_def region_end_def split: if_splits)

section \<open>Heap and mappings\<close>

lemma region_ok_end:
  "region_ok r \<Longrightarrow> unat (region_end r) = unat (rg_base r) + unat (rg_size r)"
  by (simp add: region_ok_def unat_region_end)

lemma raise_end_ge: "h \<le> raise_end r h" "rg_size r = 0 \<or> region_end r \<le> raise_end r h"
  by (auto simp: raise_end_def word_pos_unat)

lemma fold_raise_end_ge: "h \<le> fold raise_end rs h"
proof (induction rs arbitrary: h)
  case (Cons r rs)
  from raise_end_ge(1) [of h r] Cons.IH [of "raise_end r h"] show ?case by simp
qed simp

lemma fold_raise_end_region:
  assumes "r \<in> set rs"
  shows "rg_size r = 0 \<or> region_end r \<le> fold raise_end rs h"
proof -
  obtain as bs where "rs = as @ r # bs" using assms by (meson split_list)
  moreover have "raise_end r g \<le> fold raise_end bs (raise_end r g)" for g by (rule fold_raise_end_ge)
  ultimately show ?thesis using raise_end_ge(2) order_trans by (fastforce simp: fold_append)
qed

lemma fold_raise_end_cases: "fold raise_end rs h = h \<or> (\<exists>r\<in>set rs. fold raise_end rs h = region_end r)"
proof (induction rs arbitrary: h)
  case (Cons r rs)
  from Cons.IH [of "raise_end r h"] show ?case by (auto simp: raise_end_def)
qed simp

lemma plan_regions_mem:
  "{pl_ipc_buf p, pl_elf_code p, pl_rtld p, pl_shared_libs p, pl_stack p, pl_scratch p, pl_initrd p}
   = set (plan_regions p)"
  by (simp add: plan_regions_def)

lemma plan_end_less:
  "plan_ok p \<Longrightarrow> r \<in> set (plan_regions p) \<Longrightarrow> unat (region_end r) < 2 ^ 63 + 2 ^ 26"
  by (auto simp: plan_ok_def list_all_iff region_ok_end) (auto simp: region_ok_def)

text \<open>Every region ends at or below the heap base: the code regions end below the stack.\<close>

lemma heap_base_spec:
  assumes ok: "plan_ok p"
  shows "4096 dvd unat (heap_base p)" "unat (heap_base p) < 2 ^ 63 + 2 ^ 27"
    "\<And>r. r \<in> set (plan_regions p) \<Longrightarrow> rg_size r = 0 \<or> unat (region_end r) \<le> unat (heap_base p)"
proof -
  define h where "h = fold raise_end [pl_stack p, pl_scratch p, pl_initrd p] (code_end p)"
  have hb: "heap_base p = page_align_up h" by (simp add: heap_base_def h_def Let_def)
  have "h = code_end p \<or> (\<exists>r\<in>set [pl_stack p, pl_scratch p, pl_initrd p]. h = region_end r)"
    unfolding h_def by (rule fold_raise_end_cases)
  moreover have "\<exists>r\<in>set (plan_regions p). code_end p = region_end r"
    by (auto simp: code_end_def plan_regions_def)
  ultimately have "\<exists>r\<in>set (plan_regions p). h = region_end r" by (auto simp: plan_regions_def)
  then have lt: "unat h < 2 ^ 63 + 2 ^ 26" using plan_end_less [OF ok] by blast
  then have pu: "unat (heap_base p) = page_up (unat h)" unfolding hb by (intro unat_page_align_up) simp
  show "4096 dvd unat (heap_base p)" "unat (heap_base p) < 2 ^ 63 + 2 ^ 27"
    using pu page_up_bounds(2,3) [of "unat h"] lt by simp_all
  have stk: "region_end (pl_stack p) \<le> h"
    using fold_raise_end_region [of "pl_stack p" "[pl_stack p, pl_scratch p, pl_initrd p]" "code_end p"] ok
    by (auto simp: h_def plan_ok_def)
  fix r assume r: "r \<in> set (plan_regions p)"
  have "rg_size r = 0 \<or> unat (region_end r) \<le> unat h"
  proof (cases "r \<in> {pl_stack p, pl_scratch p, pl_initrd p}")
    case True
    then show ?thesis
      using fold_raise_end_region [of r "[pl_stack p, pl_scratch p, pl_initrd p]" "code_end p"]
      by (auto simp: h_def word_le_nat_alt)
  next
    case False
    with r have "below r (pl_stack p)" using ok by (auto simp: plan_regions_def plan_ok_def)
    moreover have "region_ok r" "region_ok (pl_stack p)" using ok r
      by (auto simp: plan_ok_def list_all_iff plan_regions_def)
    moreover have "rg_size (pl_stack p) \<noteq> 0" using ok by (auto simp: plan_ok_def)
    ultimately show ?thesis using stk by (auto simp: below_def region_ok_end word_le_nat_alt)
  qed
  then show "rg_size r = 0 \<or> unat (region_end r) \<le> unat (heap_base p)"
    using pu page_up_bounds(1) [of "unat h"] by linarith
qed

lemma compute_mmap_base_spec:
  assumes ok: "plan_ok p"
  shows "4096 dvd unat (compute_mmap_base p (heap_base p))"
    "unat (heap_base p) + 0x10000000 \<le> unat (compute_mmap_base p (heap_base p))"
proof -
  define hi where "hi = max (max_mapped_end p) (heap_base p)"
  have "unat (max_mapped_end p) < 2 ^ 63 + 2 ^ 26"
    using fold_raise_end_cases [of "plan_regions p" 0] plan_end_less [OF ok]
    by (auto simp: max_mapped_end_def)
  then have lt: "unat hi < 2 ^ 63 + 2 ^ 27" using heap_base_spec(2) [OF ok] by (simp add: hi_def max_def)
  have u: "unat (hi + 0x10000000) = unat hi + 0x10000000" using lt by (subst unat_add_le) simp_all
  then have "saturating_add hi 0x10000000 = hi + 0x10000000"
    by (simp add: saturating_add_def word_less_nat_alt)
  then have "unat (compute_mmap_base p (heap_base p)) = page_up (unat hi + 0x10000000)"
    using u lt by (simp add: compute_mmap_base_def hi_def [symmetric] unat_page_align_up)
  moreover have "unat (heap_base p) \<le> unat hi" by (simp add: hi_def max_def word_le_nat_alt)
  ultimately show "4096 dvd unat (compute_mmap_base p (heap_base p))"
    "unat (heap_base p) + 0x10000000 \<le> unat (compute_mmap_base p (heap_base p))"
    using page_up_bounds(1,3) [of "unat hi + 0x10000000"] by simp_all
qed

section \<open>CSpace ranges\<close>

lemma unat_total_slots:
  "unat (layout_total_slots bits) = (if 63 \<le> unat bits then 0 else 2 ^ unat bits)"
proof (cases "63 \<le> unat bits")
  case True
  then show ?thesis by (simp add: layout_total_slots_def word_le_nat_alt)
next
  case False
  have "(2::nat) ^ unat bits < 2 ^ 64" using False by (intro power_strict_increasing) simp_all
  then have "unat (of_nat (2 ^ unat bits) :: u64) = 2 ^ unat bits" by (intro unat_of_nat_lt64) simp
  with False show ?thesis by (simp add: layout_total_slots_def word_le_nat_alt push_bit_eq_mult)
qed

lemma layout_recv_spec:
  assumes "layout_recv profile t = (b, e)"
  shows "(b = 0 \<and> e = 0 \<and> (profile = DefaultService \<or> t = 0)) \<or>
    (profile \<noteq> DefaultService \<and> unat b = unat t - 1024 \<and> e = t \<and> 0 < unat t)"
proof (cases "profile = DefaultService \<or> t = 0")
  case True
  then show ?thesis using assms by (auto simp: layout_recv_def)
next
  case False
  then have "profile = Pager \<or> profile = BootstrapAuthority" by (cases profile) auto
  with False assms show ?thesis
    by (auto simp: layout_recv_def Let_def unat_saturating_sub word_less_nat_alt word_pos_unat split: if_splits)
qed

lemma layout_expand_spec:
  assumes "layout_expand ew t = (b, e)"
  shows "(b = 0 \<and> e = 0 \<and> (\<not> ew \<or> unat t \<le> 1008)) \<or>
    (ew \<and> unat b = 1008 \<and> unat e = min (unat t) 1016 \<and> 1008 < unat t)"
  using assms by (auto simp: layout_expand_def Let_def word_less_nat_alt min_def split: if_splits)

lemma cspace_layout_fields:
  assumes "l = compute_cspace_layout bits floor profile ew" "t = layout_total_slots bits"
    "layout_recv profile t = (rb, re)" "layout_expand ew t = (eb, ee)"
  shows "cl_recv_base l = rb" "cl_recv_limit l = re" "cl_expand_base l = eb" "cl_expand_limit l = ee"
    "unat (cl_frame_slot_base l) = max 64 (unat floor)"
    "unat (cl_alloc_limit l) = min (if eb < ee then min (unat t) (unat eb) else unat t)
       (if rb < re then unat rb else unat t)"
    "unat (cl_alloc_base l) = min (unat (cl_frame_slot_base l)) (unat (cl_alloc_limit l))"
    "cl_flags l = (if rb < re then 1 else 0) OR (if eb < ee then 2 else 0)"
  using assms(3,4) unfolding assms(1,2)
  by (simp_all add: compute_cspace_layout_def Let_def max_def min_def not_less word_less_nat_alt word_le_nat_alt)

lemma plan_ok_disjoint:
  assumes "plan_ok p" "i < j" "j < 7"
  shows "region_addrs (plan_regions p ! i) \<inter> region_addrs (plan_regions p ! j) = {}"
proof -
  have "length (plan_regions p) = 7" by (simp add: plan_regions_def)
  with assms have "below (plan_regions p ! i) (plan_regions p ! j)"
    by (auto simp: plan_ok_def intro: sorted_wrt_nth_less)
  then show ?thesis by (auto simp: below_def region_addrs_def)
qed

lemma plan_ok_facts:
  assumes "plan_ok p"
  shows "(\<forall>i j. i < j \<and> j < 7 \<longrightarrow>
      region_addrs (plan_regions p ! i) \<inter> region_addrs (plan_regions p ! j) = {}) \<and>
    list_all (\<lambda>r. 4096 dvd unat (rg_base r) \<and> 4096 dvd unat (rg_size r)) (plan_regions p) \<and>
    unat (rg_size (pl_stack p)) = 0x20000 \<and> pl_stack_top p = region_end (pl_stack p) \<and> pl_stack_top p \<noteq> 0"
proof (intro conjI)
  show "\<forall>i j. i < j \<and> j < 7 \<longrightarrow>
      region_addrs (plan_regions p ! i) \<inter> region_addrs (plan_regions p ! j) = {}"
    using plan_ok_disjoint [OF assms] by blast
qed (use assms in \<open>auto simp: plan_ok_def list_all_iff region_ok_def\<close>)

lemma planners_ok:
  assumes "spans_ok elf_span rtld_span pages initrd"
    and "p = compute_vm_layout elf_span rtld_span pages map_initrd initrd \<or>
      p = fst (compute_vm_layout_randomized rand elf_span rtld_span pages map_initrd initrd s)"
  shows "plan_ok p"
  using assms(2)
  by (elim disjE) (simp_all only: compute_vm_layout_ok [OF assms(1)] compute_vm_layout_randomized_ok [OF assms(1)])

lemma planners_elf_size:
  assumes "p = compute_vm_layout elf_span rtld_span pages map_initrd initrd \<or>
      p = fst (compute_vm_layout_randomized rand elf_span rtld_span pages map_initrd initrd s)"
  shows "rg_size (pl_elf_code p) = page_align_up elf_span"
  using assms
  by (elim disjE) (simp_all add: compute_vm_layout_def compute_vm_layout_randomized_def Let_def
      split: prod.splits option.splits)

lemma plan_ok_stack_above:
  assumes "plan_ok p" "rg_size (pl_elf_code p) \<noteq> 0"
  shows "unat (rg_size (pl_elf_code p)) \<le> unat (rg_base (pl_stack p))"
proof -
  have "below (pl_elf_code p) (pl_stack p)" "unat (rg_size (pl_stack p)) = 0x20000"
    using assms(1) by (simp_all add: plan_ok_def plan_regions_def)
  with assms(2) show ?thesis by (auto simp: below_def)
qed

section \<open>Properties\<close>

text \<open>C31: For sizes whose sum is below 2^63, both planners, the deterministic one and the randomised
  one whatever its random numbers are, plan regions (IPC buffer, program, dynamic linker, libraries, stack,
  scratch page, initrd) that consist of whole pages and are pairwise disjoint; a plan that is not marked
  as failed by a zero stack pointer has a stack of 128 KiB whose end is the stack pointer.\<close>

theorem vm_layout_disjoint:
  assumes "spans_ok elf_span rtld_span pages initrd"
    and "p = compute_vm_layout elf_span rtld_span pages map_initrd initrd \<or>
      p = fst (compute_vm_layout_randomized rand elf_span rtld_span pages map_initrd initrd s)"
  shows "(\<forall>i j. i < j \<and> j < 7 \<longrightarrow>
      region_addrs (plan_regions p ! i) \<inter> region_addrs (plan_regions p ! j) = {}) \<and>
    list_all (\<lambda>r. 4096 dvd unat (rg_base r) \<and> 4096 dvd unat (rg_size r)) (plan_regions p) \<and>
    (pl_stack_top p \<noteq> 0 \<longrightarrow> unat (rg_size (pl_stack p)) = 0x20000 \<and> pl_stack_top p = region_end (pl_stack p))"
  using plan_ok_facts [OF planners_ok [OF assms]] by blast

theorem vm_layout_disjoint_witness:
  "region_addrs (pl_elf_code (compute_vm_layout 0x500000 0x20000 3 True 0x3000)) \<inter>
   region_addrs (pl_stack (compute_vm_layout 0x500000 0x20000 3 True 0x3000)) = {} \<and>
   region_addrs (pl_stack (fst (compute_vm_layout_randomized (\<lambda>s. (Some s, s + 77)) 0x50000 0x20000 3 True 0x3000 5))) \<inter>
   region_addrs (pl_initrd (fst (compute_vm_layout_randomized (\<lambda>s. (Some s, s + 77)) 0x50000 0x20000 3 True 0x3000 5))) = {}"
proof (rule conjI)
  have ok: "spans_ok 0x500000 0x20000 3 0x3000" "spans_ok 0x50000 0x20000 3 0x3000" by (simp_all add: spans_ok_def)
  have lt: "(1::nat) < 4 \<and> (4::nat) < 7" "(4::nat) < 6 \<and> (6::nat) < 7" by simp_all
  from vm_layout_disjoint [OF ok(1) disjI1 [OF refl], THEN conjunct1, rule_format, OF lt(1)]
  show "region_addrs (pl_elf_code (compute_vm_layout 0x500000 0x20000 3 True 0x3000)) \<inter>
      region_addrs (pl_stack (compute_vm_layout 0x500000 0x20000 3 True 0x3000)) = {}"
    by (simp add: plan_regions_def numeral_eq_Suc)
  from vm_layout_disjoint [OF ok(2) disjI2 [OF refl], THEN conjunct1, rule_format, OF lt(2)]
  show "region_addrs (pl_stack (fst (compute_vm_layout_randomized (\<lambda>s. (Some s, s + 77)) 0x50000 0x20000 3 True 0x3000 5))) \<inter>
      region_addrs (pl_initrd (fst (compute_vm_layout_randomized (\<lambda>s. (Some s, s + 77)) 0x50000 0x20000 3 True 0x3000 5))) = {}"
    by (simp add: plan_regions_def numeral_eq_Suc)
qed

text \<open>Fact: A program that is too large for both windows is planned like any other: the comments of
  \<open>VmLayoutPlan\<close> and \<open>compute_vm_layout\<close> say that the plan then has a zero stack pointer to signal the
  failure, but both planners move the stack above the code and return a stack pointer that is not zero.\<close>

theorem vm_layout_overflow_planned:
  assumes "spans_ok elf_span rtld_span pages initrd" "WINDOW2_STACK_BASE < elf_span"
    and "p = compute_vm_layout elf_span rtld_span pages map_initrd initrd \<or>
      p = fst (compute_vm_layout_randomized rand elf_span rtld_span pages map_initrd initrd s)"
  shows "pl_stack_top p \<noteq> 0 \<and> WINDOW2_STACK_BASE < rg_base (pl_stack p)"
proof -
  note ok = planners_ok [OF assms(1,3)]
  have "unat elf_span \<le> unat (page_align_up elf_span)"
    using assms(1) unat_page_align_up [of elf_span] page_up_bounds(1) [of "unat elf_span"] by (simp add: spans_ok_def)
  moreover have "0x7F8000 < unat elf_span" using assms(2) by (simp add: word_less_nat_alt)
  ultimately have "0x7F8000 < unat (rg_base (pl_stack p))"
    using plan_ok_stack_above [OF ok] planners_elf_size [OF assms(3)] by fastforce
  moreover have "pl_stack_top p \<noteq> 0" using plan_ok_facts [OF ok] by blast
  ultimately show ?thesis by (simp add: word_less_nat_alt)
qed

theorem vm_layout_overflow_planned_witness:
  "pl_stack_top (compute_vm_layout 0x1000000 0x20000 3 True 0x3000) \<noteq> 0"
proof -
  have "spans_ok 0x1000000 0x20000 3 0x3000" by (simp add: spans_ok_def)
  from vm_layout_overflow_planned [OF this _ disjI1 [OF refl]] show ?thesis by simp
qed

text \<open>Fact: Without a working random number generator the randomised planner gives the plan of the
  deterministic one.\<close>

theorem vm_layout_randomized_fallback:
  assumes "\<And>s. fst (rand s) = None"
  shows "fst (compute_vm_layout_randomized rand elf_span rtld_span pages map_initrd initrd s)
    = compute_vm_layout elf_span rtld_span pages map_initrd initrd"
proof -
  obtain s1 s2 where r: "rand s = (None, s1)" "rand s1 = (None, s2)"
    using assms by (metis prod.collapse)
  define elf :: VmRegion where "elf = \<lparr>rg_base = 0x210000, rg_size = page_align_up elf_span\<rparr>"
  define rtld where "rtld = place_rtld elf rtld_span"
  define shared where "shared = place_shared rtld pages"
  define c where "c = place_code_end elf rtld shared"
  obtain stack scratch tp where st: "place_stack c = (stack, scratch, tp)" by (cases "place_stack c")
  have z: "random_slide None n = 0" for n by (simp add: random_slide_def)
  note eqs = r z Let_def elf_def [symmetric] rtld_def [symmetric] shared_def [symmetric] c_def [symmetric]
  show ?thesis
    using place_initrd_low [OF st] place_stack_slide_0 [of c] st
    by (simp add: compute_vm_layout_randomized_def compute_vm_layout_def eqs)
qed

theorem vm_layout_randomized_fallback_witness:
  "fst (compute_vm_layout_randomized (\<lambda>s. (None, s)) 0x50000 0 0 False 0 ()) =
   compute_vm_layout 0x50000 0 0 False 0"
  by (rule vm_layout_randomized_fallback) simp

text \<open>Fact: Under a correct plan the heap starts on a page boundary above every mapped region, and
  the area for mappings starts on a page boundary at least 256 MiB above the heap base.\<close>

theorem heap_and_mmap_above:
  assumes "plan_ok p"
  shows "4096 dvd unat (heap_base p) \<and>
    (\<forall>r\<in>set (plan_regions p). \<forall>a\<in>region_addrs r. a < unat (heap_base p)) \<and>
    4096 dvd unat (compute_mmap_base p (heap_base p)) \<and>
    unat (heap_base p) + 0x10000000 \<le> unat (compute_mmap_base p (heap_base p))"
proof -
  have "a < unat (heap_base p)" if "r \<in> set (plan_regions p)" "a \<in> region_addrs r" for r a
  proof -
    have "region_ok r" using assms that(1) by (simp add: plan_ok_def list_all_iff)
    with heap_base_spec(3) [OF assms that(1)] that(2) show ?thesis
      by (auto simp: region_addrs_def region_ok_end)
  qed
  with heap_base_spec(1) [OF assms] compute_mmap_base_spec [OF assms] show ?thesis by blast
qed

theorem heap_and_mmap_above_witness:
  "4096 dvd unat (heap_base (compute_vm_layout 0x500000 0x20000 3 True 0x3000))"
proof -
  have "spans_ok 0x500000 0x20000 3 0x3000" by (simp add: spans_ok_def)
  then have "plan_ok (compute_vm_layout 0x500000 0x20000 3 True 0x3000)" by (rule compute_vm_layout_ok)
  from heap_and_mmap_above [OF this] show ?thesis by blast
qed

text \<open>C32: The slots for allocation lie above the fixed slots and inside the CNode and are in
  neither of the other two ranges; the receive and the expansion range are disjoint from 11
  CNode bits on.\<close>

theorem cspace_ranges_disjoint:
  assumes "unat bits < 63" and "l = compute_cspace_layout bits floor profile ew"
  shows "alloc_slots l \<subseteq> {max 64 (unat floor)..<2 ^ unat bits} \<and>
    recv_slots l \<subseteq> {..<2 ^ unat bits} \<and> expand_slots l \<subseteq> {..<2 ^ unat bits} \<and>
    alloc_slots l \<inter> (recv_slots l \<union> expand_slots l) = {} \<and>
    (11 \<le> unat bits \<longrightarrow> recv_slots l \<inter> expand_slots l = {}) \<and>
    unat (alloc_count l) = card (alloc_slots l)"
proof -
  define t where "t = layout_total_slots bits"
  have T: "unat t = 2 ^ unat bits" using assms(1) by (simp add: t_def unat_total_slots)
  obtain rb re eb ee where p: "layout_recv profile t = (rb, re)" "layout_expand ew t = (eb, ee)"
    by (meson surj_pair)
  note f = cspace_layout_fields [OF assms(2) t_def p]
  note sp = layout_recv_spec [OF p(1)] layout_expand_spec [OF p(2)]
  have big: "2048 \<le> unat t" if "11 \<le> unat bits"
    using that power_increasing [of 11 "unat bits" "2::nat"] by (simp add: T)
  have lim: "unat (cl_alloc_limit l) \<le> unat t" "rb < re \<Longrightarrow> unat (cl_alloc_limit l) \<le> unat rb"
    "eb < ee \<Longrightarrow> unat (cl_alloc_limit l) \<le> unat eb"
    unfolding f(6) by auto
  have "max 64 (unat floor) \<le> unat (cl_alloc_base l) \<or> unat (cl_alloc_limit l) \<le> unat (cl_alloc_base l)"
    unfolding f(7) f(5) by (simp add: min_def)
  then have "alloc_slots l \<subseteq> {max 64 (unat floor)..<unat t}" using lim(1) by (auto simp: alloc_slots_def)
  moreover have "recv_slots l \<subseteq> {..<unat t}" "expand_slots l \<subseteq> {..<unat t}"
    unfolding recv_slots_def expand_slots_def f(1-4) using sp by auto
  moreover have "alloc_slots l \<inter> (recv_slots l \<union> expand_slots l) = {}"
    unfolding alloc_slots_def recv_slots_def expand_slots_def f(1-4)
    using lim(2,3) by (auto simp: word_less_nat_alt)
  moreover have "recv_slots l \<inter> expand_slots l = {}" if "11 \<le> unat bits"
    unfolding recv_slots_def expand_slots_def f(1-4) using big [OF that] sp by auto
  moreover have "unat (alloc_count l) = card (alloc_slots l)"
  proof (cases "cl_alloc_base l < cl_alloc_limit l")
    case True
    then have "unat (cl_alloc_limit l - cl_alloc_base l) = unat (cl_alloc_limit l) - unat (cl_alloc_base l)"
      by (intro unat_sub_le) simp
    with True show ?thesis by (simp add: alloc_count_def alloc_slots_def)
  qed (simp add: alloc_count_def alloc_slots_def word_less_nat_alt)
  ultimately show ?thesis by (simp add: T)
qed

theorem cspace_ranges_disjoint_witness:
  "recv_slots (compute_cspace_layout 12 100 Pager True) \<inter> expand_slots (compute_cspace_layout 12 100 Pager True) = {}"
  using cspace_ranges_disjoint [of 12 _ 100 Pager True, OF _ refl] by simp

text \<open>Fact: With at most 10 CNode bits an authority's receive range is the whole CNode, the fixed
  slots included: nothing is left for allocation, and with exactly 10 bits the eight expansion slots
  are receive slots as well.\<close>

theorem cspace_authority_small:
  assumes "unat bits \<le> 10" and "profile \<noteq> DefaultService" and "l = compute_cspace_layout bits floor profile True"
  shows "recv_slots l = {..<2 ^ unat bits} \<and> alloc_slots l = {} \<and>
    (unat bits = 10 \<longrightarrow> expand_slots l = {1008..<1016} \<and> expand_slots l \<subseteq> recv_slots l)"
proof -
  define t where "t = layout_total_slots bits"
  have T: "unat t = 2 ^ unat bits" using assms(1) by (simp add: t_def unat_total_slots)
  obtain rb re eb ee where p: "layout_recv profile t = (rb, re)" "layout_expand True t = (eb, ee)"
    by (meson surj_pair)
  note f = cspace_layout_fields [OF assms(3) t_def p]
  have "(2::nat) ^ unat bits \<le> 2 ^ 10" using assms(1) by (intro power_increasing) simp_all
  then have t: "unat t \<le> 1024" "0 < unat t" using T by simp_all
  with layout_recv_spec [OF p(1)] assms(2) have r: "unat rb = 0" "re = t" by (auto simp: word_pos_unat)
  have rec: "recv_slots l = {..<unat t}" unfolding recv_slots_def f(1,2) using r by auto
  have "rb < re" using r t by (simp add: word_less_nat_alt)
  then have "unat (cl_alloc_limit l) = 0" using f(6) r(1) by simp
  then have "alloc_slots l = {}" by (simp add: alloc_slots_def)
  moreover have "expand_slots l = {1008..<1016}" if "unat bits = 10"
    unfolding expand_slots_def f(3,4) using layout_expand_spec [OF p(2)] that T by auto
  moreover note rec
  ultimately show ?thesis using T by auto
qed

theorem cspace_authority_small_witness:
  "1010 \<in> recv_slots (compute_cspace_layout 10 100 Pager True) \<inter> expand_slots (compute_cspace_layout 10 100 Pager True)"
  using cspace_authority_small [of 10 Pager _ 100, OF _ _ refl] by simp

end
