(* ===== verification/Ipc.thy ===== *)
theory Ipc
  imports Kernel_Abi
begin

text \<open>
  Message passing, \<^verbatim>\<open>substrate/ipc.rs\<close>.  The kernel is the parameter of
  \<^verbatim>\<open>Kernel_Abi\<close>.  A context pointer is the flag \<open>ctx\<close>, false for null: the only
  context a thread passes is its own, which is part of the machine.  Out
  parameters are options, \<^const>\<open>None\<close> for a null pointer, that are returned updated.
\<close>

section \<open>Message info\<close>

definition msginfo :: "u64 \<Rightarrow> u64 \<Rightarrow> u64 \<Rightarrow> u64" where
  "msginfo lbl len caps = push_bit 12 lbl OR push_bit 7 caps OR (len AND 0x7F)"

definition msginfo_label :: "u64 \<Rightarrow> u64" where
  "msginfo_label info = drop_bit 12 info AND 0xFFFFFFFFFF"

definition msginfo_length :: "u64 \<Rightarrow> u64" where
  "msginfo_length info = info AND 0x7F"

definition msginfo_extracaps :: "u64 \<Rightarrow> u64" where
  "msginfo_extracaps info = drop_bit 7 info AND 0x1F"

section \<open>Context\<close>

text \<open>The page that a context pointer leads to.\<close>

definition ctx_buffer :: "bool \<Rightarrow> 'k machine \<Rightarrow> IpcBuffer option" where
  "ctx_buffer ctx m = (if ctx then ipc_buffer m else None)"

definition update_buffer :: "bool \<Rightarrow> (IpcBuffer \<Rightarrow> IpcBuffer) \<Rightarrow> 'k machine \<Rightarrow> 'k machine" where
  "update_buffer ctx f m = (if ctx then m\<lparr>ipc_buffer := map_option f (ipc_buffer m)\<rparr> else m)"

definition ipc_context_init :: "bool \<Rightarrow> IpcBuffer option \<Rightarrow> 'k machine \<Rightarrow> 'k machine" where
  "ipc_context_init ctx page m =
     (if \<not> ctx then m else m\<lparr>ipc_buffer := page, send_cap_count := 0\<rparr>)"

definition clear_send_caps_ctx :: "bool \<Rightarrow> 'k machine \<Rightarrow> 'k machine" where
  "clear_send_caps_ctx ctx m =
     (if \<not> ctx then m
      else (update_buffer ctx
              (\<lambda>b. b\<lparr>ib_caps := fold (\<lambda>i caps. caps[i := 0]) [0..<4] (ib_caps b)\<rparr>) m)
             \<lparr>send_cap_count := 0\<rparr>)"

definition set_send_cap_ctx :: "bool \<Rightarrow> int \<Rightarrow> u64 \<Rightarrow> 'k machine \<Rightarrow> 'k machine" where
  "set_send_cap_ctx ctx slot_index cap_slot m =
     (if \<not> ctx \<or> slot_index < 0 \<or> slot_index \<ge> 4 then m
      else case ipc_buffer m of
        None \<Rightarrow> m
      | Some b \<Rightarrow>
          m\<lparr>ipc_buffer := Some (b\<lparr>ib_caps := (ib_caps b)[nat slot_index := cap_slot]\<rparr>),
            send_cap_count := (if send_cap_count m < slot_index + 1 then slot_index + 1
                               else send_cap_count m)\<rparr>)"

definition set_receive_slot_ctx :: "bool \<Rightarrow> cap \<Rightarrow> u64 \<Rightarrow> u64 \<Rightarrow> 'k machine \<Rightarrow> 'k machine" where
  "set_receive_slot_ctx ctx cnode index depth m =
     update_buffer ctx
       (\<lambda>b. b\<lparr>ib_receive_cnode := cnode, ib_receive_index := index, ib_receive_depth := depth\<rparr>) m"

definition write_overflow_ctx :: "bool \<Rightarrow> TronaMsg \<Rightarrow> 'k machine \<Rightarrow> 'k machine" where
  "write_overflow_ctx ctx msg m =
     (let len = unat (ucast (m_length msg) :: u32);
          len = (if 32 < len then 32 else len)
      in if \<not> ctx \<or> len \<le> 4 then m
         else let n = min (len - 4) 28
              in update_buffer ctx
                   (\<lambda>b. b\<lparr>ib_msg := fold (\<lambda>i ws. ws[6 + i := m_regs msg ! (4 + i)]) [0..<n] (ib_msg b)\<rparr>) m)"

text \<open>\<open>endpoints\<close> is the array that the caller passes, \<^const>\<open>None\<close> for a null pointer.\<close>

definition stage_recv_any_endpoints_ctx ::
  "bool \<Rightarrow> cap list option \<Rightarrow> 'k machine \<Rightarrow> bool \<times> 'k machine" where
  "stage_recv_any_endpoints_ctx ctx endpoints m =
     (case endpoints of
        None \<Rightarrow> (False, m)
      | Some eps \<Rightarrow>
          if \<not> ctx \<or> eps = [] then (False, m)
          else if ipc_buffer m = None \<or> IPC_BUFFER_RESERVED_WORDS < length eps then (False, m)
          else (True, update_buffer ctx
                  (\<lambda>b. b\<lparr>ib_reserved := fold (\<lambda>i ws. ws[i := eps ! i]) [0..<length eps] (ib_reserved b)\<rparr>) m))"

section \<open>Operations\<close>

text \<open>
  The block that every sending operation has: message info from the message and
  the staged capabilities, overflow registers, the trap, and the clearing of the
  staged capabilities.
\<close>

definition transmit ::
  "'k kernel \<Rightarrow> u64 \<Rightarrow> bool \<Rightarrow> u64 \<Rightarrow> TronaMsg \<Rightarrow> 'k machine \<Rightarrow> TronaResult \<times> 'k machine" where
  "transmit K num ctx target msg m =
     (let caps = (if ctx then send_cap_count m else 0);
          info = msginfo (m_label msg) (m_length msg) (of_int caps);
          m1 = write_overflow_ctx ctx msg m;
          (r, m2) = syscall K num target info (m_regs msg ! 0) (m_regs msg ! 1) (m_regs msg ! 2)
                      (m_regs msg ! 3) m1
      in (r, if 0 < caps \<and> ctx then clear_send_caps_ctx ctx m2 else m2))"

definition set_timeout :: "bool \<Rightarrow> u64 \<Rightarrow> 'k machine \<Rightarrow> 'k machine" where
  "set_timeout ctx timeout = update_buffer ctx (\<lambda>b. b\<lparr>ib_timeout_ns := timeout\<rparr>)"

text \<open>The message that lies at the beginning of the page.\<close>

definition buffer_msg :: "IpcBuffer \<Rightarrow> TronaMsg" where
  "buffer_msg b = \<lparr>m_label = ib_msg b ! 0, m_length = ib_msg b ! 1, m_regs = drop 2 (ib_msg b)\<rparr>"

definition store_msg :: "bool \<Rightarrow> 'k machine \<Rightarrow> TronaMsg option \<Rightarrow> TronaMsg option" where
  "store_msg ctx m msg =
     (case ctx_buffer ctx m of None \<Rightarrow> msg | Some b \<Rightarrow> map_option (\<lambda>_. buffer_msg b) msg)"

text \<open>What a receiving operation stores, with the badge as result value or in the page.\<close>

definition store_recv ::
  "bool \<Rightarrow> TronaResult \<Rightarrow> 'k machine \<Rightarrow> TronaMsg option \<Rightarrow> u64 option \<Rightarrow> TronaMsg option \<times> u64 option" where
  "store_recv ctx r m msg badge =
     (if r_error r = 0 then (store_msg ctx m msg, map_option (\<lambda>_. r_value r) badge) else (msg, badge))"

definition store_recv_any ::
  "bool \<Rightarrow> TronaResult \<Rightarrow> 'k machine \<Rightarrow> TronaMsg option \<Rightarrow> u64 option \<Rightarrow> u64 option \<Rightarrow>
   TronaMsg option \<times> u64 option \<times> u64 option" where
  "store_recv_any ctx r m msg badge source =
     (if r_error r = 0
      then (store_msg ctx m msg,
            (case ctx_buffer ctx m of None \<Rightarrow> badge | Some b \<Rightarrow> map_option (\<lambda>_. ib_badge b) badge),
            map_option (\<lambda>_. r_value r) source)
      else (msg, badge, source))"

definition send_ctx :: "'k kernel \<Rightarrow> bool \<Rightarrow> cap \<Rightarrow> TronaMsg \<Rightarrow> 'k machine \<Rightarrow> int \<times> 'k machine" where
  "send_ctx K ctx ep msg m =
     (let (r, m') = transmit K SYS_SEND ctx ep msg m in (err32 (r_error r), m'))"

definition send_timed_ctx ::
  "'k kernel \<Rightarrow> bool \<Rightarrow> cap \<Rightarrow> TronaMsg \<Rightarrow> u64 \<Rightarrow> 'k machine \<Rightarrow> int \<times> 'k machine" where
  "send_timed_ctx K ctx ep msg timeout m =
     (let (r, m') = transmit K SYS_SEND_TIMED ctx ep msg (set_timeout ctx timeout m)
      in (err32 (r_error r), m'))"

definition recv_ctx ::
  "'k kernel \<Rightarrow> bool \<Rightarrow> cap \<Rightarrow> TronaMsg option \<Rightarrow> u64 option \<Rightarrow> 'k machine \<Rightarrow>
   int \<times> TronaMsg option \<times> u64 option \<times> 'k machine" where
  "recv_ctx K ctx ep msg badge m =
     (let (r, m') = syscall K SYS_RECV ep 0 0 0 0 0 m;
          (msg', badge') = store_recv ctx r m' msg badge
      in (err32 (r_error r), msg', badge', m'))"

definition recv_timed_ctx ::
  "'k kernel \<Rightarrow> bool \<Rightarrow> cap \<Rightarrow> u64 \<Rightarrow> TronaMsg option \<Rightarrow> u64 option \<Rightarrow> 'k machine \<Rightarrow>
   int \<times> TronaMsg option \<times> u64 option \<times> 'k machine" where
  "recv_timed_ctx K ctx ep timeout msg badge m =
     (let (r, m') = syscall K SYS_RECV_TIMED ep 0 0 0 0 0 (set_timeout ctx timeout m);
          (msg', badge') = store_recv ctx r m' msg badge
      in (err32 (r_error r), msg', badge', m'))"

definition recv_any_ctx ::
  "'k kernel \<Rightarrow> bool \<Rightarrow> cap list option \<Rightarrow> TronaMsg option \<Rightarrow> u64 option \<Rightarrow> u64 option \<Rightarrow> 'k machine \<Rightarrow>
   int \<times> (TronaMsg option \<times> u64 option \<times> u64 option) \<times> 'k machine" where
  "recv_any_ctx K ctx endpoints msg badge source m =
     (case stage_recv_any_endpoints_ctx ctx endpoints m of
        (False, m0) \<Rightarrow> (err32 TRONA_INVALID_ARGUMENT, (msg, badge, source), m0)
      | (True, m0) \<Rightarrow>
          let (r, m') = syscall K SYS_RECV_ANY (of_nat (length (the endpoints))) 0 0 0 0 0 m0
          in (err32 (r_error r), store_recv_any ctx r m' msg badge source, m'))"

definition recv_any_timed_ctx ::
  "'k kernel \<Rightarrow> bool \<Rightarrow> cap list option \<Rightarrow> u64 \<Rightarrow> TronaMsg option \<Rightarrow> u64 option \<Rightarrow> u64 option \<Rightarrow>
   'k machine \<Rightarrow> int \<times> (TronaMsg option \<times> u64 option \<times> u64 option) \<times> 'k machine" where
  "recv_any_timed_ctx K ctx endpoints timeout msg badge source m =
     (case stage_recv_any_endpoints_ctx ctx endpoints m of
        (False, m0) \<Rightarrow> (err32 TRONA_INVALID_ARGUMENT, (msg, badge, source), m0)
      | (True, m0) \<Rightarrow>
          let (r, m') = syscall K SYS_RECV_ANY_TIMED (of_nat (length (the endpoints))) 0 0 0 0 0
                          (set_timeout ctx timeout m0)
          in (err32 (r_error r), store_recv_any ctx r m' msg badge source, m'))"

definition call_ctx ::
  "'k kernel \<Rightarrow> bool \<Rightarrow> cap \<Rightarrow> TronaMsg \<Rightarrow> TronaMsg option \<Rightarrow> 'k machine \<Rightarrow>
   int \<times> TronaMsg option \<times> 'k machine" where
  "call_ctx K ctx ep msg reply m =
     (let (r, m') = transmit K SYS_CALL ctx ep msg m
      in (err32 (r_error r), (if r_error r = 0 then store_msg ctx m' reply else reply), m'))"

definition reply_recv_ctx ::
  "'k kernel \<Rightarrow> bool \<Rightarrow> cap \<Rightarrow> TronaMsg \<Rightarrow> TronaMsg option \<Rightarrow> u64 option \<Rightarrow> 'k machine \<Rightarrow>
   int \<times> TronaMsg option \<times> u64 option \<times> 'k machine" where
  "reply_recv_ctx K ctx ep reply out_msg badge m =
     (let (r, m') = transmit K SYS_REPLY_RECV ctx ep reply m;
          (msg', badge') = store_recv ctx r m' out_msg badge
      in (err32 (r_error r), msg', badge', m'))"

definition reply_recv_any_ctx ::
  "'k kernel \<Rightarrow> bool \<Rightarrow> cap list option \<Rightarrow> TronaMsg \<Rightarrow> TronaMsg option \<Rightarrow> u64 option \<Rightarrow> u64 option \<Rightarrow>
   'k machine \<Rightarrow> int \<times> (TronaMsg option \<times> u64 option \<times> u64 option) \<times> 'k machine" where
  "reply_recv_any_ctx K ctx endpoints reply out_msg badge source m =
     (case stage_recv_any_endpoints_ctx ctx endpoints m of
        (False, m0) \<Rightarrow> (err32 TRONA_INVALID_ARGUMENT, (out_msg, badge, source), m0)
      | (True, m0) \<Rightarrow>
          let (r, m') = transmit K SYS_REPLY_RECV_ANY ctx (of_nat (length (the endpoints))) reply m0
          in (err32 (r_error r), store_recv_any ctx r m' out_msg badge source, m'))"

definition reply_recv_any_timed_ctx ::
  "'k kernel \<Rightarrow> bool \<Rightarrow> cap list option \<Rightarrow> u64 \<Rightarrow> TronaMsg \<Rightarrow> TronaMsg option \<Rightarrow> u64 option \<Rightarrow>
   u64 option \<Rightarrow> 'k machine \<Rightarrow> int \<times> (TronaMsg option \<times> u64 option \<times> u64 option) \<times> 'k machine" where
  "reply_recv_any_timed_ctx K ctx endpoints timeout reply out_msg badge source m =
     (case stage_recv_any_endpoints_ctx ctx endpoints m of
        (False, m0) \<Rightarrow> (err32 TRONA_INVALID_ARGUMENT, (out_msg, badge, source), m0)
      | (True, m0) \<Rightarrow>
          let (r, m') = transmit K SYS_REPLY_RECV_ANY_TIMED ctx (of_nat (length (the endpoints))) reply
                          (set_timeout ctx timeout m0)
          in (err32 (r_error r), store_recv_any ctx r m' out_msg badge source, m'))"

definition nbsend_ctx :: "'k kernel \<Rightarrow> bool \<Rightarrow> cap \<Rightarrow> TronaMsg \<Rightarrow> 'k machine \<Rightarrow> int \<times> 'k machine" where
  "nbsend_ctx K ctx ep msg m =
     (let (r, m') = transmit K SYS_NBSEND ctx ep msg m in (err32 (r_error r), m'))"

section \<open>Specification\<close>

text \<open>
  What the kernel can read of a message at a trap: label and length from the message info,
  four registers, and the rest from the page.
\<close>

definition wire_msg :: "u64 \<Rightarrow> u64 \<Rightarrow> u64 \<Rightarrow> u64 \<Rightarrow> u64 \<Rightarrow> IpcBuffer \<Rightarrow> TronaMsg" where
  "wire_msg info r0 r1 r2 r3 b =
     \<lparr>m_label = msginfo_label info, m_length = msginfo_length info,
      m_regs = [r0, r1, r2, r3] @ take 28 (drop 6 (ib_msg b))\<rparr>"

definition msg_words :: "TronaMsg \<Rightarrow> u64 list" where
  "msg_words msg = m_label msg # m_length msg # m_regs msg"

definition msg_ok :: "TronaMsg \<Rightarrow> bool" where
  "msg_ok msg \<longleftrightarrow> length (m_regs msg) = 32 \<and> unat (m_label msg) < 2 ^ 40 \<and> unat (m_length msg) \<le> 32"

text \<open>Two messages that agree in label, length and the registers that the length announces.\<close>

definition same_msg :: "TronaMsg \<Rightarrow> TronaMsg \<Rightarrow> bool" where
  "same_msg a b \<longleftrightarrow> m_label a = m_label b \<and> m_length a = m_length b \<and>
     take (unat (m_length a)) (m_regs a) = take (unat (m_length a)) (m_regs b)"

text \<open>
  The documented behaviour of an endpoint with one sender and one receiver: when a send reports
  success, the next receive succeeds and finds label, length and announced registers in
  its page, with the sender's badge as value.  The comments agree on the first 20
  registers only (\<open>ipc.rs\<close> and \<open>TronaMsg\<close> end the message there, \<open>IpcBuffer\<close> goes on
  to 32), so nothing is assumed of the others, of the rest of the page or of a send that fails.
\<close>

definition delivers :: "'k kernel \<Rightarrow> cap \<Rightarrow> u64 \<Rightarrow> bool" where
  "delivers K ep bdg \<longleftrightarrow>
     (\<forall>info r0 r1 r2 r3 b k r b1 k'. IpcBuffer_wf b \<longrightarrow>
        K SYS_SEND ep info r0 r1 r2 r3 (Some b) k = (r, b1, k') \<longrightarrow> err32 (r_error r) = 0 \<longrightarrow>
        (\<forall>b2. \<exists>b3 k''. K SYS_RECV ep 0 0 0 0 0 (Some b2) k' = (\<lparr>r_error = 0, r_value = bdg\<rparr>, b3, k'') \<and>
           length (ib_msg b3) = 34 \<and>
           (let n = 2 + min 20 (unat (msginfo_length info))
            in take n (ib_msg b3) = take n (msg_words (wire_msg info r0 r1 r2 r3 b)))))"

definition mailbox_kernel :: "u64 list kernel" where
  "mailbox_kernel num a0 a1 a2 a3 a4 a5 buf k =
     (case buf of
        None \<Rightarrow> (\<lparr>r_error = TRONA_INVALID_OPERATION, r_value = 0\<rparr>, zero_ipc_buffer, k)
      | Some b \<Rightarrow>
          if num = SYS_SEND then (\<lparr>r_error = 0, r_value = 0\<rparr>, b, msg_words (wire_msg a1 a2 a3 a4 a5 b))
          else if num = SYS_RECV then (\<lparr>r_error = 0, r_value = 77\<rparr>, b\<lparr>ib_msg := k\<rparr>, k)
          else (\<lparr>r_error = TRONA_INVALID_OPERATION, r_value = 0\<rparr>, b, k))"

text \<open>The outcome of a trap of a sending operation, with the staged capabilities cleared.\<close>

definition sent :: "'k machine \<Rightarrow> TronaResult \<times> IpcBuffer \<times> 'k \<Rightarrow> TronaResult \<times> 'k machine" where
  "sent m = (\<lambda>(r, b, k).
     (r, m\<lparr>ipc_buffer := Some (if 0 < send_cap_count m
                              then b\<lparr>ib_caps := fold (\<lambda>i caps. caps[i := 0]) [0..<4] (ib_caps b)\<rparr> else b),
           send_cap_count := 0, kern := k\<rparr>))"

section \<open>Facts on message info\<close>

lemma and_mask_small:
  fixes w :: "'a::len word"
  assumes "unat w < 2 ^ n"
  shows "w AND mask n = w"
  using bit_unat_less [OF assms] by (intro bit_word_eqI) (auto simp: bit_simps)

lemma msginfo_fields:
  assumes "unat lbl < 2 ^ 40" "unat len < 2 ^ 7" "unat caps < 2 ^ 5"
  shows "msginfo_label (msginfo lbl len caps) = lbl"
    "msginfo_length (msginfo lbl len caps) = len"
    "msginfo_extracaps (msginfo lbl len caps) = caps"
proof -
  note small = bit_unat_less [OF assms(1)] bit_unat_less [OF assms(2)] bit_unat_less [OF assms(3)]
  have m: "(0xFFFFFFFFFF :: u64) = mask 40" "(0x7F :: u64) = mask 7" "(0x1F :: u64) = mask 5"
    by (simp_all add: mask_eq_exp_minus_1)
  note defs = msginfo_label_def msginfo_length_def msginfo_extracaps_def msginfo_def m
  show "msginfo_label (msginfo lbl len caps) = lbl" unfolding defs
    by (rule bit_word_eqI) (use small in \<open>fastforce simp: bit_simps\<close>)
  show "msginfo_length (msginfo lbl len caps) = len" unfolding defs
    by (rule bit_word_eqI) (use small in \<open>fastforce simp: bit_simps\<close>)
  show "msginfo_extracaps (msginfo lbl len caps) = caps" unfolding defs
    by (rule bit_word_eqI) (use small in \<open>fastforce simp: bit_simps\<close>)
qed

section \<open>What the kernel sees\<close>

lemma map_nth_take: "n \<le> length xs \<Longrightarrow> map ((!) xs) [0..<n] = take n xs"
  by (rule nth_equalityI) simp_all

lemma split_regs:
  assumes "length xs = 32"
  obtains r0 r1 r2 r3 rest where "xs = [r0, r1, r2, r3] @ rest" "length rest = 28"
proof -
  from assms have "\<exists>a ys. xs = a # ys \<and> length ys = 31" by (cases xs) simp_all
  then obtain a ys where 1: "xs = a # ys" "length ys = 31" by blast
  then have "\<exists>b zs. ys = b # zs \<and> length zs = 30" by (cases ys) simp_all
  then obtain b zs where 2: "ys = b # zs" "length zs = 30" by blast
  then have "\<exists>c us. zs = c # us \<and> length us = 29" by (cases zs) simp_all
  then obtain c us where 3: "zs = c # us" "length us = 29" by blast
  then have "\<exists>d vs. us = d # vs \<and> length vs = 28" by (cases us) simp_all
  with 1 2 3 that show thesis by auto
qed

lemma write_overflow_wire:
  assumes msg: "msg_ok msg" and b: "ipc_buffer m = Some b" "IpcBuffer_wf b"
  obtains b1 where "write_overflow_ctx True msg m = m\<lparr>ipc_buffer := Some b1\<rparr>" "IpcBuffer_wf b1"
    "ib_caps b1 = ib_caps b" "ib_reserved b1 = ib_reserved b" "ib_timeout_ns b1 = ib_timeout_ns b"
    "take (unat (m_length msg)) ([m_regs msg ! 0, m_regs msg ! 1, m_regs msg ! 2, m_regs msg ! 3] @
       take 28 (drop 6 (ib_msg b1))) = take (unat (m_length msg)) (m_regs msg)"
proof -
  define L where "L = unat (m_length msg)"
  obtain r0 r1 r2 r3 rest where regs: "m_regs msg = [r0, r1, r2, r3] @ rest" "length rest = 28"
    using msg by (auto simp: msg_ok_def elim: split_regs)
  have L: "L \<le> 32" "unat (ucast (m_length msg) :: u32) = L"
    using msg by (simp_all add: L_def msg_ok_def unsigned_ucast_eq take_bit_nat_eq_self)
  show thesis
  proof (cases "L \<le> 4")
    case True
    with L b have "write_overflow_ctx True msg m = m\<lparr>ipc_buffer := Some b\<rparr>"
      by (simp add: write_overflow_ctx_def)
    moreover have "take L ([r0, r1, r2, r3] @ xs) = take L ([r0, r1, r2, r3] @ ys)" for xs ys
      using True by (simp only: take_append) simp
    ultimately show thesis using that [of b] b(2) regs(1) by (simp add: L_def)
  next
    case False
    define n where "n = L - 4"
    let ?w = "take 6 (ib_msg b) @ take n rest @ drop (6 + n) (ib_msg b)"
    have n: "min (L - 4) 28 = n" "n \<le> 28" using L(1) by (simp_all add: n_def)
    have "map (\<lambda>i. m_regs msg ! (4 + i)) [0..<n] = map ((!) rest) [0..<n]" by (simp add: regs)
    then have "map (\<lambda>i. m_regs msg ! (4 + i)) [0..<n] = take n rest"
      using map_nth_take [of n rest] n regs by simp
    then have f: "fold (\<lambda>i ws. ws[6 + i := m_regs msg ! (4 + i)]) [0..<n] (ib_msg b) = ?w"
      using fold_list_update_eq [of 6 n "ib_msg b" "\<lambda>i. m_regs msg ! (4 + i)"] n b(2)
      by (simp add: IpcBuffer_wf_def)
    have "write_overflow_ctx True msg m = m\<lparr>ipc_buffer := Some (b\<lparr>ib_msg := ?w\<rparr>)\<rparr>"
      using L False n b f by (simp add: write_overflow_ctx_def update_buffer_def Let_def)
    moreover have "take 28 (drop 6 ?w) = take n rest @ take (28 - n) (drop (6 + n) (ib_msg b))"
      using b(2) regs(2) n by (simp add: IpcBuffer_wf_def)
    moreover have "take L ([r0, r1, r2, r3] @ take n rest @ ys) = take L (m_regs msg)" for ys
      using False n L regs by (simp add: n_def take_Cons' min_def)
    ultimately show thesis using that [of "b\<lparr>ib_msg := ?w\<rparr>"] b(2) regs n
      by (simp add: IpcBuffer_wf_def L_def)
  qed
qed

lemma of_int_caps:
  assumes "0 \<le> c" "c \<le> 4"
  shows "unat (of_int c :: u64) = nat c"
proof -
  have "(of_int c :: u64) = of_nat (nat c)" using assms(1) by simp
  then show ?thesis using assms(2) by (simp add: unat_of_nat_lt64)
qed

text \<open>One sending operation: the arguments of the trap, and what is left afterwards.\<close>

lemma transmit_wire:
  assumes msg: "msg_ok msg" and b: "ipc_buffer m = Some b" "IpcBuffer_wf b"
    and caps: "0 \<le> send_cap_count m" "send_cap_count m \<le> 4"
  obtains b1 info where
    "transmit K num True tgt msg m =
       sent m (K num tgt info (m_regs msg ! 0) (m_regs msg ! 1) (m_regs msg ! 2) (m_regs msg ! 3) (Some b1) (kern m))"
    "same_msg msg (wire_msg info (m_regs msg ! 0) (m_regs msg ! 1) (m_regs msg ! 2) (m_regs msg ! 3) b1)"
    "unat (msginfo_extracaps info) = nat (send_cap_count m)"
    "ib_caps b1 = ib_caps b" "ib_reserved b1 = ib_reserved b" "ib_timeout_ns b1 = ib_timeout_ns b" "IpcBuffer_wf b1"
proof -
  let ?i = "msginfo (m_label msg) (m_length msg) (of_int (send_cap_count m))"
  obtain b1 where b1: "write_overflow_ctx True msg m = m\<lparr>ipc_buffer := Some b1\<rparr>" "IpcBuffer_wf b1"
    "ib_caps b1 = ib_caps b" "ib_reserved b1 = ib_reserved b" "ib_timeout_ns b1 = ib_timeout_ns b"
    "take (unat (m_length msg)) ([m_regs msg ! 0, m_regs msg ! 1, m_regs msg ! 2, m_regs msg ! 3] @
       take 28 (drop 6 (ib_msg b1))) = take (unat (m_length msg)) (m_regs msg)"
    using write_overflow_wire [OF msg b] by metis
  have "unat (m_label msg) < 2 ^ 40" "unat (m_length msg) < 2 ^ 7"
    "unat (of_int (send_cap_count m) :: u64) < 2 ^ 5"
    using msg caps of_int_caps [OF caps] by (simp_all add: msg_ok_def)
  note f = msginfo_fields [OF this]
  have "same_msg msg (wire_msg ?i (m_regs msg ! 0) (m_regs msg ! 1) (m_regs msg ! 2) (m_regs msg ! 3) b1)"
    using f b1(6) by (simp add: same_msg_def wire_msg_def)
  moreover have "unat (msginfo_extracaps ?i) = nat (send_cap_count m)"
    using f of_int_caps [OF caps] by simp
  moreover have "transmit K num True tgt msg m =
       sent m (K num tgt ?i (m_regs msg ! 0) (m_regs msg ! 1) (m_regs msg ! 2) (m_regs msg ! 3) (Some b1) (kern m))"
    using b1(1) caps(1)
    by (simp add: transmit_def syscall_def clear_send_caps_ctx_def update_buffer_def Let_def sent_def
        split: prod.splits)
  ultimately show thesis using that b1 by blast
qed

lemma fold_zero_caps: "length cs = 4 \<Longrightarrow> fold (\<lambda>i cs. cs[i := 0]) [0..<4] cs = replicate 4 (0::u64)"
  using fold_list_update_eq [of 0 4 cs "\<lambda>_. 0"] by (simp add: map_replicate_const)

lemma mailbox_delivers: "delivers mailbox_kernel ep 77"
  unfolding delivers_def mailbox_kernel_def
  by (force simp: Let_def msg_words_def wire_msg_def IpcBuffer_wf_def)

text \<open>A page that agrees with a message in the words that its length announces holds that message.\<close>

lemma announced_words:
  assumes "take (2 + unat (m_length msg)) (ib_msg b) = take (2 + unat (m_length msg)) (msg_words w)" "same_msg msg w"
    and "length (ib_msg b) = 34"
  shows "same_msg msg (buffer_msg b)"
proof -
  obtain x y zs where ws: "ib_msg b = x # y # zs" using assms(3) by (auto simp: numeral_eq_Suc length_Suc_conv)
  from assms(1) have "x = m_label w" "y = m_length w" "take (unat (m_length msg)) zs = take (unat (m_length msg)) (m_regs w)"
    by (simp_all add: ws msg_words_def)
  with assms(2) show ?thesis unfolding same_msg_def by (auto simp: buffer_msg_def ws)
qed

section \<open>Properties\<close>

text \<open>C21: A message of up to 20 registers that is sent successfully arrives: over an endpoint
  that behaves as documented, the receiver gets the label, the length and all announced registers of
  the sender's message, and the badge.\<close>

theorem send_recv_round_trip:
  assumes K: "delivers K ep bdg" and msg: "msg_ok msg" "unat (m_length msg) \<le> 20"
    and snd: "ipc_buffer m = Some b" "IpcBuffer_wf b" "0 \<le> send_cap_count m" "send_cap_count m \<le> 4"
    and ok: "fst (send_ctx K True ep msg m) = 0"
    and rcv: "ipc_buffer m2 = Some b2" "kern m2 = kern (snd (send_ctx K True ep msg m))"
  shows "\<exists>out m3. recv_ctx K True ep (Some x) (Some y) m2 = (0, Some out, Some bdg, m3) \<and> same_msg msg out"
proof -
  let ?r = "\<lambda>i. m_regs msg ! i"
  obtain b1 info where
    t: "transmit K 0 True ep msg m = sent m (K 0 ep info (?r 0) (?r 1) (?r 2) (?r 3) (Some b1) (kern m))"
    and w: "same_msg msg (wire_msg info (?r 0) (?r 1) (?r 2) (?r 3) b1)"
    and "unat (msginfo_extracaps info) = nat (send_cap_count m)"
    "ib_caps b1 = ib_caps b" "ib_reserved b1 = ib_reserved b" "ib_timeout_ns b1 = ib_timeout_ns b" and wf: "IpcBuffer_wf b1"
    by (rule transmit_wire [OF msg(1) snd])
  obtain r b' k' where k': "K 0 ep info (?r 0) (?r 1) (?r 2) (?r 3) (Some b1) (kern m) = (r, b', k')"
    by (metis prod_cases3)
  have s: "err32 (r_error r) = 0" "kern m2 = k'"
    using ok rcv(2) t k' by (simp_all add: send_ctx_def sent_def)
  let ?wire = "wire_msg info (?r 0) (?r 1) (?r 2) (?r 3) b1"
  have "msginfo_length info = m_length msg" using w by (simp add: same_msg_def wire_msg_def)
  then obtain b3 k'' where ws: "K 1 ep 0 0 0 0 0 (Some b2) k' = (\<lparr>r_error = 0, r_value = bdg\<rparr>, b3, k'')"
      "length (ib_msg b3) = 34" "take (2 + unat (m_length msg)) (ib_msg b3) = take (2 + unat (m_length msg)) (msg_words ?wire)"
    using K [unfolded delivers_def, rule_format, OF wf k' s(1), of b2] msg(2) by (auto simp: Let_def min_absorb2)
  have "same_msg msg (buffer_msg b3)"
    by (rule announced_words [OF ws(3) w ws(2)])
  with s ws(1) rcv show ?thesis
    by (simp add: recv_ctx_def syscall_def store_recv_def store_msg_def ctx_buffer_def err32_def)
qed

theorem send_recv_round_trip_witness:
  "\<exists>out m3.
    recv_ctx mailbox_kernel True 5 (Some TronaMsg_zeroed) (Some 0)
      \<lparr>ipc_buffer = Some zero_ipc_buffer, send_cap_count = 0,
       kern = kern (snd (send_ctx mailbox_kernel True 5 \<lparr>m_label = 3, m_length = 7, m_regs = map of_nat [0..<32]\<rparr>
         \<lparr>ipc_buffer = Some zero_ipc_buffer, send_cap_count = 0, kern = []\<rparr>))\<rparr> = (0, Some out, Some 77, m3) \<and>
    same_msg \<lparr>m_label = 3, m_length = 7, m_regs = map of_nat [0..<32]\<rparr> out"
proof -
  let ?msg = "\<lparr>m_label = 3, m_length = 7, m_regs = map of_nat [0..<32]\<rparr> :: TronaMsg"
  let ?m = "\<lparr>ipc_buffer = Some zero_ipc_buffer, send_cap_count = 0, kern = []\<rparr> :: u64 list machine"
  let ?m2 = "\<lparr>ipc_buffer = Some zero_ipc_buffer, send_cap_count = 0,
    kern = kern (snd (send_ctx mailbox_kernel True 5 ?msg ?m))\<rparr> :: u64 list machine"
  have "msg_ok ?msg" by (simp add: msg_ok_def)
  note rt = send_recv_round_trip [OF mailbox_delivers this]
  have ok: "fst (send_ctx mailbox_kernel True 5 ?msg ?m) = 0" by code_simp
  show ?thesis
    by (rule rt [of ?m zero_ipc_buffer 5 ?m2 zero_ipc_buffer TronaMsg_zeroed 0])
      (simp_all add: ok del: upt_Suc)
qed

text \<open>C22: A sending operation transfers exactly the staged capabilities, once: the kernel sees
  their number in the message info and their slots in the page, and afterwards, also when the
  kernel refused the message, nothing is staged.\<close>

theorem staged_caps_sent_once:
  assumes "msg_ok msg" "ipc_buffer m = Some b" "IpcBuffer_wf b" "0 \<le> send_cap_count m" "send_cap_count m \<le> 4"
    and keeps: "\<And>info r0 r1 r2 r3 b k. IpcBuffer_wf b \<Longrightarrow> IpcBuffer_wf (fst (snd (K num tgt info r0 r1 r2 r3 (Some b) k)))"
    and t: "transmit K num True tgt msg m = (r, m')"
  shows "\<exists>info b1 b2. (\<exists>k. K num tgt info (m_regs msg ! 0) (m_regs msg ! 1) (m_regs msg ! 2) (m_regs msg ! 3)
        (Some b1) (kern m) = (r, b2, k) \<and> kern m' = k) \<and>
    unat (msginfo_extracaps info) = nat (send_cap_count m) \<and> ib_caps b1 = ib_caps b \<and>
    send_cap_count m' = 0 \<and> (0 < send_cap_count m \<longrightarrow> ipc_buffer m' = Some (b2\<lparr>ib_caps := [0, 0, 0, 0]\<rparr>))"
proof -
  let ?r = "\<lambda>i. m_regs msg ! i"
  obtain b1 info where
    tr: "transmit K num True tgt msg m = sent m (K num tgt info (?r 0) (?r 1) (?r 2) (?r 3) (Some b1) (kern m))"
    and "same_msg msg (wire_msg info (?r 0) (?r 1) (?r 2) (?r 3) b1)"
    and b1: "unat (msginfo_extracaps info) = nat (send_cap_count m)"
    "ib_caps b1 = ib_caps b" "ib_reserved b1 = ib_reserved b" "ib_timeout_ns b1 = ib_timeout_ns b" "IpcBuffer_wf b1"
    by (rule transmit_wire [OF assms(1-5)])
  obtain r2 b2 k where k: "K num tgt info (?r 0) (?r 1) (?r 2) (?r 3) (Some b1) (kern m) = (r2, b2, k)"
    by (metis prod_cases3)
  from keeps [OF b1(5), of info "?r 0" "?r 1" "?r 2" "?r 3" "kern m"] k
  have "fold (\<lambda>i cs. cs[i := 0]) [0..<4] (ib_caps b2) = replicate 4 0"
    by (intro fold_zero_caps) (simp add: IpcBuffer_wf_def)
  then have "fold (\<lambda>i cs. cs[i := 0]) [0..<4] (ib_caps b2) = [0, 0, 0, 0]" by (simp add: numeral_eq_Suc)
  with t tr k b1(1,2) show ?thesis
    by (intro exI [of _ info] exI [of _ b1] exI [of _ b2]) (auto simp: sent_def)
qed

theorem staged_caps_sent_once_witness:
  "\<exists>info b1 b2. (\<exists>k. mailbox_kernel 9 5 info 0 0 0 0 (Some b1) [] = (\<lparr>r_error = TRONA_INVALID_OPERATION, r_value = 0\<rparr>, b2, k)) \<and>
    unat (msginfo_extracaps info) = 3"
proof -
  let ?m = "\<lparr>ipc_buffer = Some zero_ipc_buffer, send_cap_count = 3, kern = []\<rparr> :: u64 list machine"
  have "msg_ok TronaMsg_zeroed" by (simp add: msg_ok_def TronaMsg_zeroed_def)
  note s = staged_caps_sent_once [OF this, of ?m zero_ipc_buffer mailbox_kernel 9 5]
  obtain r m' where t: "transmit mailbox_kernel 9 True 5 TronaMsg_zeroed ?m = (r, m')" by fastforce
  have "\<exists>info b1 b2. (\<exists>k. mailbox_kernel 9 5 info 0 0 0 0 (Some b1) [] = (r, b2, k)) \<and> unat (msginfo_extracaps info) = 3"
    using s [OF _ _ _ _ _ t] by (auto simp: TronaMsg_zeroed_def mailbox_kernel_def)
  then show ?thesis by (auto simp: mailbox_kernel_def)
qed

text \<open>Fact: Receiving from several endpoints: a null or empty list, a list of more than 465 endpoints
  or a missing page is refused with the invalid-argument code without a trap and without any
  change; otherwise the kernel gets the number of endpoints and finds all of them, in order, in
  the page.\<close>

theorem recv_any_stages_endpoints:
  assumes wf: "\<And>b. ipc_buffer m = Some b \<Longrightarrow> IpcBuffer_wf b"
  shows "if ctx \<and> ipc_buffer m \<noteq> None \<and> (\<exists>eps. endpoints = Some eps \<and> 0 < length eps \<and> length eps \<le> 465)
    then \<exists>b1. take (length (the endpoints)) (ib_reserved b1) = the endpoints \<and>
      (\<forall>r b2 k. K SYS_RECV_ANY (of_nat (length (the endpoints))) 0 0 0 0 0 (Some b1) (kern m) = (r, b2, k) \<longrightarrow>
         recv_any_ctx K ctx endpoints msg badge source m =
         (err32 (r_error r),
          (if r_error r = 0
           then (map_option (\<lambda>_. buffer_msg b2) msg, map_option (\<lambda>_. ib_badge b2) badge, map_option (\<lambda>_. r_value r) source)
           else (msg, badge, source)),
          m\<lparr>ipc_buffer := Some b2, kern := k\<rparr>))
    else recv_any_ctx K ctx endpoints msg badge source m = (err32 TRONA_INVALID_ARGUMENT, (msg, badge, source), m)"
proof (cases "ctx \<and> ipc_buffer m \<noteq> None \<and> (\<exists>eps. endpoints = Some eps \<and> 0 < length eps \<and> length eps \<le> 465)")
  case False
  then show ?thesis
    by (auto simp: recv_any_ctx_def stage_recv_any_endpoints_ctx_def not_less split: option.splits)
next
  case True
  then obtain b eps where b: "ipc_buffer m = Some b" "endpoints = Some eps" "0 < length eps" "length eps \<le> 465" ctx
    by auto
  define b1 where "b1 = b\<lparr>ib_reserved := fold (\<lambda>i ws. ws[i := eps ! i]) [0..<length eps] (ib_reserved b)\<rparr>"
  have "ib_reserved b1 = eps @ drop (length eps) (ib_reserved b)"
    using fold_list_update_eq [of 0 "length eps" "ib_reserved b" "(!) eps"] b wf [OF b(1)]
    by (simp add: b1_def map_nth IpcBuffer_wf_def)
  moreover have "stage_recv_any_endpoints_ctx ctx endpoints m = (True, m\<lparr>ipc_buffer := Some b1\<rparr>)"
    using b by (auto simp: stage_recv_any_endpoints_ctx_def update_buffer_def b1_def)
  ultimately show ?thesis using b True
    by (auto simp: recv_any_ctx_def syscall_def store_recv_any_def store_msg_def ctx_buffer_def intro!: exI [of _ b1])
qed

theorem recv_any_stages_endpoints_witness:
  "recv_any_ctx mailbox_kernel True (Some []) None None None \<lparr>ipc_buffer = Some zero_ipc_buffer, send_cap_count = 0, kern = []\<rparr>
   = (err32 TRONA_INVALID_ARGUMENT, (None, None, None), \<lparr>ipc_buffer = Some zero_ipc_buffer, send_cap_count = 0, kern = []\<rparr>)"
  using recv_any_stages_endpoints [of "\<lparr>ipc_buffer = Some zero_ipc_buffer, send_cap_count = 0, kern = []\<rparr>" True "Some []" mailbox_kernel None None None]
  by simp

end
