(* ===== verification/Futex.thy ===== *)
theory Futex
  imports Trona_Prelude
begin

text \<open>
  Threads that synchronise through one futex word, for the primitives of
  \<^verbatim>\<open>substrate/sync.rs\<close>.  Each primitive has one such word.  A thread is a program
  counter; its program gives, for the program counter and the shared words, the
  possible outcomes of the next atomic operation (more than one where the code
  may fail spuriously, or depends on the clock, or is a choice of the caller).
  Atomic operations of different threads interleave.

  The kernel's part is the documented behaviour of the two system calls: a wait
  blocks if the word has the expected value and returns at once otherwise, as
  one atomic operation; a wake removes up to the given number of sleepers, and
  any of them may be chosen.  A wait with a timeout may return at any time with
  the timeout error, and any wait may return spuriously if \<open>spur\<close> is set.
\<close>

section \<open>Steps\<close>

datatype ('pc, 'sh) outcome =
    Step 'sh 'pc
  | FWait u32 'pc "'pc option"
  | FWake nat 'pc

text \<open>
  In \<open>FWait e p q\<close>, \<open>p\<close> is where the thread goes on after a wake or a mismatch and
  \<open>q\<close> where it goes on after a timeout, if the wait has one.
\<close>

record ('pc, 'sh) fstate =
  shared :: 'sh
  pcs :: "nat \<Rightarrow> 'pc"
  sleepers :: "nat \<rightharpoonup> 'pc option"

type_synonym ('pc, 'sh) fprog = "nat \<Rightarrow> 'pc \<Rightarrow> 'sh \<Rightarrow> ('pc, 'sh) outcome list"

definition go :: "nat \<Rightarrow> 'pc \<Rightarrow> ('pc, 'sh) fstate \<Rightarrow> ('pc, 'sh) fstate" where
  "go t p s = s\<lparr>pcs := (pcs s)(t := p)\<rparr>"

inductive fstep ::
  "('pc, 'sh) fprog \<Rightarrow> ('sh \<Rightarrow> u32) \<Rightarrow> nat \<Rightarrow> bool \<Rightarrow> ('pc, 'sh) fstate \<Rightarrow> ('pc, 'sh) fstate \<Rightarrow> bool"
  for prog word N spur where
  run: "t < N \<Longrightarrow> sleepers s t = None \<Longrightarrow> Step sh p \<in> set (prog t (pcs s t) (shared s)) \<Longrightarrow>
    fstep prog word N spur s (go t p (s\<lparr>shared := sh\<rparr>))"
| sleep: "t < N \<Longrightarrow> sleepers s t = None \<Longrightarrow> FWait e p q \<in> set (prog t (pcs s t) (shared s)) \<Longrightarrow>
    word (shared s) = e \<Longrightarrow>
    fstep prog word N spur s (go t p (s\<lparr>sleepers := (sleepers s)(t \<mapsto> q)\<rparr>))"
| mismatch: "t < N \<Longrightarrow> sleepers s t = None \<Longrightarrow> FWait e p q \<in> set (prog t (pcs s t) (shared s)) \<Longrightarrow>
    word (shared s) \<noteq> e \<Longrightarrow> fstep prog word N spur s (go t p s)"
| wake: "t < N \<Longrightarrow> sleepers s t = None \<Longrightarrow> FWake n p \<in> set (prog t (pcs s t) (shared s)) \<Longrightarrow>
    W \<subseteq> dom (sleepers s) \<Longrightarrow> card W = min n (card (dom (sleepers s))) \<Longrightarrow>
    fstep prog word N spur s (go t p (s\<lparr>sleepers := (sleepers s) |` (- W)\<rparr>))"
| timeout: "sleepers s t = Some (Some q) \<Longrightarrow>
    fstep prog word N spur s (go t q (s\<lparr>sleepers := (sleepers s)(t := None)\<rparr>))"
| spurious: "spur \<Longrightarrow> sleepers s t = Some q \<Longrightarrow>
    fstep prog word N spur s (s\<lparr>sleepers := (sleepers s)(t := None)\<rparr>)"

text \<open>All threads start at the same program counter.\<close>

definition finit :: "'sh \<Rightarrow> 'pc \<Rightarrow> ('pc, 'sh) fstate" where
  "finit sh p = \<lparr>shared = sh, pcs = (\<lambda>_. p), sleepers = Map.empty\<rparr>"

definition freach ::
  "('pc, 'sh) fprog \<Rightarrow> ('sh \<Rightarrow> u32) \<Rightarrow> nat \<Rightarrow> bool \<Rightarrow> ('pc, 'sh) fstate \<Rightarrow> ('pc, 'sh) fstate \<Rightarrow> bool" where
  "freach prog word N spur = (fstep prog word N spur)\<^sup>*\<^sup>*"

section \<open>Running a schedule\<close>

text \<open>
  A schedule picks a thread, one of its outcomes and, for a wake, the sleepers.
  Running it is executable, and what it reaches is reachable without spurious
  wakes.
\<close>

type_synonym sched = "(nat \<times> nat \<times> nat list) list"

definition fexec1 ::
  "('pc, 'sh) fprog \<Rightarrow> ('sh \<Rightarrow> u32) \<Rightarrow> nat \<Rightarrow> nat \<times> nat \<times> nat list \<Rightarrow> ('pc, 'sh) fstate \<Rightarrow>
   ('pc, 'sh) fstate option" where
  "fexec1 prog word N = (\<lambda>(t, i, ws) s.
     if t < N \<and> sleepers s t = None \<and> i < length (prog t (pcs s t) (shared s))
     then case prog t (pcs s t) (shared s) ! i of
         Step sh p \<Rightarrow> Some (go t p (s\<lparr>shared := sh\<rparr>))
       | FWait e p q \<Rightarrow>
           if word (shared s) = e then Some (go t p (s\<lparr>sleepers := (sleepers s)(t \<mapsto> q)\<rparr>))
           else Some (go t p s)
       | FWake n p \<Rightarrow>
           if distinct ws \<and> (\<forall>w\<in>set ws. sleepers s w \<noteq> None) \<and>
              (length ws = n \<or> length ws \<le> n \<and> (\<forall>u<N. sleepers s u \<noteq> None \<longrightarrow> u \<in> set ws))
           then Some (go t p (s\<lparr>sleepers := (\<lambda>u. if u \<in> set ws then None else sleepers s u)\<rparr>))
           else None
     else None)"

fun fexec ::
  "('pc, 'sh) fprog \<Rightarrow> ('sh \<Rightarrow> u32) \<Rightarrow> nat \<Rightarrow> sched \<Rightarrow> ('pc, 'sh) fstate \<Rightarrow> ('pc, 'sh) fstate option" where
  "fexec prog word N [] s = Some s"
| "fexec prog word N (x # xs) s = Option.bind (fexec1 prog word N x s) (fexec prog word N xs)"

text \<open>Sleepers are threads of the system.\<close>

definition sleepers_ok :: "nat \<Rightarrow> ('pc, 'sh) fstate \<Rightarrow> bool" where
  "sleepers_ok N s \<longleftrightarrow> dom (sleepers s) \<subseteq> {..<N}"

text \<open>The number of threads whose program counter is in a class.\<close>

definition at_pc :: "nat \<Rightarrow> ('pc \<Rightarrow> bool) \<Rightarrow> ('pc, 'sh) fstate \<Rightarrow> nat" where
  "at_pc N P s = card {t. t < N \<and> P (pcs s t)}"

section \<open>Invariants\<close>

lemma go_simps [simp]:
  "shared (go t p s) = shared s" "sleepers (go t p s) = sleepers s" "pcs (go t p s) = (pcs s)(t := p)"
  by (simp_all add: go_def)

lemma finit_simps [simp]:
  "shared (finit sh p) = sh" "pcs (finit sh p) t = p" "sleepers (finit sh p) = Map.empty"
  by (simp_all add: finit_def)

text \<open>
  A predicate that every kind of step preserves holds of every reachable state.
  Each primitive interprets this with its own program.
\<close>

locale futex_invariant =
  fixes prog :: "('pc, 'sh) fprog" and word :: "'sh \<Rightarrow> u32" and N :: nat
    and inv :: "('pc, 'sh) fstate \<Rightarrow> bool" and init :: "('pc, 'sh) fstate"
  assumes inv_init: "inv init"
    and inv_run: "inv s \<Longrightarrow> t < N \<Longrightarrow> sleepers s t = None \<Longrightarrow>
      Step sh p \<in> set (prog t (pcs s t) (shared s)) \<Longrightarrow> inv (go t p (s\<lparr>shared := sh\<rparr>))"
    and inv_sleep: "inv s \<Longrightarrow> t < N \<Longrightarrow> sleepers s t = None \<Longrightarrow>
      FWait e p q \<in> set (prog t (pcs s t) (shared s)) \<Longrightarrow> word (shared s) = e \<Longrightarrow>
      inv (go t p (s\<lparr>sleepers := (sleepers s)(t \<mapsto> q)\<rparr>))"
    and inv_mismatch: "inv s \<Longrightarrow> t < N \<Longrightarrow> sleepers s t = None \<Longrightarrow>
      FWait e p q \<in> set (prog t (pcs s t) (shared s)) \<Longrightarrow> word (shared s) \<noteq> e \<Longrightarrow> inv (go t p s)"
    and inv_wake: "inv s \<Longrightarrow> t < N \<Longrightarrow> sleepers s t = None \<Longrightarrow>
      FWake n p \<in> set (prog t (pcs s t) (shared s)) \<Longrightarrow> W \<subseteq> dom (sleepers s) \<Longrightarrow>
      card W = min n (card (dom (sleepers s))) \<Longrightarrow>
      inv (go t p (s\<lparr>sleepers := (sleepers s) |` (- W)\<rparr>))"
    and inv_timeout: "inv s \<Longrightarrow> sleepers s t = Some (Some p) \<Longrightarrow>
      inv (go t p (s\<lparr>sleepers := (sleepers s)(t := None)\<rparr>))"
    and inv_spurious: "inv s \<Longrightarrow> sleepers s t = Some q \<Longrightarrow>
      inv (s\<lparr>sleepers := (sleepers s)(t := None)\<rparr>)"
begin

lemma step_inv: "fstep prog word N spur s s' \<Longrightarrow> inv s \<Longrightarrow> inv s'"
proof (induction rule: fstep.induct)
  case (run t s sh p)
  from inv_run [OF run.prems run.hyps] show ?case .
next
  case (sleep t s e p q)
  from inv_sleep [OF sleep.prems sleep.hyps] show ?case .
next
  case (mismatch t s e p q)
  from inv_mismatch [OF mismatch.prems mismatch.hyps] show ?case .
next
  case (wake t s n p W)
  from inv_wake [OF wake.prems wake.hyps] show ?case .
next
  case (timeout s t q)
  from inv_timeout [OF timeout.prems timeout.hyps] show ?case .
next
  case (spurious s t q)
  from inv_spurious [OF spurious.prems spurious.hyps(2)] show ?case .
qed

lemma reach_inv:
  assumes "freach prog word N spur init s"
  shows "inv s"
proof -
  have "(fstep prog word N spur)\<^sup>*\<^sup>* a b \<Longrightarrow> inv a \<Longrightarrow> inv b" for a b
    by (induction rule: rtranclp_induct) (auto intro: step_inv)
  with inv_init assms show ?thesis by (auto simp: freach_def)
qed

end

section \<open>Schedules reach\<close>

lemma sleepers_ok_step: "fstep prog word N spur s s' \<Longrightarrow> sleepers_ok N s \<Longrightarrow> sleepers_ok N s'"
  by (induction rule: fstep.induct)
    (auto simp: sleepers_ok_def subset_iff dom_def restrict_map_def split: if_splits)

lemma fexec1_step:
  assumes "fexec1 prog word N x s = Some s'" "sleepers_ok N s"
  shows "fstep prog word N spur s s'"
proof -
  obtain t i ws where x: "x = (t, i, ws)" by (cases x)
  let ?os = "prog t (pcs s t) (shared s)"
  have t: "t < N" "sleepers s t = None" "i < length ?os"
    using assms(1) by (auto simp: x fexec1_def split: if_splits)
  then have mem: "?os ! i \<in> set ?os" by simp
  show ?thesis
  proof (cases "?os ! i")
    case (Step sh p)
    then show ?thesis using assms(1) t mem by (auto simp: x fexec1_def intro: fstep.run)
  next
    case (FWait e p q)
    then show ?thesis using assms(1) t mem
      by (auto simp: x fexec1_def intro: fstep.sleep fstep.mismatch split: if_splits)
  next
    case (FWake n p)
    then have s': "s' = go t p (s\<lparr>sleepers := (\<lambda>u. if u \<in> set ws then None else sleepers s u)\<rparr>)"
      and ws: "distinct ws" "\<forall>w\<in>set ws. sleepers s w \<noteq> None"
        "length ws = n \<or> length ws \<le> n \<and> (\<forall>u<N. sleepers s u \<noteq> None \<longrightarrow> u \<in> set ws)"
      using assms(1) t by (auto simp: x fexec1_def split: if_splits)
    have eq: "(\<lambda>u. if u \<in> set ws then None else sleepers s u) = sleepers s |` (- set ws)"
      by (auto simp: restrict_map_def)
    have sub: "set ws \<subseteq> dom (sleepers s)" using ws(2) by auto
    have fin: "finite (dom (sleepers s))" using assms(2) by (auto simp: sleepers_ok_def intro: finite_subset)
    have "card (set ws) = min n (card (dom (sleepers s)))"
    proof (cases "length ws = n")
      case True
      then show ?thesis using card_mono [OF fin sub] by (simp add: distinct_card [OF ws(1)])
    next
      case False
      then have "dom (sleepers s) \<subseteq> set ws" using ws(3) assms(2) by (auto simp: sleepers_ok_def)
      then have "dom (sleepers s) = set ws" using sub by simp
      with False ws(3) show ?thesis by (simp add: distinct_card [OF ws(1)])
    qed
    with t sub mem FWake show ?thesis unfolding s' eq by (intro fstep.wake) simp_all
  qed
qed

lemma fexec_reach:
  assumes "fexec prog word N xs s = Some s'" "sleepers_ok N s"
  shows "freach prog word N spur s s'"
  using assms
proof (induction xs arbitrary: s)
  case Nil
  then show ?case by (simp add: freach_def)
next
  case (Cons x xs)
  then obtain s1 where s1: "fexec1 prog word N x s = Some s1" "fexec prog word N xs s1 = Some s'"
    by (auto simp: bind_eq_Some_conv)
  have step: "fstep prog word N spur s s1" by (rule fexec1_step [OF s1(1) Cons.prems(2)])
  with Cons.IH [OF s1(2) sleepers_ok_step [OF step Cons.prems(2)]] show ?case
    by (simp add: freach_def)
qed

lemma sleepers_ok_finit [simp]: "sleepers_ok N (finit sh p)"
  by (simp add: sleepers_ok_def)

section \<open>Counting threads\<close>

lemma at_pc_go:
  assumes "t < N"
  shows "at_pc N P (go t p s) =
    (if P (pcs s t) then at_pc N P s - 1 else at_pc N P s) + (if P p then 1 else 0)"
proof -
  let ?A = "{u. u < N \<and> P (pcs s u)}"
  have "{u. u < N \<and> P (pcs (go t p s) u)} = (if P p then insert t (?A - {t}) else ?A - {t})"
    using assms by auto
  moreover have "P (pcs s t) \<Longrightarrow> 0 < card ?A" using assms by (auto simp: card_gt_0_iff)
  ultimately show ?thesis using assms by (simp add: at_pc_def card_Diff_singleton_if insert_absorb)
qed

lemma at_pc_pos: "t < N \<Longrightarrow> P (pcs s t) \<Longrightarrow> 0 < at_pc N P s"
  by (auto simp: at_pc_def card_gt_0_iff)

lemma at_pc_0: "at_pc N P s = 0 \<longleftrightarrow> (\<forall>t<N. \<not> P (pcs s t))"
  by (auto simp: at_pc_def)

lemma at_pc_le: "at_pc N P s \<le> N"
proof -
  have "{t. t < N \<and> P (pcs s t)} \<subseteq> {..<N}" by auto
  from card_mono [OF _ this] show ?thesis by (simp add: at_pc_def)
qed

lemma at_pc_1_unique: "at_pc N P s \<le> 1 \<Longrightarrow> t < N \<Longrightarrow> u < N \<Longrightarrow> P (pcs s t) \<Longrightarrow> P (pcs s u) \<Longrightarrow> t = u"
  using card_le_Suc0_iff_eq [of "{t. t < N \<and> P (pcs s t)}"] by (simp add: at_pc_def)

lemma at_pc_update [simp]:
  "at_pc N P (s\<lparr>shared := sh\<rparr>) = at_pc N P s" "at_pc N P (s\<lparr>sleepers := sl\<rparr>) = at_pc N P s"
  by (simp_all add: at_pc_def)

lemma at_pc_finit: "\<not> P p \<Longrightarrow> at_pc N P (finit sh p) = 0"
  by (simp add: at_pc_def)

end
