(* ===== verification/Mutex.thy ===== *)
theory Mutex
  imports Futex
begin

text \<open>
  The mutex of \<^verbatim>\<open>substrate/sync.rs\<close>: one word with 0 for unlocked, 1 for locked and 2
  for locked with possible waiters, and the operations \<open>lock\<close>, \<open>lock_timeout\<close>,
  \<open>try_lock\<close> and \<open>unlock\<close> as programs of the threads of \<^verbatim>\<open>Futex\<close>.  The clock of the
  timed operation is a choice at the point where it is read.
\<close>

section \<open>Programs\<close>

datatype mutex_pc =
    MIdle | MHeld
  | LFast | LSpin nat | LSpinCas nat | LSwap | LWait
  | TFast | TSwap | TRemain | TWait | TLast
  | YCas
  | USwap | UWake

fun mutex_lock :: "mutex_pc \<Rightarrow> u32 \<Rightarrow> (mutex_pc, u32) outcome list" where
  "mutex_lock LFast w = [if w = 0 then Step 1 MHeld else Step w (LSpin 40)]"
| "mutex_lock (LSpin 0) w = [Step w LSwap]"
| "mutex_lock (LSpin (Suc k)) w = [Step w (if w = 0 then LSpinCas k else LSpin k)]"
| "mutex_lock (LSpinCas k) w = (if w = 0 then [Step 2 MHeld, Step w (LSpin k)] else [Step w (LSpin k)])"
| "mutex_lock LSwap w = [Step 2 (if w = 0 then MHeld else LWait)]"
| "mutex_lock LWait w = [FWait 2 LSwap None]"
| "mutex_lock _ w = []"

fun mutex_lock_timeout :: "mutex_pc \<Rightarrow> u32 \<Rightarrow> (mutex_pc, u32) outcome list" where
  "mutex_lock_timeout TFast w = [if w = 0 then Step 1 MHeld else Step w TSwap]"
| "mutex_lock_timeout TSwap w = [Step 2 (if w = 0 then MHeld else TRemain)]"
| "mutex_lock_timeout TRemain w = [Step w TLast, Step w TWait]"
| "mutex_lock_timeout TWait w = [FWait 2 TSwap (Some TLast)]"
| "mutex_lock_timeout TLast w = [Step 2 (if w = 0 then MHeld else MIdle)]"
| "mutex_lock_timeout _ w = []"

fun mutex_try_lock :: "mutex_pc \<Rightarrow> u32 \<Rightarrow> (mutex_pc, u32) outcome list" where
  "mutex_try_lock YCas w = [if w = 0 then Step 1 MHeld else Step w MIdle]"
| "mutex_try_lock _ w = []"

fun mutex_unlock :: "mutex_pc \<Rightarrow> u32 \<Rightarrow> (mutex_pc, u32) outcome list" where
  "mutex_unlock USwap w = [Step 0 (if w = 2 then UWake else MIdle)]"
| "mutex_unlock UWake w = [FWake 1 MIdle]"
| "mutex_unlock _ w = []"

text \<open>A client calls any operation to acquire when idle, and releases only what it holds.\<close>

fun mutex_client :: "mutex_pc \<Rightarrow> u32 \<Rightarrow> (mutex_pc, u32) outcome list" where
  "mutex_client MIdle w = [Step w LFast, Step w TFast, Step w YCas]"
| "mutex_client MHeld w = [Step w USwap]"
| "mutex_client _ w = []"

definition mutex_prog :: "(mutex_pc, u32) fprog" where
  "mutex_prog t p w = mutex_client p w @ mutex_lock p w @ mutex_lock_timeout p w @
     mutex_try_lock p w @ mutex_unlock p w"

definition mutex_init :: "(mutex_pc, u32) fstate" where
  "mutex_init = finit 0 MIdle"

text \<open>Two threads, of which the first has the lock and the second sleeps with a timeout.\<close>

definition mutex_contended :: "(mutex_pc, u32) fstate" where
  "mutex_contended = \<lparr>shared = 2, pcs = (\<lambda>_. MIdle)(0 := MHeld, 1 := TSwap), sleepers = [1 \<mapsto> Some TLast]\<rparr>"

section \<open>Invariant\<close>

text \<open>From the acquiring operation to the swap of \<open>unlock\<close>.\<close>

definition m_holds :: "mutex_pc \<Rightarrow> bool" where
  "m_holds p \<longleftrightarrow> p = MHeld \<or> p = USwap"

text \<open>
  Threads that will, before they sleep or return, leave the word at 2 or wake a sleeper.
\<close>

definition m_active :: "mutex_pc \<Rightarrow> bool" where
  "m_active p \<longleftrightarrow> (\<exists>k. p = LSpin k \<or> p = LSpinCas k) \<or> p = LSwap \<or> p = LWait \<or> p = TSwap \<or> p = TRemain \<or>
     p = TWait \<or> p = TLast \<or> p = UWake"

definition mutex_inv :: "nat \<Rightarrow> (mutex_pc, u32) fstate \<Rightarrow> bool" where
  "mutex_inv N s \<longleftrightarrow>
     shared s \<in> {0, 1, 2} \<and>
     at_pc N m_holds s = (if shared s = 0 then 0 else 1) \<and>
     (\<forall>t q. sleepers s t = Some q \<longrightarrow> t < N \<and> (pcs s t = LSwap \<and> q = None \<or> pcs s t = TSwap \<and> q = Some TLast)) \<and>
     (sleepers s = Map.empty \<or> shared s = 2 \<or> (\<exists>t<N. sleepers s t = None \<and> m_active (pcs s t)))"

text \<open>What one atomic operation does, as facts on the two program counters and the two words.\<close>

lemma mutex_step_facts:
  assumes "Step w' p' \<in> set (mutex_prog t p w)" "w \<in> {0, 1, 2}" "m_holds p \<longrightarrow> w \<noteq> 0"
  shows "w' \<in> {0, 1, 2}"
    "if w = 0 then (w' \<noteq> 0 \<longleftrightarrow> m_holds p') else if m_holds p then (w' \<noteq> 0 \<longleftrightarrow> m_holds p') else w' \<noteq> 0 \<and> \<not> m_holds p'"
    "m_active p' \<or> w' = 2 \<or> \<not> m_active p \<and> w \<noteq> 2"
proof -
  have "w' \<in> {0, 1, 2} \<and>
    (if w = 0 then (w' \<noteq> 0 \<longleftrightarrow> m_holds p') else if m_holds p then (w' \<noteq> 0 \<longleftrightarrow> m_holds p') else w' \<noteq> 0 \<and> \<not> m_holds p') \<and>
    (m_active p' \<or> w' = 2 \<or> \<not> m_active p \<and> w \<noteq> 2)"
  proof (cases p)
    case (LSpin k)
    with assms show ?thesis by (cases k) (auto simp: mutex_prog_def m_holds_def m_active_def)
  next
    case (LSpinCas k)
    with assms show ?thesis by (auto simp: mutex_prog_def m_holds_def m_active_def split: if_splits)
  qed (use assms in \<open>auto simp: mutex_prog_def m_holds_def m_active_def split: if_splits\<close>)
  then show "w' \<in> {0, 1, 2}"
    "if w = 0 then (w' \<noteq> 0 \<longleftrightarrow> m_holds p') else if m_holds p then (w' \<noteq> 0 \<longleftrightarrow> m_holds p') else w' \<noteq> 0 \<and> \<not> m_holds p'"
    "m_active p' \<or> w' = 2 \<or> \<not> m_active p \<and> w \<noteq> 2" by blast+
qed

lemma mutex_wait_facts:
  assumes "FWait e p' q \<in> set (mutex_prog t p w)"
  shows "e = 2" "p' = LSwap \<and> q = None \<or> p' = TSwap \<and> q = Some TLast" "\<not> m_holds p" "\<not> m_holds p'"
    "m_active p" "m_active p'"
proof -
  have "e = 2 \<and> (p' = LSwap \<and> q = None \<or> p' = TSwap \<and> q = Some TLast) \<and> \<not> m_holds p \<and> \<not> m_holds p' \<and>
    m_active p \<and> m_active p'"
  proof (cases p)
    case (LSpin k)
    with assms show ?thesis by (cases k) (auto simp: mutex_prog_def)
  qed (use assms in \<open>auto simp: mutex_prog_def m_holds_def m_active_def split: if_splits\<close>)
  then show "e = 2" "p' = LSwap \<and> q = None \<or> p' = TSwap \<and> q = Some TLast" "\<not> m_holds p" "\<not> m_holds p'"
    "m_active p" "m_active p'" by blast+
qed

lemma mutex_wake_facts:
  assumes "FWake n p' \<in> set (mutex_prog t p w)"
  shows "p = UWake \<and> p' = MIdle \<and> n = 1"
proof (cases p)
  case (LSpin k)
  with assms show ?thesis by (cases k) (auto simp: mutex_prog_def)
qed (use assms in \<open>auto simp: mutex_prog_def split: if_splits\<close>)

text \<open>The parts of the invariant.\<close>

lemma mutex_invD:
  assumes "mutex_inv N s"
  shows "shared s \<in> {0, 1, 2}" "at_pc N m_holds s = (if shared s = 0 then 0 else 1)"
    "sleepers s t = Some q \<Longrightarrow> t < N \<and> (pcs s t = LSwap \<and> q = None \<or> pcs s t = TSwap \<and> q = Some TLast)"
    "sleepers s = Map.empty \<or> shared s = 2 \<or> (\<exists>t<N. sleepers s t = None \<and> m_active (pcs s t))"
  using assms unfolding mutex_inv_def by blast+

lemma m_classes [simp]: "m_active LSwap" "m_active TSwap" "m_active TLast" "m_active UWake" "\<not> m_holds UWake"
  "\<not> m_holds MIdle" "\<not> m_holds LSwap" "\<not> m_holds TSwap" "\<not> m_holds TLast"
  by (simp_all add: m_active_def m_holds_def)

lemma mutex_inv_run:
  assumes I: "mutex_inv N s" and t: "t < N" "sleepers s t = None"
    and st: "Step w p \<in> set (mutex_prog t (pcs s t) (shared s))"
  shows "mutex_inv N (go t p (s\<lparr>shared := w\<rparr>))"
proof -
  note I = mutex_invD [OF I]
  have h: "m_holds (pcs s t) \<longrightarrow> shared s \<noteq> 0" using I(2) at_pc_pos [OF t(1), of m_holds s] by auto
  note f = mutex_step_facts [OF st I(1) h]
  have "at_pc N m_holds (go t p (s\<lparr>shared := w\<rparr>)) = (if w = 0 then 0 else 1)"
    using f(2) I(2) h by (auto simp: at_pc_go [OF t(1)] split: if_splits)
  moreover have "sleepers s u = Some q \<Longrightarrow> u < N \<and> (((pcs s)(t := p)) u = LSwap \<and> q = None \<or>
      ((pcs s)(t := p)) u = TSwap \<and> q = Some TLast)" for u q
    using I(3) [of u q] t(2) by auto
  moreover have "sleepers s = Map.empty \<or> w = 2 \<or> (\<exists>u<N. sleepers s u = None \<and> m_active (((pcs s)(t := p)) u))"
  proof (cases "m_active p \<or> w = 2")
    case True
    then show ?thesis using t by auto
  next
    case False
    with f(3) have "\<not> m_active (pcs s t)" "shared s \<noteq> 2" by auto
    with I(4) show ?thesis by auto
  qed
  ultimately show ?thesis using f(1) unfolding mutex_inv_def by simp
qed

lemma mutex_inv_sleep:
  assumes I: "mutex_inv N s" and t: "t < N" "sleepers s t = None"
    and st: "FWait e p q \<in> set (mutex_prog t (pcs s t) (shared s))" and e: "shared s = e"
  shows "mutex_inv N (go t p (s\<lparr>sleepers := (sleepers s)(t \<mapsto> q)\<rparr>))"
proof -
  note I = mutex_invD [OF I]
  note f = mutex_wait_facts [OF st]
  have "at_pc N m_holds (go t p (s\<lparr>sleepers := (sleepers s)(t \<mapsto> q)\<rparr>)) = (if shared s = 0 then 0 else 1)"
    using I(2) f(3,4) by (simp add: at_pc_go [OF t(1)])
  moreover have "((sleepers s)(t \<mapsto> q)) u = Some r \<Longrightarrow> u < N \<and> (((pcs s)(t := p)) u = LSwap \<and> r = None \<or>
      ((pcs s)(t := p)) u = TSwap \<and> r = Some TLast)" for u r
    using I(3) [of u r] t f(2) by (auto split: if_splits)
  ultimately show ?thesis using I(1) f(1) e unfolding mutex_inv_def by simp
qed

lemma mutex_inv_mismatch:
  assumes I: "mutex_inv N s" and t: "t < N" "sleepers s t = None"
    and st: "FWait e p q \<in> set (mutex_prog t (pcs s t) (shared s))"
  shows "mutex_inv N (go t p s)"
proof -
  note I = mutex_invD [OF I]
  note f = mutex_wait_facts [OF st]
  have "at_pc N m_holds (go t p s) = (if shared s = 0 then 0 else 1)"
    using I(2) f(3,4) by (simp add: at_pc_go [OF t(1)])
  moreover have "sleepers s u = Some q \<Longrightarrow> u < N \<and> (((pcs s)(t := p)) u = LSwap \<and> q = None \<or>
      ((pcs s)(t := p)) u = TSwap \<and> q = Some TLast)" for u q
    using I(3) [of u q] t(2) by auto
  moreover have "\<exists>u<N. sleepers s u = None \<and> m_active (((pcs s)(t := p)) u)" using t f(6) by auto
  ultimately show ?thesis using I(1) unfolding mutex_inv_def by simp
qed

text \<open>A sleeper that leaves the queue is active, so it carries the last part of the invariant.\<close>

lemma mutex_inv_leave:
  assumes I: "mutex_inv N s" and u: "sleepers s u = Some r" "p = pcs s u \<or> r = Some p"
    and sub: "\<And>v. sl v = None \<or> sl v = sleepers s v" "sl u = None"
  shows "mutex_inv N (go u p (s\<lparr>sleepers := sl\<rparr>))"
proof -
  have uN: "u < N" and up: "m_active p \<and> \<not> m_holds p \<and> \<not> m_holds (pcs s u)"
    using mutex_invD(3) [OF I u(1)] u(2) by auto
  note I = mutex_invD [OF I]
  have "at_pc N m_holds (go u p (s\<lparr>sleepers := sl\<rparr>)) = (if shared s = 0 then 0 else 1)"
    using I(2) up by (simp add: at_pc_go [OF uN])
  moreover have "sl v = Some q \<Longrightarrow> v < N \<and> (((pcs s)(u := p)) v = LSwap \<and> q = None \<or>
      ((pcs s)(u := p)) v = TSwap \<and> q = Some TLast)" for v q
    using I(3) [of v q] sub(1) [of v] sub(2) by auto
  moreover have "\<exists>v<N. sl v = None \<and> m_active (((pcs s)(u := p)) v)" using uN up sub(2) by auto
  ultimately show ?thesis using I(1) unfolding mutex_inv_def by simp
qed

lemma mutex_inv_wake:
  assumes I: "mutex_inv N s" and t: "t < N" "sleepers s t = None"
    and st: "FWake n p \<in> set (mutex_prog t (pcs s t) (shared s))"
    and W: "W \<subseteq> dom (sleepers s)" "card W = min n (card (dom (sleepers s)))"
  shows "mutex_inv N (go t p (s\<lparr>sleepers := (sleepers s) |` (- W)\<rparr>))"
proof -
  note f = mutex_wake_facts [OF st]
  note D = mutex_invD [OF I]
  have holds: "at_pc N m_holds (go t p (s\<lparr>sleepers := sl\<rparr>)) = (if shared s = 0 then 0 else 1)" for sl
    using D(2) f by (simp add: at_pc_go [OF t(1)])
  have slp: "(sleepers s |` (- W)) v = Some q \<Longrightarrow> v < N \<and> (((pcs s)(t := p)) v = LSwap \<and> q = None \<or>
      ((pcs s)(t := p)) v = TSwap \<and> q = Some TLast)" for v q
    using D(3) [of v q] t(2) by (auto simp: restrict_map_def split: if_splits)
  have "sleepers s |` (- W) = Map.empty \<or>
      (\<exists>v<N. (sleepers s |` (- W)) v = None \<and> m_active (((pcs s)(t := p)) v))"
  proof (cases "W = {}")
    case True
    have "finite (dom (sleepers s))" using D(3) by (auto intro: finite_subset [of _ "{..<N}"])
    moreover have "card (dom (sleepers s)) = 0" using True W(2) f by (auto simp: min_def split: if_splits)
    ultimately have "sleepers s = Map.empty" by simp
    then show ?thesis by simp
  next
    case False
    then obtain v where v: "v \<in> W" by blast
    then obtain r where r: "sleepers s v = Some r" using W(1) by auto
    have "v < N" "m_active (pcs s v)" using D(3) [OF r] by auto
    moreover have "v \<noteq> t" using r t(2) by auto
    moreover have "(sleepers s |` (- W)) v = None" using v by (simp add: restrict_map_def)
    ultimately have "\<exists>v<N. (sleepers s |` (- W)) v = None \<and> m_active (((pcs s)(t := p)) v)" by auto
    then show ?thesis by blast
  qed
  then have "sleepers s |` (- W) = Map.empty \<or> shared s = 2 \<or>
      (\<exists>v<N. (sleepers s |` (- W)) v = None \<and> m_active (((pcs s)(t := p)) v))" by blast
  with holds slp D(1) show ?thesis unfolding mutex_inv_def by simp
qed

lemma mutex_inv_init: "mutex_inv N mutex_init"
  by (simp add: mutex_inv_def mutex_init_def at_pc_finit)

interpretation mtx: futex_invariant mutex_prog "\<lambda>w. w" N "mutex_inv N" mutex_init for N
proof
  fix s :: "(mutex_pc, u32) fstate" and t q
  assume "mutex_inv N s" "sleepers s t = Some q"
  from mutex_inv_leave [OF this, of "pcs s t" "(sleepers s)(t := None)"]
  show "mutex_inv N (s\<lparr>sleepers := (sleepers s)(t := None)\<rparr>)"
    by (simp add: go_def)
next
  fix s :: "(mutex_pc, u32) fstate" and t p
  assume "mutex_inv N s" "sleepers s t = Some (Some p)"
  from mutex_inv_leave [OF this, of p "(sleepers s)(t := None)"]
  show "mutex_inv N (go t p (s\<lparr>sleepers := (sleepers s)(t := None)\<rparr>))" by simp
qed (rule mutex_inv_init mutex_inv_run mutex_inv_sleep mutex_inv_mismatch mutex_inv_wake; assumption)+

lemma mutex_contended_reach: "freach mutex_prog (\<lambda>w. w) 2 False mutex_init mutex_contended"
proof (rule fexec_reach)
  show "fexec mutex_prog (\<lambda>w. w) 2
      [(0, 0, []), (0, 0, []), (1, 1, []), (1, 0, []), (1, 0, []), (1, 1, []), (1, 0, [])] mutex_init =
    Some mutex_contended"
    by (simp add: fexec1_def mutex_prog_def mutex_init_def mutex_contended_def finit_def go_def)
  show "sleepers_ok 2 mutex_init" by (simp add: mutex_init_def)
qed

section \<open>Properties\<close>

text \<open>C3: In every interleaving of any number of threads that call \<open>lock\<close>, \<open>lock_timeout\<close>, \<open>try_lock\<close>
  and \<open>unlock\<close>, at most one thread holds the mutex, and while one does the word is not 0; this
  holds also if waits return spuriously.\<close>

theorem mutex_exclusion:
  assumes "freach mutex_prog (\<lambda>w. w) N spur mutex_init s"
    and "t < N" "u < N" "m_holds (pcs s t)" "m_holds (pcs s u)"
  shows "t = u \<and> shared s \<noteq> 0"
proof -
  note I = mutex_invD(2) [OF mtx.reach_inv [OF assms(1)]]
  then have "at_pc N m_holds s \<le> 1" by simp
  from at_pc_1_unique [where P = m_holds, OF this assms(2-5)] I at_pc_pos [where P = m_holds, OF assms(2,4)] show ?thesis by auto
qed

theorem mutex_exclusion_witness:
  "shared mutex_contended \<noteq> 0"
  using mutex_exclusion [OF mutex_contended_reach, of 0 0] by (simp add: mutex_contended_def m_holds_def)

text \<open>C4: No wakeup is lost: whenever a thread sleeps on the mutex and no operation is under way, some
  thread holds the mutex, and the word is 2, so that its \<open>unlock\<close> wakes a sleeper.  In general, a
  sleeper is never left with a free mutex and only idle threads.\<close>

theorem mutex_no_lost_wakeup:
  assumes "freach mutex_prog (\<lambda>w. w) N spur mutex_init s"
    and "sleepers s t = Some q"
    and "\<And>u. u < N \<Longrightarrow> sleepers s u = None \<Longrightarrow> pcs s u = MIdle \<or> pcs s u = MHeld"
  shows "shared s = 2 \<and> mutex_unlock USwap (shared s) = [Step 0 UWake] \<and>
    (\<exists>h<N. sleepers s h = None \<and> pcs s h = MHeld)"
proof -
  note I = mutex_invD [OF mtx.reach_inv [OF assms(1)]]
  have "\<not> m_active MIdle" "\<not> m_active MHeld" by (simp_all add: m_active_def)
  then have two: "shared s = 2" using I(4) assms(2,3) by (metis option.distinct(1))
  then have "at_pc N m_holds s \<noteq> 0" using I(2) by simp
  then obtain h where h: "h < N" "m_holds (pcs s h)" by (auto simp: at_pc_0)
  have "sleepers s h = None" using I(3) [of h] h(2) by (cases "sleepers s h") auto
  with two h assms(3) [of h] show ?thesis by (auto simp: m_holds_def)
qed

theorem mutex_no_lost_wakeup_witness:
  "\<exists>h<2. sleepers mutex_contended h = None \<and> pcs mutex_contended h = MHeld"
proof -
  have "sleepers mutex_contended 1 = Some (Some TLast)" by (simp add: mutex_contended_def)
  from mutex_no_lost_wakeup [OF mutex_contended_reach this] show ?thesis
    by (auto simp: mutex_contended_def split: if_splits)
qed

end
