(* ===== verification/RwLock.thy ===== *)
theory RwLock
  imports Futex
begin

text \<open>
  The reader-writer lock of \<^verbatim>\<open>substrate/sync.rs\<close>: a state word with the number of
  readers and a writer bit, a wake counter that is the futex word, and a count of
  waiting writers.  The operations are programs of the threads of \<^verbatim>\<open>Futex\<close>; what the
  code loads into a local variable is an argument of the program counter.
\<close>

section \<open>Programs\<close>

abbreviation (input) WRITER_BIT :: u32 where "WRITER_BIT \<equiv> 0x80000000"

record rwlock =
  rw_state :: u32
  rw_wake :: u32
  rw_waiting :: u32

datatype rw_pc =
    RwIdle | RHeld | WHeld
  | RLoad | RWaiting u32 | RCas u32 | RWake | RWaitF u32
  | RUSub | RUBump | RUWake
  | WFast | WInc | WCas | WDec | WLoad | WWake | WWaitF u32
  | WUAnd | WUBump | WUWake
  | TRLoad | TRCas u32 | TWCas
  | RT0 | RT0Waiting u32 | RT0Cas u32 | RTLoad | RTWaiting u32 | RTCas u32 | RTRemain | RTWake
  | RTWaitF u32 | RTLast | RTLastCas u32
  | WTFast | WTInc | WTCas | WTDec | WTLoad | WTRemain | WTWake | WTWaitF u32 | WTLastCas | WTDrop

type_synonym rw_outcomes = "(rw_pc, rwlock) outcome list"

text \<open>A compare-exchange of the state word, and its weak form, which may fail spuriously.\<close>

definition rw_cas :: "u32 \<Rightarrow> u32 \<Rightarrow> rw_pc \<Rightarrow> rw_pc \<Rightarrow> rwlock \<Rightarrow> rw_outcomes" where
  "rw_cas old new ok fail l =
     [if rw_state l = old then Step (l\<lparr>rw_state := new\<rparr>) ok else Step l fail]"

definition rw_cas_weak :: "u32 \<Rightarrow> u32 \<Rightarrow> rw_pc \<Rightarrow> rw_pc \<Rightarrow> rwlock \<Rightarrow> rw_outcomes" where
  "rw_cas_weak old new ok fail l =
     (if rw_state l = old then [Step (l\<lparr>rw_state := new\<rparr>) ok, Step l fail] else [Step l fail])"

definition rw_read_lock :: "rw_pc \<Rightarrow> rwlock \<Rightarrow> rw_outcomes" where
  "rw_read_lock p l =
     (case p of
        RLoad \<Rightarrow> [Step l (if rw_state l AND WRITER_BIT = 0 then RWaiting (rw_state l) else RWake)]
      | RWaiting s \<Rightarrow> [Step l (if rw_waiting l = 0 then RCas s else RWake)]
      | RCas s \<Rightarrow> rw_cas_weak s (s + 1) RHeld RLoad l
      | RWake \<Rightarrow> [Step l (RWaitF (rw_wake l))]
      | RWaitF v \<Rightarrow> [FWait v RLoad None]
      | _ \<Rightarrow> [])"

definition rw_read_unlock :: "rw_pc \<Rightarrow> rwlock \<Rightarrow> rw_outcomes" where
  "rw_read_unlock p l =
     (case p of
        RUSub \<Rightarrow> [Step (l\<lparr>rw_state := rw_state l - 1\<rparr>) (if rw_state l = 1 then RUBump else RwIdle)]
      | RUBump \<Rightarrow> [Step (l\<lparr>rw_wake := rw_wake l + 1\<rparr>) RUWake]
      | RUWake \<Rightarrow> [FWake 1 RwIdle]
      | _ \<Rightarrow> [])"

definition rw_write_lock :: "rw_pc \<Rightarrow> rwlock \<Rightarrow> rw_outcomes" where
  "rw_write_lock p l =
     (case p of
        WFast \<Rightarrow> rw_cas_weak 0 WRITER_BIT WHeld WInc l
      | WInc \<Rightarrow> [Step (l\<lparr>rw_waiting := rw_waiting l + 1\<rparr>) WCas]
      | WCas \<Rightarrow> rw_cas_weak 0 WRITER_BIT WDec WLoad l
      | WDec \<Rightarrow> [Step (l\<lparr>rw_waiting := rw_waiting l - 1\<rparr>) WHeld]
      | WLoad \<Rightarrow> [Step l (if rw_state l \<noteq> 0 then WWake else WCas)]
      | WWake \<Rightarrow> [Step l (WWaitF (rw_wake l))]
      | WWaitF v \<Rightarrow> [FWait v WCas None]
      | _ \<Rightarrow> [])"

definition rw_write_unlock :: "rw_pc \<Rightarrow> rwlock \<Rightarrow> rw_outcomes" where
  "rw_write_unlock p l =
     (case p of
        WUAnd \<Rightarrow> [Step (l\<lparr>rw_state := rw_state l AND NOT WRITER_BIT\<rparr>) WUBump]
      | WUBump \<Rightarrow> [Step (l\<lparr>rw_wake := rw_wake l + 1\<rparr>) WUWake]
      | WUWake \<Rightarrow> [FWake 4294967295 RwIdle]
      | _ \<Rightarrow> [])"

definition rw_try_read_lock :: "rw_pc \<Rightarrow> rwlock \<Rightarrow> rw_outcomes" where
  "rw_try_read_lock p l =
     (case p of
        TRLoad \<Rightarrow> [Step l (if rw_state l AND WRITER_BIT \<noteq> 0 then RwIdle else TRCas (rw_state l))]
      | TRCas s \<Rightarrow> rw_cas_weak s (s + 1) RHeld TRLoad l
      | _ \<Rightarrow> [])"

definition rw_try_write_lock :: "rw_pc \<Rightarrow> rwlock \<Rightarrow> rw_outcomes" where
  "rw_try_write_lock p l =
     (case p of
        TWCas \<Rightarrow> rw_cas 0 WRITER_BIT WHeld RwIdle l
      | _ \<Rightarrow> [])"

definition rw_read_lock_timeout :: "rw_pc \<Rightarrow> rwlock \<Rightarrow> rw_outcomes" where
  "rw_read_lock_timeout p l =
     (case p of
        RT0 \<Rightarrow> [Step l (if rw_state l AND WRITER_BIT = 0 then RT0Waiting (rw_state l) else RTLoad)]
      | RT0Waiting s \<Rightarrow> [Step l (if rw_waiting l = 0 then RT0Cas s else RTLoad)]
      | RT0Cas s \<Rightarrow> rw_cas_weak s (s + 1) RHeld RTLoad l
      | RTLoad \<Rightarrow> [Step l (if rw_state l AND WRITER_BIT = 0 then RTWaiting (rw_state l) else RTRemain)]
      | RTWaiting s \<Rightarrow> [Step l (if rw_waiting l = 0 then RTCas s else RTRemain)]
      | RTCas s \<Rightarrow> rw_cas_weak s (s + 1) RHeld RTLoad l
      | RTRemain \<Rightarrow> [Step l RwIdle, Step l RTWake]
      | RTWake \<Rightarrow> [Step l (RTWaitF (rw_wake l))]
      | RTWaitF v \<Rightarrow> [FWait v RTLoad (Some RTLast)]
      | RTLast \<Rightarrow> [Step l (if rw_state l AND WRITER_BIT = 0 then RTLastCas (rw_state l) else RwIdle)]
      | RTLastCas s \<Rightarrow> rw_cas s (s + 1) RHeld RwIdle l
      | _ \<Rightarrow> [])"

definition rw_write_lock_timeout :: "rw_pc \<Rightarrow> rwlock \<Rightarrow> rw_outcomes" where
  "rw_write_lock_timeout p l =
     (case p of
        WTFast \<Rightarrow> rw_cas_weak 0 WRITER_BIT WHeld WTInc l
      | WTInc \<Rightarrow> [Step (l\<lparr>rw_waiting := rw_waiting l + 1\<rparr>) WTCas]
      | WTCas \<Rightarrow> rw_cas_weak 0 WRITER_BIT WTDec WTLoad l
      | WTDec \<Rightarrow> [Step (l\<lparr>rw_waiting := rw_waiting l - 1\<rparr>) WHeld]
      | WTLoad \<Rightarrow> [Step l (if rw_state l \<noteq> 0 then WTRemain else WTCas)]
      | WTRemain \<Rightarrow> [Step l WTDrop, Step l WTWake]
      | WTWake \<Rightarrow> [Step l (WTWaitF (rw_wake l))]
      | WTWaitF v \<Rightarrow> [FWait v WTCas (Some WTLastCas)]
      | WTLastCas \<Rightarrow> rw_cas 0 WRITER_BIT WTDec WTDrop l
      | WTDrop \<Rightarrow> [Step (l\<lparr>rw_waiting := rw_waiting l - 1\<rparr>) RwIdle]
      | _ \<Rightarrow> [])"

text \<open>A client releases only what it holds.\<close>

definition rw_client :: "rw_pc \<Rightarrow> rwlock \<Rightarrow> rw_outcomes" where
  "rw_client p l =
     (case p of
        RwIdle \<Rightarrow> map (Step l) [RLoad, WFast, TRLoad, TWCas, RT0, WTFast]
      | RHeld \<Rightarrow> [Step l RUSub]
      | WHeld \<Rightarrow> [Step l WUAnd]
      | _ \<Rightarrow> [])"

definition rw_prog :: "(rw_pc, rwlock) fprog" where
  "rw_prog t p l = rw_client p l @ rw_read_lock p l @ rw_read_unlock p l @ rw_write_lock p l @
     rw_write_unlock p l @ rw_try_read_lock p l @ rw_try_write_lock p l @
     rw_read_lock_timeout p l @ rw_write_lock_timeout p l"

definition RWLock_new :: rwlock where
  "RWLock_new = \<lparr>rw_state = 0, rw_wake = 0, rw_waiting = 0\<rparr>"

definition rw_init :: "(rw_pc, rwlock) fstate" where
  "rw_init = finit RWLock_new RwIdle"

text \<open>A free lock with a sleeping writer and a sleeping reader, and no other thread.\<close>

definition rw_stuck :: "(rw_pc, rwlock) fstate" where
  "rw_stuck = \<lparr>shared = \<lparr>rw_state = 0, rw_wake = 1, rw_waiting = 1\<rparr>,
     pcs = (\<lambda>_. RwIdle)(1 := WCas, 0 := RwIdle, 2 := RLoad), sleepers = [1 \<mapsto> None, 2 \<mapsto> None]\<rparr>"

section \<open>Invariant\<close>

definition rw_reads :: "rw_pc \<Rightarrow> bool" where
  "rw_reads p \<longleftrightarrow> p = RHeld \<or> p = RUSub"

definition rw_writes :: "rw_pc \<Rightarrow> bool" where
  "rw_writes p \<longleftrightarrow> p \<in> {WHeld, WUAnd, WDec, WTDec}"

text \<open>A state word that a reader has loaded and will use in a compare-exchange has no writer bit.\<close>

fun rw_loaded_ok :: "rw_pc \<Rightarrow> bool" where
  "rw_loaded_ok (RWaiting s) = (s AND WRITER_BIT = 0)"
| "rw_loaded_ok (RCas s) = (s AND WRITER_BIT = 0)"
| "rw_loaded_ok (TRCas s) = (s AND WRITER_BIT = 0)"
| "rw_loaded_ok (RT0Waiting s) = (s AND WRITER_BIT = 0)"
| "rw_loaded_ok (RT0Cas s) = (s AND WRITER_BIT = 0)"
| "rw_loaded_ok (RTWaiting s) = (s AND WRITER_BIT = 0)"
| "rw_loaded_ok (RTCas s) = (s AND WRITER_BIT = 0)"
| "rw_loaded_ok (RTLastCas s) = (s AND WRITER_BIT = 0)"
| "rw_loaded_ok _ = True"

definition rw_inv :: "nat \<Rightarrow> (rw_pc, rwlock) fstate \<Rightarrow> bool" where
  "rw_inv N s \<longleftrightarrow>
     (at_pc N rw_writes s = 0 \<and> rw_state (shared s) = of_nat (at_pc N rw_reads s) \<or>
      at_pc N rw_writes s = 1 \<and> at_pc N rw_reads s = 0 \<and> rw_state (shared s) = WRITER_BIT) \<and>
     (\<forall>t. rw_loaded_ok (pcs s t)) \<and>
     (\<forall>t q. sleepers s t = Some q \<longrightarrow> t < N \<and> (pcs s t, q) \<in>
        {(RLoad, None), (WCas, None), (RTLoad, Some RTLast), (WTCas, Some WTLastCas)})"

text \<open>The kinds of steps, by their effect on the state word and on the classes of program counters.\<close>

definition rw_kind :: "rw_pc \<Rightarrow> u32 \<Rightarrow> rw_pc \<Rightarrow> u32 \<Rightarrow> bool" where
  "rw_kind p v p' v' \<longleftrightarrow>
     v' = v \<and> rw_reads p' = rw_reads p \<and> rw_writes p' = rw_writes p \<or>
     v AND WRITER_BIT = 0 \<and> v' = v + 1 \<and> \<not> rw_reads p \<and> \<not> rw_writes p \<and> rw_reads p' \<and> \<not> rw_writes p' \<or>
     v = 0 \<and> v' = WRITER_BIT \<and> \<not> rw_reads p \<and> \<not> rw_writes p \<and> \<not> rw_reads p' \<and> rw_writes p' \<or>
     v' = v - 1 \<and> rw_reads p \<and> \<not> rw_writes p \<and> \<not> rw_reads p' \<and> \<not> rw_writes p' \<or>
     v' = v AND NOT WRITER_BIT \<and> \<not> rw_reads p \<and> rw_writes p \<and> \<not> rw_reads p' \<and> \<not> rw_writes p'"

lemmas rw_step_defs = rw_prog_def rw_read_lock_def rw_read_unlock_def rw_write_lock_def rw_write_unlock_def rw_try_read_lock_def rw_try_write_lock_def rw_read_lock_timeout_def rw_write_lock_timeout_def rw_client_def rw_cas_def rw_cas_weak_def rw_kind_def rw_reads_def rw_writes_def

lemma rw_step_facts:
  assumes "Step l' p' \<in> set (rw_prog t p l)" "rw_loaded_ok p"
  shows "rw_kind p (rw_state l) p' (rw_state l') \<and> rw_loaded_ok p'"
  by (cases p) (use assms in \<open>auto simp: rw_step_defs split: if_splits\<close>)

lemma rw_wait_facts:
  assumes "FWait e p' q \<in> set (rw_prog t p l)"
  shows "(p', q) \<in> {(RLoad, None), (WCas, None), (RTLoad, Some RTLast), (WTCas, Some WTLastCas)} \<and>
    \<not> rw_reads p \<and> \<not> rw_writes p"
  by (cases p) (use assms in \<open>auto simp: rw_step_defs split: if_splits\<close>)

lemma rw_wake_facts:
  assumes "FWake n p' \<in> set (rw_prog t p l)"
  shows "p' = RwIdle \<and> \<not> rw_reads p \<and> \<not> rw_writes p"
  by (cases p) (use assms in \<open>auto simp: rw_step_defs split: if_splits\<close>)

lemma rw_invD:
  assumes "rw_inv N s"
  shows "at_pc N rw_writes s = 0 \<and> rw_state (shared s) = of_nat (at_pc N rw_reads s) \<or>
      at_pc N rw_writes s = 1 \<and> at_pc N rw_reads s = 0 \<and> rw_state (shared s) = 0x80000000"
    "rw_loaded_ok (pcs s t)"
    "sleepers s t = Some q \<Longrightarrow> t < N \<and> (pcs s t, q) \<in>
        {(RLoad, None), (WCas, None), (RTLoad, Some RTLast), (WTCas, Some WTLastCas)}"
  using assms unfolding rw_inv_def by blast+

lemma rw_counts:
  assumes k: "rw_kind p v p' v'"
    and c: "w = 0 \<and> v = of_nat r \<or> w = 1 \<and> r = 0 \<and> v = (0x80000000 :: u32)"
    and pos: "rw_reads p \<longrightarrow> 0 < r" "rw_writes p \<longrightarrow> 0 < w" and lt: "r < 2 ^ 32"
    and w': "w' = (if rw_writes p then w - 1 else w) + (if rw_writes p' then 1 else (0::nat))"
    and r': "r' = (if rw_reads p then r - 1 else r) + (if rw_reads p' then 1 else (0::nat))"
  shows "w' = 0 \<and> v' = of_nat r' \<or> w' = 1 \<and> r' = 0 \<and> v' = 0x80000000"
proof -
  have z: "r = 0" if "of_nat r = (0 :: u32)" using that lt unat_of_nat_lt32 [of r] by simp
  have m: "of_nat (r - 1) = (of_nat r - 1 :: u32)" if "0 < r" using that by (cases r) simp_all
  show ?thesis using k c pos w' r' z m unfolding rw_kind_def by auto
qed

lemma rw_inv_run:
  assumes N: "N < 2 ^ 32" and I: "rw_inv N s" and t: "t < N" "sleepers s t = None"
    and st: "Step l p \<in> set (rw_prog t (pcs s t) (shared s))"
  shows "rw_inv N (go t p (s\<lparr>shared := l\<rparr>))"
proof -
  note D = rw_invD [OF I]
  have f: "rw_kind (pcs s t) (rw_state (shared s)) p (rw_state l)" "rw_loaded_ok p"
    using rw_step_facts [OF st D(2)] by auto
  have "at_pc N rw_reads s < 2 ^ 32" using at_pc_le [of N rw_reads s] N by linarith
  note c = rw_counts [OF f(1) D(1) _ _ this refl refl]
  have "at_pc N rw_writes (go t p (s\<lparr>shared := l\<rparr>)) = 0 \<and> rw_state l = of_nat (at_pc N rw_reads (go t p (s\<lparr>shared := l\<rparr>))) \<or>
    at_pc N rw_writes (go t p (s\<lparr>shared := l\<rparr>)) = 1 \<and> at_pc N rw_reads (go t p (s\<lparr>shared := l\<rparr>)) = 0 \<and> rw_state l = 0x80000000"
    unfolding at_pc_go [OF t(1)] at_pc_update using c at_pc_pos [OF t(1), where s = s] by simp
  moreover have "rw_loaded_ok (((pcs s)(t := p)) u)" for u using f(2) D(2) by simp
  moreover have "sleepers s u = Some q \<Longrightarrow> u < N \<and> (((pcs s)(t := p)) u, q) \<in>
        {(RLoad, None), (WCas, None), (RTLoad, Some RTLast), (WTCas, Some WTLastCas)}" for u q
    using D(3) [of u q] t(2) by auto
  ultimately show ?thesis unfolding rw_inv_def by simp
qed

text \<open>Steps that leave the shared words and the two classes alone.\<close>

lemma rw_inv_neutral:
  assumes I: "rw_inv N s" and t: "t < N" and p: "rw_loaded_ok p" "\<not> rw_reads p" "\<not> rw_writes p"
      "\<not> rw_reads (pcs s t)" "\<not> rw_writes (pcs s t)"
    and sl: "\<And>u q. sl u = Some q \<Longrightarrow> u \<noteq> t \<and> sleepers s u = Some q \<or> u = t \<and>
      (p, q) \<in> {(RLoad, None), (WCas, None), (RTLoad, Some RTLast), (WTCas, Some WTLastCas)}"
  shows "rw_inv N (go t p (s\<lparr>sleepers := sl\<rparr>))"
proof -
  note D = rw_invD [OF I]
  have "rw_loaded_ok (((pcs s)(t := p)) u)" for u using p(1) D(2) by simp
  moreover have "sl u = Some q \<Longrightarrow> u < N \<and> (((pcs s)(t := p)) u, q) \<in>
        {(RLoad, None), (WCas, None), (RTLoad, Some RTLast), (WTCas, Some WTLastCas)}" for u q
    using sl [of u q] D(3) [of u q] t by auto
  ultimately show ?thesis using D(1) p(2-5) unfolding rw_inv_def by (simp add: at_pc_go [OF t])
qed

lemma rw_resume_classes:
  "(p, q) \<in> {(RLoad, None), (WCas, None), (RTLoad, Some RTLast), (WTCas, Some WTLastCas)} \<Longrightarrow>
   rw_loaded_ok p \<and> \<not> rw_reads p \<and> \<not> rw_writes p \<and>
   (\<forall>p'. q = Some p' \<longrightarrow> rw_loaded_ok p' \<and> \<not> rw_reads p' \<and> \<not> rw_writes p')"
  by (auto simp: rw_reads_def rw_writes_def)

lemma rw_inv_init: "rw_inv N rw_init"
  by (simp add: rw_inv_def rw_init_def RWLock_new_def at_pc_finit rw_reads_def rw_writes_def)

interpretation rwl: futex_invariant rw_prog rw_wake N "\<lambda>s. N < 2 ^ 32 \<longrightarrow> rw_inv N s" rw_init for N
proof (unfold_locales, goal_cases)
  case 1
  show ?case by (simp add: rw_inv_init)
next
  case (2 s t sh p)
  then show ?case using rw_inv_run by blast
next
  case (3 s t e p q)
  note f = rw_wait_facts [OF 3(4)]
  note g = rw_resume_classes [OF f [THEN conjunct1]]
  show ?case
    by (rule impI, rule rw_inv_neutral) (use 3 f g in \<open>auto split: if_splits\<close>)
next
  case (4 s t e p q)
  note f = rw_wait_facts [OF 4(4)]
  note g = rw_resume_classes [OF f [THEN conjunct1]]
  have "go t p s = go t p (s\<lparr>sleepers := sleepers s\<rparr>)" by simp
  then show ?case
    by (simp only:) (rule impI, rule rw_inv_neutral, use 4 f g in auto)
next
  case (5 s t n p W)
  note f = rw_wake_facts [OF 5(4)]
  show ?case
    by (rule impI, rule rw_inv_neutral)
      (use 5 f in \<open>auto simp: rw_reads_def rw_writes_def restrict_map_def split: if_splits\<close>)
next
  case (6 s t p)
  then show ?case using rw_invD(3) [of N s t "Some p"] rw_resume_classes [of "pcs s t" "Some p"]
    by (intro impI rw_inv_neutral) (auto split: if_splits)
next
  case (7 s t q)
  have eq: "s\<lparr>sleepers := (sleepers s)(t := None)\<rparr> = go t (pcs s t) (s\<lparr>sleepers := (sleepers s)(t := None)\<rparr>)"
    by (simp add: go_def)
  have "N < 2 ^ 32 \<longrightarrow> rw_inv N (go t (pcs s t) (s\<lparr>sleepers := (sleepers s)(t := None)\<rparr>))"
    using 7 rw_invD(3) [of N s t q] rw_resume_classes [of "pcs s t" q]
    by (intro impI rw_inv_neutral) (auto split: if_splits)
  then show ?case by (subst eq)
qed

lemma rw_stuck_reach: "freach rw_prog rw_wake 3 False rw_init rw_stuck"
proof (rule fexec_reach)
  show "fexec rw_prog rw_wake 3
      [(0, 0, []), (0, 0, []), (0, 0, []), (0, 0, []),
       (1, 1, []), (1, 0, []), (1, 0, []), (1, 0, []), (1, 0, []), (1, 0, []), (1, 0, []),
       (2, 0, []), (2, 0, []), (2, 0, []), (2, 0, []), (2, 0, []),
       (0, 0, []), (0, 0, []), (0, 0, []), (0, 0, [2]),
       (2, 0, []), (2, 0, []), (2, 0, []), (2, 0, [])] rw_init = Some rw_stuck"
    by (simp add: fexec1_def rw_step_defs rw_init_def rw_stuck_def RWLock_new_def finit_def go_def fun_eq_iff)
  show "sleepers_ok 3 rw_init" by (simp add: rw_init_def)
qed

section \<open>Properties\<close>

text \<open>C17: In every interleaving of fewer than 2^32 threads a writer excludes every reader and every
  other writer.\<close>

theorem rwlock_exclusion:
  assumes "freach rw_prog rw_wake N spur rw_init s" "N < 2 ^ 32"
    and "t < N" "u < N" "t \<noteq> u" "rw_writes (pcs s t)"
  shows "\<not> rw_reads (pcs s u) \<and> \<not> rw_writes (pcs s u)"
proof -
  have "rw_inv N s" using rwl.reach_inv [OF assms(1)] assms(2) by blast
  note c = rw_invD(1) [OF this]
  have "0 < at_pc N rw_writes s" using at_pc_pos [where P = rw_writes, OF assms(3,6)] .
  then have w: "at_pc N rw_writes s = 1" "at_pc N rw_reads s = 0" using c by auto
  then show ?thesis
    using at_pc_0 [of N rw_reads s] at_pc_1_unique [where P = rw_writes, of N s t u] assms by auto
qed

theorem rwlock_exclusion_witness:
  "\<exists>s. freach rw_prog rw_wake 2 False rw_init s \<and> rw_writes (pcs s 0) \<and> \<not> rw_reads (pcs s 1)"
proof -
  define s where "s = \<lparr>shared = \<lparr>rw_state = 0x80000000, rw_wake = 0, rw_waiting = 0\<rparr>,
    pcs = (\<lambda>_. RwIdle)(0 := WHeld), sleepers = Map.empty\<rparr>"
  have r: "freach rw_prog rw_wake 2 False rw_init s"
  proof (rule fexec_reach)
    show "fexec rw_prog rw_wake 2 [(0, 1, []), (0, 0, [])] rw_init = Some s"
      by (simp add: fexec1_def rw_step_defs rw_init_def s_def RWLock_new_def finit_def go_def)
    show "sleepers_ok 2 rw_init" by (simp add: rw_init_def)
  qed
  have w: "rw_writes (pcs s 0)" by (simp add: s_def rw_writes_def)
  from rwlock_exclusion [OF r _ _ _ _ w, of 1] r w show ?thesis by auto
qed

text \<open>C36: The lock can be free while a writer and a reader sleep on it and no wakeup is on its way:
  the last reader's wakeup can go to the sleeping reader, which sleeps again because of the
  waiting writer.  Thread 1 sleeps in \<open>write_lock\<close>, announced as the waiting writer, thread 2 sleeps in
  \<open>read_lock\<close>, and the only other thread is outside of every operation, so only a new
  operation of another thread can go on.\<close>

theorem rwlock_lost_wakeup:
  "\<exists>s. freach rw_prog rw_wake 3 False rw_init s \<and> rw_state (shared s) = 0 \<and>
    rw_waiting (shared s) = 1 \<and> pcs s 0 = RwIdle \<and> sleepers s 0 = None \<and>
    pcs s 1 = WCas \<and> sleepers s 1 = Some None \<and> pcs s 2 = RLoad \<and> sleepers s 2 = Some None"
  using rw_stuck_reach by (auto simp: rw_stuck_def intro!: exI [of _ rw_stuck])

end
