(* ===== verification/Semaphore.thy ===== *)
theory Semaphore
  imports Futex
begin

text \<open>
  The counting semaphore and the once-initialisation of \<^verbatim>\<open>substrate/sync.rs\<close> as
  programs of the threads of \<^verbatim>\<open>Futex\<close>.  The futex word of the semaphore is its
  count.  Two history fields count the completed decrements and increments; the
  code does not read them.
\<close>

section \<open>Semaphore programs\<close>

abbreviation (input) SEM_VALUE_MAX :: u32 where "SEM_VALUE_MAX \<equiv> 0x7FFFFFFF"

record semaphore =
  sem_count :: u32
  sem_waits :: nat
  sem_posts :: nat

datatype sem_pc =
    SIdle
  | SWLoad | SWCas u32 | SWFutex
  | STLoad | STCas u32
  | SM0 | SM0Cas u32 | SMLoad | SMCas u32 | SMRemain | SMFutex | SMLast | SMLastCas u32
  | SPLoad | SPCas u32 | SPWake

type_synonym sem_outcomes = "(sem_pc, semaphore) outcome list"

definition Semaphore_new :: "u32 \<Rightarrow> semaphore" where
  "Semaphore_new initial = \<lparr>sem_count = initial, sem_waits = 0, sem_posts = 0\<rparr>"

text \<open>Re-initialisation: status, new count, and whether all sleepers are woken.\<close>

definition sem_reinit :: "u32 \<Rightarrow> u32 \<Rightarrow> int \<times> u32 \<times> bool" where
  "sem_reinit c v = (if SEM_VALUE_MAX < v then (- 1, c, False) else (0, v, 0 < v))"

definition sem_get_value :: "semaphore \<Rightarrow> int" where
  "sem_get_value m = sint (sem_count m)"

text \<open>The decrement by compare-exchange, weak or strong.\<close>

definition sem_dec :: "u32 \<Rightarrow> sem_pc \<Rightarrow> semaphore \<Rightarrow> sem_outcomes" where
  "sem_dec c fail m =
     [if sem_count m = c then Step (m\<lparr>sem_count := c - 1, sem_waits := sem_waits m + 1\<rparr>) SIdle
      else Step m fail]"

definition sem_dec_weak :: "u32 \<Rightarrow> sem_pc \<Rightarrow> semaphore \<Rightarrow> sem_outcomes" where
  "sem_dec_weak c fail m = sem_dec c fail m @ [Step m fail]"

definition sem_wait :: "sem_pc \<Rightarrow> semaphore \<Rightarrow> sem_outcomes" where
  "sem_wait p m =
     (case p of
        SWLoad \<Rightarrow> [Step m (if 0 < sem_count m then SWCas (sem_count m) else SWFutex)]
      | SWCas c \<Rightarrow> sem_dec_weak c SWLoad m
      | SWFutex \<Rightarrow> [FWait 0 SWLoad None]
      | _ \<Rightarrow> [])"

definition sem_try_wait :: "sem_pc \<Rightarrow> semaphore \<Rightarrow> sem_outcomes" where
  "sem_try_wait p m =
     (case p of
        STLoad \<Rightarrow> [Step m (if sem_count m = 0 then SIdle else STCas (sem_count m))]
      | STCas c \<Rightarrow> sem_dec_weak c STLoad m
      | _ \<Rightarrow> [])"

definition sem_wait_timeout :: "sem_pc \<Rightarrow> semaphore \<Rightarrow> sem_outcomes" where
  "sem_wait_timeout p m =
     (case p of
        SM0 \<Rightarrow> [Step m (if 0 < sem_count m then SM0Cas (sem_count m) else SMLoad)]
      | SM0Cas c \<Rightarrow> sem_dec_weak c SMLoad m
      | SMLoad \<Rightarrow> [Step m (if 0 < sem_count m then SMCas (sem_count m) else SMRemain)]
      | SMCas c \<Rightarrow> sem_dec_weak c SMLoad m
      | SMRemain \<Rightarrow> [Step m SMLast, Step m SMFutex]
      | SMFutex \<Rightarrow> [FWait 0 SMLoad (Some SMLast)]
      | SMLast \<Rightarrow> [Step m (if 0 < sem_count m then SMLastCas (sem_count m) else SIdle)]
      | SMLastCas c \<Rightarrow> sem_dec c SIdle m
      | _ \<Rightarrow> [])"

definition sem_post :: "sem_pc \<Rightarrow> semaphore \<Rightarrow> sem_outcomes" where
  "sem_post p m =
     (case p of
        SPLoad \<Rightarrow> [Step m (if SEM_VALUE_MAX \<le> sem_count m then SIdle else SPCas (sem_count m))]
      | SPCas c \<Rightarrow>
          (if sem_count m = c
           then [Step (m\<lparr>sem_count := c + 1, sem_posts := sem_posts m + 1\<rparr>) (if c = 0 then SPWake else SIdle)]
           else []) @ [Step m SPLoad]
      | SPWake \<Rightarrow> [FWake 1 SIdle]
      | _ \<Rightarrow> [])"

definition sem_client :: "sem_pc \<Rightarrow> semaphore \<Rightarrow> sem_outcomes" where
  "sem_client p m = (case p of SIdle \<Rightarrow> map (Step m) [SWLoad, STLoad, SM0, SPLoad] | _ \<Rightarrow> [])"

definition sem_prog :: "(sem_pc, semaphore) fprog" where
  "sem_prog t p m = sem_client p m @ sem_wait p m @ sem_try_wait p m @ sem_wait_timeout p m @ sem_post p m"

definition sem_init :: "u32 \<Rightarrow> (sem_pc, semaphore) fstate" where
  "sem_init initial = finit (Semaphore_new initial) SIdle"

text \<open>A positive count, one sleeping thread, and no other thread.\<close>

definition sem_stuck :: "(sem_pc, semaphore) fstate" where
  "sem_stuck = \<lparr>shared = \<lparr>sem_count = 1, sem_waits = 1, sem_posts = 2\<rparr>,
     pcs = (\<lambda>_. SIdle)(1 := SWLoad), sleepers = [1 \<mapsto> None]\<rparr>"

section \<open>Once programs\<close>








section \<open>Invariants\<close>

text \<open>A count that a thread has loaded and will use in a compare-exchange.\<close>

fun sem_loaded_ok :: "sem_pc \<Rightarrow> bool" where
  "sem_loaded_ok (SWCas c) = (0 < c)"
| "sem_loaded_ok (STCas c) = (0 < c)"
| "sem_loaded_ok (SM0Cas c) = (0 < c)"
| "sem_loaded_ok (SMCas c) = (0 < c)"
| "sem_loaded_ok (SMLastCas c) = (0 < c)"
| "sem_loaded_ok (SPCas c) = (c < SEM_VALUE_MAX)"
| "sem_loaded_ok _ = True"

definition sem_balanced :: "u32 \<Rightarrow> semaphore \<Rightarrow> bool" where
  "sem_balanced initial m \<longleftrightarrow>
     unat (sem_count m) + sem_waits m = unat initial + sem_posts m \<and> sem_count m \<le> SEM_VALUE_MAX"

definition sem_inv :: "u32 \<Rightarrow> (sem_pc, semaphore) fstate \<Rightarrow> bool" where
  "sem_inv initial s \<longleftrightarrow> sem_balanced initial (shared s) \<and> (\<forall>t. sem_loaded_ok (pcs s t)) \<and>
     (\<forall>t q. sleepers s t = Some q \<longrightarrow> q = None \<or> q = Some SMLast)"



lemmas sem_step_defs = sem_prog_def sem_client_def sem_wait_def sem_try_wait_def sem_wait_timeout_def
  sem_post_def sem_dec_def sem_dec_weak_def

lemma sem_dec_balanced:
  assumes "sem_balanced i m" "0 < sem_count m"
  shows "sem_balanced i (m\<lparr>sem_count := sem_count m - 1, sem_waits := sem_waits m + 1\<rparr>)"
proof -
  have "unat (sem_count m - 1) = unat (sem_count m) - 1" "0 < unat (sem_count m)"
    using assms(2) by (simp_all add: unat_sub_le word_less_nat_alt word_le_nat_alt Suc_le_eq)
  then show ?thesis using assms(1) by (auto simp: sem_balanced_def word_le_nat_alt)
qed

lemma sem_post_balanced:
  assumes "sem_balanced i m" "sem_count m < SEM_VALUE_MAX"
  shows "sem_balanced i (m\<lparr>sem_count := sem_count m + 1, sem_posts := sem_posts m + 1\<rparr>)"
proof -
  have "unat (sem_count m + 1) = unat (sem_count m) + 1"
    using assms(2) by (subst unat_add_le) (simp_all add: word_less_nat_alt)
  then show ?thesis using assms by (auto simp: sem_balanced_def word_le_nat_alt word_less_nat_alt)
qed

lemma sem_step_facts:
  assumes "Step m' p' \<in> set (sem_prog t p m)" "sem_loaded_ok p" "sem_balanced i m"
  shows "sem_balanced i m' \<and> sem_loaded_ok p'"
  by (cases p)
    (use assms sem_dec_balanced [OF assms(3)] sem_post_balanced [OF assms(3)]
      in \<open>auto simp: sem_step_defs not_le word_gt_0 split: if_splits\<close>)

lemma sem_wait_facts:
  assumes "FWait e p' q \<in> set (sem_prog t p m)"
  shows "sem_loaded_ok p' \<and> (q = None \<or> q = Some SMLast)"
  by (cases p) (use assms in \<open>auto simp: sem_step_defs split: if_splits\<close>)

lemma sem_wake_facts:
  assumes "FWake n p' \<in> set (sem_prog t p m)"
  shows "p' = SIdle"
  by (cases p) (use assms in \<open>auto simp: sem_step_defs split: if_splits\<close>)

interpretation sem: futex_invariant sem_prog sem_count N "\<lambda>s. initial \<le> SEM_VALUE_MAX \<longrightarrow> sem_inv initial s"
  "sem_init initial" for N initial
proof (unfold_locales, goal_cases)
  case 1
  show ?case by (simp add: sem_inv_def sem_init_def Semaphore_new_def sem_balanced_def)
next
  case (2 s t sh p)
  then show ?case using sem_step_facts [OF 2(4)] by (auto simp: sem_inv_def)
next
  case (3 s t e p q)
  then show ?case using sem_wait_facts [OF 3(4)] by (simp add: sem_inv_def)
next
  case (4 s t e p q)
  then show ?case using sem_wait_facts [OF 4(4)] by (simp add: sem_inv_def)
next
  case (5 s t n p W)
  then show ?case using sem_wake_facts [OF 5(4)] by (auto simp: sem_inv_def restrict_map_def)
next
  case (6 s t p)
  have "p = SMLast" if "sem_inv initial s" using that 6(2) unfolding sem_inv_def by blast
  with 6 show ?case by (auto simp: sem_inv_def)
next
  case (7 s t q)
  then show ?case by (simp add: sem_inv_def)
qed

section \<open>Once\<close>













lemma sem_stuck_reach: "freach sem_prog sem_count 3 False (sem_init 0) sem_stuck"
proof (rule fexec_reach)
  show "fexec sem_prog sem_count 3
      [(0, 0, []), (0, 0, []), (0, 0, []), (1, 0, []), (1, 0, []), (1, 0, []),
       (2, 3, []), (2, 0, []), (2, 0, []), (2, 0, [0]),
       (2, 3, []), (2, 0, []), (2, 0, []),
       (0, 0, []), (0, 0, [])] (sem_init 0) = Some sem_stuck"
    by (simp add: fexec1_def sem_step_defs sem_init_def sem_stuck_def Semaphore_new_def finit_def go_def fun_eq_iff
        word_le_nat_alt)
  show "sleepers_ok 3 (sem_init 0)" by (simp add: sem_init_def)
qed

section \<open>Properties\<close>

text \<open>C18: In every interleaving the count of a semaphore is the initial value plus the completed
  increments minus the completed decrements, so no permit is lost or created, and it never
  exceeds the maximum.\<close>

theorem semaphore_conserves:
  assumes "freach sem_prog sem_count N spur (sem_init initial) s" "initial \<le> SEM_VALUE_MAX"
  shows "unat (sem_count (shared s)) + sem_waits (shared s) = unat initial + sem_posts (shared s) \<and>
    sem_count (shared s) \<le> SEM_VALUE_MAX"
  using sem.reach_inv [OF assms(1)] assms(2) by (simp add: sem_inv_def sem_balanced_def)

theorem semaphore_conserves_witness:
  "unat (sem_count (shared sem_stuck)) + 1 = 0 + 2"
  using semaphore_conserves [OF sem_stuck_reach] by (simp add: sem_stuck_def)

text \<open>C37: A thread can sleep for ever on a semaphore whose count is positive: an increment wakes a
  sleeper only when the count was zero, so after two increments one of two sleepers stays.\<close>

theorem semaphore_lost_wakeup:
  "\<exists>s. freach sem_prog sem_count 3 False (sem_init 0) s \<and> sem_count (shared s) = 1 \<and>
    sleepers s 1 = Some None \<and> (\<forall>t<3. t \<noteq> 1 \<longrightarrow> pcs s t = SIdle \<and> sleepers s t = None)"
  using sem_stuck_reach by (intro exI [of _ sem_stuck]) (simp add: sem_stuck_def)

theorem semaphore_lost_wakeup_witness:
  "\<exists>s. freach sem_prog sem_count 3 False (sem_init 0) s \<and> pcs s 2 = SIdle"
proof -
  obtain s where "freach sem_prog sem_count 3 False (sem_init 0) s"
    "\<forall>t<3. t \<noteq> 1 \<longrightarrow> pcs s t = SIdle \<and> sleepers s t = None"
    using semaphore_lost_wakeup by blast
  then show ?thesis by (intro exI [of _ s]) simp
qed



end
