(* ===== verification/Barrier.thy ===== *)
theory Barrier
  imports Futex
begin

text \<open>
  The thread barrier of \<^verbatim>\<open>substrate/sync.rs\<close>: a number of arrivals and a phase, which is
  the futex word, as a program of the threads of \<^verbatim>\<open>Futex\<close>.  The phase that a call of
  \<open>wait\<close> loads first is an argument of its program counters.  History fields, which
  the code does not read, count the rounds that were released, the calls that
  returned true, and the arrivals and the returns of every thread.
\<close>

section \<open>Program\<close>

record barrier =
  bar_count :: u32
  bar_waiting :: u32
  bar_phase :: u32
  bar_rounds :: nat
  bar_leaders :: nat
  bar_arrived :: "nat \<Rightarrow> nat"
  bar_passed :: "nat \<Rightarrow> nat"

datatype bar_pc = BIdle | BLoad | BAdd u32 | BReset | BPhase | BWake | BWaitF u32 | BCheck u32 | BRet bool

definition Barrier_new :: "u32 \<Rightarrow> barrier" where
  "Barrier_new n = \<lparr>bar_count = n, bar_waiting = 0, bar_phase = 0, bar_rounds = 0, bar_leaders = 0,
     bar_arrived = (\<lambda>_. 0), bar_passed = (\<lambda>_. 0)\<rparr>"

definition bar_return :: "nat \<Rightarrow> bool \<Rightarrow> barrier \<Rightarrow> barrier" where
  "bar_return t r c = c\<lparr>bar_passed := (bar_passed c)(t := bar_passed c t + 1),
     bar_leaders := (if r then bar_leaders c + 1 else bar_leaders c)\<rparr>"

definition bar_wait :: "nat \<Rightarrow> bar_pc \<Rightarrow> barrier \<Rightarrow> (bar_pc, barrier) outcome list" where
  "bar_wait t p c =
     (case p of
        BLoad \<Rightarrow> [Step c (BAdd (bar_phase c))]
      | BAdd f \<Rightarrow> [Step (c\<lparr>bar_waiting := bar_waiting c + 1, bar_arrived := (bar_arrived c)(t := bar_arrived c t + 1)\<rparr>)
                    (if bar_waiting c + 1 = bar_count c then BReset else BWaitF f)]
      | BReset \<Rightarrow> [Step (c\<lparr>bar_waiting := 0\<rparr>) BPhase]
      | BPhase \<Rightarrow> [Step (c\<lparr>bar_phase := bar_phase c + 1, bar_rounds := bar_rounds c + 1\<rparr>) BWake]
      | BWake \<Rightarrow> [FWake 4294967295 (BRet True)]
      | BWaitF f \<Rightarrow> [FWait f (BCheck f) None]
      | BCheck f \<Rightarrow> [Step c (if bar_phase c \<noteq> f then BRet False else BWaitF f)]
      | BRet r \<Rightarrow> [Step (bar_return t r c) BIdle]
      | BIdle \<Rightarrow> [])"

definition bar_client :: "bar_pc \<Rightarrow> barrier \<Rightarrow> (bar_pc, barrier) outcome list" where
  "bar_client p c = (if p = BIdle then [Step c BLoad] else [])"

definition bar_prog :: "(bar_pc, barrier) fprog" where
  "bar_prog t p c = bar_client p c @ bar_wait t p c"

definition bar_init :: "u32 \<Rightarrow> (bar_pc, barrier) fstate" where
  "bar_init n = finit (Barrier_new n) BIdle"

section \<open>Sample runs\<close>

text \<open>A round of two threads: the first sleeps, the second releases it, and both return.\<close>

definition bar_round :: sched where
  "bar_round = [(0, 0, []), (0, 0, []), (0, 0, []), (0, 0, []), (1, 0, []), (1, 0, []), (1, 0, []), (1, 0, []),
     (1, 0, []), (1, 0, [0]), (1, 0, []), (0, 0, []), (0, 0, [])]"

text \<open>
  Three threads at a barrier for two: the third loads the phase, the other two
  complete a round, and the third goes on.
\<close>

definition bar_overtake :: sched where
  "bar_overtake = [(2, 0, []), (2, 0, [])] @ bar_round @ [(2, 0, []), (2, 0, []), (2, 0, []), (2, 0, [])]"

section \<open>Invariant\<close>

text \<open>
  Where a thread stands, relative to the number \<open>R\<close> of released rounds: it has not
  arrived in the current round, it has arrived and waits for the release (or is
  about to release), or it was released and has not returned yet.
\<close>

definition bar_before :: "barrier \<Rightarrow> nat \<Rightarrow> bool" where
  "bar_before c t \<longleftrightarrow> bar_arrived c t = bar_rounds c \<and> bar_passed c t = bar_rounds c"

definition bar_inside :: "barrier \<Rightarrow> nat \<Rightarrow> bool" where
  "bar_inside c t \<longleftrightarrow> bar_arrived c t = bar_rounds c + 1 \<and> bar_passed c t = bar_rounds c"

definition bar_released :: "barrier \<Rightarrow> nat \<Rightarrow> bool" where
  "bar_released c t \<longleftrightarrow> bar_arrived c t = bar_rounds c \<and> bar_passed c t + 1 = bar_rounds c"

definition bar_thread :: "barrier \<Rightarrow> nat \<Rightarrow> bar_pc \<Rightarrow> bool" where
  "bar_thread c t p =
     (case p of
        BIdle \<Rightarrow> bar_before c t
      | BLoad \<Rightarrow> bar_before c t
      | BAdd f \<Rightarrow> bar_before c t \<and> f = bar_phase c
      | BReset \<Rightarrow> bar_inside c t
      | BPhase \<Rightarrow> bar_inside c t
      | BWaitF f \<Rightarrow> bar_inside c t \<and> f = bar_phase c \<or> bar_released c t \<and> f + 1 = bar_phase c
      | BCheck f \<Rightarrow> bar_inside c t \<and> f = bar_phase c \<or> bar_released c t \<and> f + 1 = bar_phase c
      | BWake \<Rightarrow> bar_released c t
      | BRet _ \<Rightarrow> bar_released c t)"

definition arrivals :: "nat \<Rightarrow> barrier \<Rightarrow> nat" where
  "arrivals N c = card {t. t < N \<and> bar_arrived c t = bar_rounds c + 1}"

definition bar_leader :: "bar_pc \<Rightarrow> bool" where
  "bar_leader p \<longleftrightarrow> p = BWake \<or> p = BRet True"

definition bar_gate :: "nat \<Rightarrow> (bar_pc, barrier) fstate \<Rightarrow> bool" where
  "bar_gate N s =
     (let L = at_pc N (\<lambda>p. p = BReset) s; P = at_pc N (\<lambda>p. p = BPhase) s;
          A = arrivals N (shared s); w = unat (bar_waiting (shared s))
      in L = 0 \<and> P = 0 \<and> A = w \<and> (A < N \<or> N = 0) \<or> L = 1 \<and> P = 0 \<and> A = N \<and> w = N \<or> L = 0 \<and> P = 1 \<and> A = N \<and> w = 0)"

definition bar_core :: "u32 \<Rightarrow> (bar_pc, barrier) fstate \<Rightarrow> bool" where
  "bar_core n s \<longleftrightarrow> bar_count (shared s) = n \<and> (\<forall>t<unat n. bar_thread (shared s) t (pcs s t)) \<and>
     bar_gate (unat n) s \<and> bar_leaders (shared s) + at_pc (unat n) bar_leader s = bar_rounds (shared s)"

definition bar_asleep :: "nat \<Rightarrow> (bar_pc, barrier) fstate \<Rightarrow> bool" where
  "bar_asleep N s \<longleftrightarrow> (\<forall>t q. sleepers s t = Some q \<longrightarrow> t < N \<and> q = None \<and>
     (\<exists>f. pcs s t = BCheck f \<and> (f = bar_phase (shared s) \<or> (\<exists>u<N. sleepers s u = None \<and> pcs s u = BWake))))"

lemmas bar_thread_defs = bar_thread_def bar_before_def bar_inside_def bar_released_def

lemmas bar_step_defs = bar_prog_def bar_client_def bar_wait_def

lemma bar_coreD:
  assumes "bar_core n s"
  shows "bar_count (shared s) = n" "t < unat n \<Longrightarrow> bar_thread (shared s) t (pcs s t)" "bar_gate (unat n) s"
    "bar_leaders (shared s) + at_pc (unat n) bar_leader s = bar_rounds (shared s)"
  using assms by (simp_all add: bar_core_def)

lemma bar_core_sleepers [simp]: "bar_core n (s\<lparr>sleepers := sl\<rparr>) = bar_core n s"
  by (simp add: bar_core_def bar_gate_def)

lemma bar_core_go_sleepers [simp]: "bar_core n (go t p (s\<lparr>sleepers := sl\<rparr>)) = bar_core n (go t p s)"
  by (simp add: bar_core_def bar_gate_def at_pc_def)

text \<open>Steps that only move a thread between program counters of the same class.\<close>

lemma bar_core_quiet:
  assumes "bar_core n s" "t < unat n" "bar_thread (shared s) t p"
    and "pcs s t \<notin> {BReset, BPhase}" "p \<notin> {BReset, BPhase}" "bar_leader p = bar_leader (pcs s t)"
  shows "bar_core n (go t p s)"
  using assms at_pc_pos [OF assms(2), of bar_leader s] by (auto simp: bar_core_def bar_gate_def at_pc_go)

text \<open>An arrival: the thread was not counted before, so the round was not complete.\<close>

lemma bar_core_add:
  assumes I: "bar_core n s" and t: "t < unat n" "pcs s t = BAdd f"
    and c: "c = shared s"
    and c': "c' = c\<lparr>bar_waiting := bar_waiting c + 1, bar_arrived := (bar_arrived c)(t := bar_arrived c t + 1)\<rparr>"
    and p: "p = (if bar_waiting c + 1 = bar_count c then BReset else BWaitF f)"
  shows "bar_core n (go t p (s\<lparr>shared := c'\<rparr>))"
proof -
  note D = bar_coreD [OF I]
  let ?A = "{u. u < unat n \<and> bar_arrived c u = bar_rounds c + 1}"
  have th: "bar_arrived c t = bar_rounds c" "bar_passed c t = bar_rounds c" "f = bar_phase c"
    using D(2) [OF t(1)] t(2) by (simp_all add: bar_thread_defs c)
  have nin: "t \<notin> ?A" using th by simp
  have "?A \<subset> {..<unat n}" using nin t(1) by auto
  then have lt: "arrivals (unat n) c < unat n" using psubset_card_mono [of "{..<unat n}" ?A] by (simp add: arrivals_def)
  then have g: "at_pc (unat n) (\<lambda>p. p = BReset) s = 0" "at_pc (unat n) (\<lambda>p. p = BPhase) s = 0"
      "arrivals (unat n) c = unat (bar_waiting c)"
    using D(3) by (auto simp: bar_gate_def Let_def c)
  have "{u. u < unat n \<and> bar_arrived c' u = bar_rounds c' + 1} = insert t ?A" using th t(1) by (auto simp: c')
  then have A': "arrivals (unat n) c' = arrivals (unat n) c + 1" using nin by (simp add: arrivals_def)
  have w': "unat (bar_waiting c + 1) = unat (bar_waiting c) + 1"
  proof (subst unat_add_le)
    show "unat (bar_waiting c) + unat (1 :: u32) < 2 ^ LENGTH(32)"
      using lt g(3) unat_lt32 [of n] by (simp del: unat_lt32)
  qed simp
  have full: "bar_waiting c + 1 = bar_count c \<longleftrightarrow> unat (bar_waiting c) + 1 = unat n"
    using w' D(1) by (auto simp: word_unat_eq_iff c)
  have "bar_thread c' u (((pcs s)(t := p)) u)" if "u < unat n" for u
    using D(2) [OF that] th p by (auto simp: bar_thread_defs c c' split: bar_pc.splits)
  moreover have "bar_gate (unat n) (go t p (s\<lparr>shared := c'\<rparr>))"
    using g A' w' full lt t p by (auto simp: bar_gate_def at_pc_go c')
  moreover have "at_pc (unat n) bar_leader (go t p (s\<lparr>shared := c'\<rparr>)) = at_pc (unat n) bar_leader s"
    using t p by (simp add: at_pc_go bar_leader_def)
  ultimately show ?thesis using D(1,4) by (simp add: bar_core_def c c')
qed

lemma bar_core_reset:
  assumes I: "bar_core n s" and t: "t < unat n" "pcs s t = BReset"
  shows "bar_core n (go t BPhase (s\<lparr>shared := (shared s)\<lparr>bar_waiting := 0\<rparr>\<rparr>))"
proof -
  note D = bar_coreD [OF I]
  have "0 < at_pc (unat n) (\<lambda>p. p = BReset) s" using at_pc_pos [OF t(1), where P = "\<lambda>p. p = BReset" and s = s] t(2) by simp
  then have g: "at_pc (unat n) (\<lambda>p. p = BReset) s = 1" "at_pc (unat n) (\<lambda>p. p = BPhase) s = 0"
      "arrivals (unat n) (shared s) = unat n"
    using D(3) by (auto simp: bar_gate_def Let_def)
  have "bar_thread ((shared s)\<lparr>bar_waiting := 0\<rparr>) u (((pcs s)(t := BPhase)) u)" if "u < unat n" for u
    using D(2) [OF that] t(2) by (auto simp: bar_thread_defs split: bar_pc.splits)
  then show ?thesis using g D(1,4) t by (simp add: bar_core_def bar_gate_def at_pc_go bar_leader_def arrivals_def)
qed

lemma bar_core_phase:
  assumes I: "bar_core n s" and t: "t < unat n" "pcs s t = BPhase"
    and c': "c' = (shared s)\<lparr>bar_phase := bar_phase (shared s) + 1, bar_rounds := bar_rounds (shared s) + 1\<rparr>"
  shows "bar_core n (go t BWake (s\<lparr>shared := c'\<rparr>))"
proof -
  note D = bar_coreD [OF I]
  let ?c = "shared s"
  have "0 < at_pc (unat n) (\<lambda>p. p = BPhase) s" using at_pc_pos [OF t(1), where P = "\<lambda>p. p = BPhase" and s = s] t(2) by simp
  then have g: "at_pc (unat n) (\<lambda>p. p = BReset) s = 0" "at_pc (unat n) (\<lambda>p. p = BPhase) s = 1"
      "arrivals (unat n) ?c = unat n" "bar_waiting ?c = 0"
    using D(3) by (auto simp: bar_gate_def Let_def unat_eq_zero)
  have "{u. u < unat n \<and> bar_arrived ?c u = bar_rounds ?c + 1} = {..<unat n}"
    by (rule card_subset_eq) (use g(3) in \<open>auto simp: arrivals_def\<close>)
  then have all: "bar_arrived ?c u = bar_rounds ?c + 1" if "u < unat n" for u using that by auto
  have other: "u = t" if "u < unat n" "pcs s u = BPhase" for u
    using at_pc_1_unique [of "unat n" "\<lambda>p. p = BPhase" s, OF _ that(1) t(1)] g(2) that(2) t(2) by simp
  have "bar_thread c' u (((pcs s)(t := BWake)) u)" if u: "u < unat n" for u
  proof (cases "u = t")
    case True
    then show ?thesis using D(2) [OF u] t(2) by (simp add: bar_thread_defs c')
  next
    case False
    have "pcs s u \<noteq> BReset" "pcs s u \<noteq> BPhase" using g(1) other [OF u] u False by (auto simp: at_pc_0)
    with False show ?thesis using D(2) [OF u] all [OF u]
      by (cases "pcs s u") (simp_all add: bar_thread_defs c')
  qed
  moreover have "arrivals (unat n) c' = 0" using all by (auto simp: arrivals_def c')
  ultimately show ?thesis using g D(1,4) t by (simp add: bar_core_def bar_gate_def at_pc_go bar_leader_def c')
qed

lemma bar_core_ret:
  assumes I: "bar_core n s" and t: "t < unat n" "pcs s t = BRet r"
  shows "bar_core n (go t BIdle (s\<lparr>shared := bar_return t r (shared s)\<rparr>))"
proof -
  note D = bar_coreD [OF I]
  have "bar_thread (bar_return t r (shared s)) u (((pcs s)(t := BIdle)) u)" if "u < unat n" for u
    using D(2) [OF that] t(2) by (auto simp: bar_thread_defs bar_return_def split: bar_pc.splits)
  moreover have "r \<Longrightarrow> 0 < at_pc (unat n) bar_leader s"
    using at_pc_pos [OF t(1), of bar_leader s] t(2) by (simp add: bar_leader_def)
  ultimately show ?thesis using D t
    by (auto simp: bar_core_def bar_gate_def at_pc_go bar_leader_def arrivals_def bar_return_def Let_def)
qed

lemma bar_core_step:
  assumes I: "bar_core n s" and t: "t < unat n" and st: "Step c p \<in> set (bar_prog t (pcs s t) (shared s))"
  shows "bar_core n (go t p (s\<lparr>shared := c\<rparr>))"
proof (cases "pcs s t")
  case (BAdd f)
  with st show ?thesis by (intro bar_core_add [OF I t BAdd refl]) (auto simp: bar_step_defs)
next
  case BReset
  with st bar_core_reset [OF I t BReset] show ?thesis by (simp add: bar_step_defs)
next
  case BPhase
  with st bar_core_phase [OF I t BPhase] show ?thesis by (simp add: bar_step_defs)
next
  case (BRet r)
  with st bar_core_ret [OF I t BRet] show ?thesis by (simp add: bar_step_defs)
qed (use st bar_coreD(2) [OF I t] in \<open>auto simp: bar_step_defs bar_thread_def bar_leader_def
    split: if_splits intro!: bar_core_quiet [OF I t]\<close>)

lemma bar_wait_facts: "FWait e p q \<in> set (bar_prog t r c) \<Longrightarrow> r = BWaitF e \<and> p = BCheck e \<and> q = None"
  by (cases r) (auto simp: bar_step_defs)

lemma bar_wake_facts: "FWake k p \<in> set (bar_prog t r c) \<Longrightarrow> r = BWake \<and> p = BRet True \<and> k = 4294967295"
  by (cases r) (auto simp: bar_step_defs)

lemma bar_core_wait:
  assumes "bar_core n s" "t < unat n" "FWait e p q \<in> set (bar_prog t (pcs s t) (shared s))"
  shows "bar_core n (go t p s)"
  using bar_wait_facts [OF assms(3)] bar_coreD(2) [OF assms(1,2)]
  by (intro bar_core_quiet assms) (auto simp: bar_thread_def bar_leader_def)

lemma bar_asleepE:
  assumes "bar_asleep N s" "sleepers s t = Some q"
  obtains f where "t < N" "q = None" "pcs s t = BCheck f"
    "f = bar_phase (shared s) \<or> (\<exists>u<N. sleepers s u = None \<and> pcs s u = BWake)"
  using assms(1) [unfolded bar_asleep_def, rule_format, OF assms(2)] that by (elim conjE exE) blast

text \<open>
  A step that keeps the phase and moves a thread that is not about to wake, or
  puts a thread that waits for the current phase to sleep.
\<close>

lemma bar_asleep_move:
  assumes S: "bar_asleep N s" and c: "bar_phase c = bar_phase (shared s)"
    and sl: "\<And>u q. sl u = Some q \<Longrightarrow> u \<noteq> t \<and> sleepers s u = Some q \<or> u = t \<and> t < N \<and> q = None \<and> p = BCheck (bar_phase c)"
    and w: "\<And>u. pcs s u = BWake \<Longrightarrow> sleepers s u = None \<Longrightarrow> u \<noteq> t \<and> sl u = None"
  shows "bar_asleep N (go t p (s\<lparr>shared := c, sleepers := sl\<rparr>))"
  unfolding bar_asleep_def
proof (intro allI impI)
  let ?s = "go t p (s\<lparr>shared := c, sleepers := sl\<rparr>)"
  fix u q assume "sleepers ?s u = Some q"
  then have "u \<noteq> t \<and> sleepers s u = Some q \<or> u = t \<and> t < N \<and> q = None \<and> p = BCheck (bar_phase c)" using sl by simp
  then show "u < N \<and> q = None \<and> (\<exists>f. pcs ?s u = BCheck f \<and>
      (f = bar_phase (shared ?s) \<or> (\<exists>v<N. sleepers ?s v = None \<and> pcs ?s v = BWake)))"
  proof
    assume u: "u \<noteq> t \<and> sleepers s u = Some q"
    then have "sleepers s u = Some q" by simp
    then obtain f where f: "u < N" "q = None" "pcs s u = BCheck f"
        "f = bar_phase (shared s) \<or> (\<exists>v<N. sleepers s v = None \<and> pcs s v = BWake)"
      by (rule bar_asleepE [OF S])
    from f(4) have "f = bar_phase c \<or> (\<exists>v<N. sl v = None \<and> ((pcs s)(t := p)) v = BWake)" using c w by auto
    with f u show ?thesis by simp
  qed simp
qed

lemma bar_asleep_step:
  assumes S: "bar_asleep N s" and t: "t < N" "sleepers s t = None" and st: "Step c p \<in> set (bar_prog t (pcs s t) (shared s))"
  shows "bar_asleep N (go t p (s\<lparr>shared := c\<rparr>))"
proof -
  have "p = BWake \<or> bar_phase c = bar_phase (shared s) \<and> pcs s t \<noteq> BWake"
    by (cases "pcs s t") (use st in \<open>auto simp: bar_step_defs bar_return_def\<close>)
  then show ?thesis
  proof
    assume p: "p = BWake"
    have "u < N \<and> q = None \<and> (\<exists>f. ((pcs s)(t := p)) u = BCheck f)" if u: "sleepers s u = Some q" for u q
      by (rule bar_asleepE [OF S u]) (use t(2) u in auto)
    moreover have "\<exists>v<N. sleepers s v = None \<and> ((pcs s)(t := p)) v = BWake" using t p by auto
    ultimately show ?thesis unfolding bar_asleep_def go_simps by simp
  next
    assume "bar_phase c = bar_phase (shared s) \<and> pcs s t \<noteq> BWake"
    then have "bar_asleep N (go t p (s\<lparr>shared := c, sleepers := sleepers s\<rparr>))"
      using t by (intro bar_asleep_move [OF S]) auto
    then show ?thesis by simp
  qed
qed

lemma wake_all:
  assumes "bar_asleep N s" "N < 2 ^ 32" "W \<subseteq> dom (sleepers s)" "card W = min 4294967295 (card (dom (sleepers s)))"
  shows "(sleepers s) |` (- W) = Map.empty"
proof -
  have sub: "dom (sleepers s) \<subseteq> {..<N}" using assms(1) by (auto simp: bar_asleep_def)
  then have fin: "finite (dom (sleepers s))" by (rule finite_subset) simp
  have "card (dom (sleepers s)) \<le> N" using card_mono [OF _ sub] by simp
  then have "card W = card (dom (sleepers s))" using assms(2,4) by simp
  then have "W = dom (sleepers s)" using card_subset_eq [OF fin assms(3)] by simp
  then show ?thesis by (auto simp: restrict_map_def dom_def)
qed

interpretation bar: futex_invariant bar_prog bar_phase "unat n" "\<lambda>s. bar_core n s \<and> bar_asleep (unat n) s" "bar_init n" for n
proof (unfold_locales, goal_cases)
  case 1
  show ?case
    by (auto simp: bar_core_def bar_asleep_def bar_init_def Barrier_new_def bar_thread_defs bar_gate_def arrivals_def
        at_pc_finit bar_leader_def)
next
  case 2
  then show ?case using bar_core_step bar_asleep_step by blast
next
  case (3 s t e p q)
  note f = bar_wait_facts [OF 3(4)]
  have "bar_asleep (unat n) (go t p (s\<lparr>shared := shared s, sleepers := (sleepers s)(t \<mapsto> q)\<rparr>))"
    by (rule bar_asleep_move) (use 3 f in \<open>auto split: if_splits\<close>)
  then show ?case using 3 bar_core_wait by simp
next
  case (4 s t e p q)
  note f = bar_wait_facts [OF 4(4)]
  have "bar_asleep (unat n) (go t p (s\<lparr>shared := shared s, sleepers := sleepers s\<rparr>))"
    by (rule bar_asleep_move) (use 4 f in auto)
  then show ?case using 4 bar_core_wait by simp
next
  case (5 s t k p W)
  note f = bar_wake_facts [OF 5(4)]
  have e: "(sleepers s) |` (- W) = Map.empty" using 5 f by (intro wake_all [of "unat n"]) simp_all
  have "bar_core n (go t p s)"
    using f bar_coreD(2) [of n s t] 5 by (intro bar_core_quiet) (auto simp: bar_thread_def bar_leader_def)
  then show ?case unfolding e by (simp add: bar_asleep_def)
next
  case (6 s t p)
  then show ?case unfolding bar_asleep_def by blast
next
  case (7 s t q)
  then obtain f where f: "pcs s t = BCheck f" unfolding bar_asleep_def by blast
  have "bar_asleep (unat n) (go t (BCheck f) (s\<lparr>shared := shared s, sleepers := (sleepers s)(t := None)\<rparr>))"
    by (rule bar_asleep_move) (use 7 f in \<open>auto split: if_splits\<close>)
  moreover have "go t (BCheck f) r = r" if "pcs r t = BCheck f" for r :: "(bar_pc, barrier) fstate"
    using that by (simp add: go_def fun_upd_idem)
  ultimately show ?case using 7 f by simp
qed

text \<open>Where the threads stand in a reachable state.\<close>

lemma bar_thread_rounds:
  assumes "bar_core n s" "t < unat n"
  shows "bar_arrived (shared s) t = bar_rounds (shared s) \<and> bar_passed (shared s) t \<le> bar_rounds (shared s) \<or>
    bar_arrived (shared s) t = bar_rounds (shared s) + 1 \<and> bar_passed (shared s) t = bar_rounds (shared s)"
  using bar_coreD(2) [OF assms] by (cases "pcs s t") (auto simp: bar_thread_defs)

lemma bar_sleeper_waits:
  assumes I: "bar_core n s" "bar_asleep (unat n) s" and t: "sleepers s t = Some q"
  shows "(\<exists>v<unat n. bar_arrived (shared s) v = bar_passed (shared s) t) \<or>
    (\<exists>v<unat n. sleepers s v = None \<and> pcs s v \<in> {BReset, BPhase, BWake})"
proof -
  obtain f where f: "t < unat n" "pcs s t = BCheck f"
      "f = bar_phase (shared s) \<or> (\<exists>u<unat n. sleepers s u = None \<and> pcs s u = BWake)"
    by (rule bar_asleepE [OF I(2) t])
  let ?R = "bar_rounds (shared s)"
  have awake: "sleepers s v = None" if "pcs s v = BReset \<or> pcs s v = BPhase" for v
    using that bar_asleepE [OF I(2), of v] by (cases "sleepers s v") force+
  have "\<exists>v<unat n. bar_arrived (shared s) v = ?R" if "arrivals (unat n) (shared s) < unat n"
  proof (rule ccontr)
    assume "\<not> (\<exists>v<unat n. bar_arrived (shared s) v = ?R)"
    with bar_thread_rounds [OF I(1)] have "{v. v < unat n \<and> bar_arrived (shared s) v = ?R + 1} = {..<unat n}" by auto
    with that show False by (simp add: arrivals_def)
  qed
  moreover have "\<exists>v<unat n. pcs s v = BReset \<or> pcs s v = BPhase" if "\<not> arrivals (unat n) (shared s) < unat n"
  proof -
    have "at_pc (unat n) (\<lambda>p. p = BReset) s \<noteq> 0 \<or> at_pc (unat n) (\<lambda>p. p = BPhase) s \<noteq> 0"
      using bar_coreD(3) [OF I(1)] that f(1) by (auto simp: bar_gate_def Let_def)
    then show ?thesis unfolding at_pc_0 by auto
  qed
  moreover have "bar_passed (shared s) t = ?R" if "f = bar_phase (shared s)"
    using bar_coreD(2) [OF I(1) f(1)] that f(2) by (auto simp: bar_thread_defs)
  ultimately show ?thesis using f(3) awake by (metis insertCI)
qed

lemma bar_round_runs:
  "\<exists>s. fexec bar_prog bar_phase 2 bar_round (bar_init 2) = Some s \<and> pcs s 0 = BIdle \<and> pcs s 1 = BIdle \<and>
     bar_passed (shared s) 0 = 1"
  "\<exists>s. fexec bar_prog bar_phase 2 (take 4 bar_round) (bar_init 2) = Some s \<and> sleepers s 0 = Some None \<and>
     pcs s 1 = BIdle"
  by (simp_all add: bar_round_def fexec1_def bar_step_defs bar_init_def Barrier_new_def bar_return_def finit_def go_def)

lemma bar_overtake_runs:
  "\<exists>s. fexec bar_prog bar_phase 3 bar_overtake (bar_init 2) = Some s \<and>
     bar_rounds (shared s) = 1 \<and> bar_passed (shared s) 0 = 1 \<and> bar_passed (shared s) 1 = 1 \<and> bar_passed (shared s) 2 = 1"
  by (simp add: bar_overtake_def bar_round_def fexec1_def bar_step_defs bar_init_def Barrier_new_def bar_return_def
      finit_def go_def)

section \<open>Properties\<close>

text \<open>C20: At a barrier for \<open>n\<close> threads that \<open>n\<close> threads use, in every interleaving and over any number
  of rounds: a thread that has passed the barrier \<open>k\<close> times finds that every thread has arrived
  \<open>k\<close> times; a thread sleeps only while some thread has not arrived in its round or the
  thread that releases the round is on its way; and when no thread is inside, all have taken
  part in the same number of rounds, and each round returned true to one thread.\<close>

theorem barrier_separates_rounds:
  assumes r: "freach bar_prog bar_phase (unat n) spur (bar_init n) s" and t: "t < unat n" and u: "u < unat n"
  shows "bar_passed (shared s) t \<le> bar_arrived (shared s) u \<and>
    (sleepers s t \<noteq> None \<longrightarrow> (\<exists>v<unat n. bar_arrived (shared s) v = bar_passed (shared s) t) \<or>
       (\<exists>v<unat n. sleepers s v = None \<and> pcs s v \<in> {BReset, BPhase, BWake})) \<and>
    ((\<forall>v<unat n. pcs s v = BIdle) \<longrightarrow>
       bar_arrived (shared s) u = bar_passed (shared s) t \<and> bar_leaders (shared s) = bar_passed (shared s) t)"
proof (intro conjI impI)
  note I = bar.reach_inv [OF r, THEN conjunct1] bar.reach_inv [OF r, THEN conjunct2]
  show "bar_passed (shared s) t \<le> bar_arrived (shared s) u"
    using bar_thread_rounds [OF I(1) t] bar_thread_rounds [OF I(1) u] by auto
  show "(\<exists>v<unat n. bar_arrived (shared s) v = bar_passed (shared s) t) \<or>
      (\<exists>v<unat n. sleepers s v = None \<and> pcs s v \<in> {BReset, BPhase, BWake})" if "sleepers s t \<noteq> None"
  proof -
    from that obtain q where "sleepers s t = Some q" by blast
    then show ?thesis by (rule bar_sleeper_waits [OF I])
  qed
  assume idle: "\<forall>v<unat n. pcs s v = BIdle"
  then have "at_pc (unat n) bar_leader s = 0" by (simp add: at_pc_0 bar_leader_def)
  then have "bar_leaders (shared s) = bar_rounds (shared s)" using bar_coreD(4) [OF I(1)] by simp
  moreover have "bar_before (shared s) v" if "v < unat n" for v
    using bar_coreD(2) [OF I(1) that] idle that by (simp add: bar_thread_def)
  from this [OF t] this [OF u] show "bar_arrived (shared s) u = bar_passed (shared s) t"
    by (simp add: bar_before_def)
  from calculation this show "bar_leaders (shared s) = bar_passed (shared s) t"
    using \<open>\<And>v. v < unat n \<Longrightarrow> bar_before (shared s) v\<close> [OF t] by (simp add: bar_before_def)
qed

theorem barrier_separates_rounds_witness:
  "(\<exists>s. freach bar_prog bar_phase 2 False (bar_init 2) s \<and> bar_passed (shared s) 0 = 1 \<and>
      bar_arrived (shared s) 1 = 1 \<and> bar_leaders (shared s) = 1) \<and>
   (\<exists>s. freach bar_prog bar_phase 2 False (bar_init 2) s \<and> sleepers s 0 = Some None \<and>
      (\<exists>v<2. bar_arrived (shared s) v = bar_passed (shared s) 0 \<or> pcs s v \<in> {BReset, BPhase, BWake}))"
proof
  note sep = barrier_separates_rounds [of 2 False _ 0 1, simplified]
  have ok: "sleepers_ok 2 (bar_init 2)" by (simp add: bar_init_def)
  obtain s where s: "fexec bar_prog bar_phase 2 bar_round (bar_init 2) = Some s" "pcs s 0 = BIdle" "pcs s 1 = BIdle"
    "bar_passed (shared s) 0 = 1" using bar_round_runs(1) by blast
  have r: "freach bar_prog bar_phase 2 False (bar_init 2) s" by (rule fexec_reach [OF s(1) ok])
  have "\<forall>v<2. pcs s v = BIdle" using s(2,3) by (simp add: less_2_cases_iff)
  with sep [OF r] s(4) r show "\<exists>s. freach bar_prog bar_phase 2 False (bar_init 2) s \<and> bar_passed (shared s) 0 = 1 \<and>
      bar_arrived (shared s) 1 = 1 \<and> bar_leaders (shared s) = 1" by auto
  obtain s' where s': "fexec bar_prog bar_phase 2 (take 4 bar_round) (bar_init 2) = Some s'" "sleepers s' 0 = Some None"
    using bar_round_runs(2) by blast
  have r': "freach bar_prog bar_phase 2 False (bar_init 2) s'" by (rule fexec_reach [OF s'(1) ok])
  from sep [OF r'] s'(2) r' show "\<exists>s. freach bar_prog bar_phase 2 False (bar_init 2) s \<and> sleepers s 0 = Some None \<and>
      (\<exists>v<2. bar_arrived (shared s) v = bar_passed (shared s) 0 \<or> pcs s v \<in> {BReset, BPhase, BWake})"
    by (intro exI [of _ s']) auto
qed

text \<open>Fact: With more threads than the barrier counts, a thread can pass in a round of which it is the only
  arrival: \<open>wait\<close> loads the phase before it is counted, so a thread that is overtaken by a release
  between the two goes on at once.  Here three threads pass a barrier for two, which was released once.\<close>

theorem barrier_overtaken:
  "\<exists>s. freach bar_prog bar_phase 3 False (bar_init 2) s \<and> bar_rounds (shared s) = 1 \<and>
     bar_passed (shared s) 0 = 1 \<and> bar_passed (shared s) 1 = 1 \<and> bar_passed (shared s) 2 = 1"
proof -
  have "sleepers_ok 3 (bar_init 2)" by (simp add: bar_init_def)
  with bar_overtake_runs fexec_reach show ?thesis by blast
qed

end
