(* ===== verification/Elf_Image.thy ===== *)
theory Elf_Image
  imports Memory
begin

text \<open>
  ELF64 images: the headers of \<^verbatim>\<open>uapi/types/core.rs\<close> read from a byte array, the
  loop over the program headers that every function of \<^verbatim>\<open>loader/elf_loader.rs\<close>
  and \<^verbatim>\<open>loader/elf_dynamic.rs\<close> repeats, and the functions that only inspect
  the image: the number of pages, the span of addresses and the file offset of
  an address.  Offsets and sizes are 64-bit words, so the sums in the bounds
  checks wrap; a read outside the array is \<^const>\<open>None\<close>.
\<close>

section \<open>Headers\<close>

abbreviation (input) ELF_PAGE_SIZE :: u64 where "ELF_PAGE_SIZE \<equiv> 4096"
abbreviation (input) ET_EXEC :: u16 where "ET_EXEC \<equiv> 2"
abbreviation (input) ET_DYN :: u16 where "ET_DYN \<equiv> 3"
abbreviation (input) PT_LOAD :: u32 where "PT_LOAD \<equiv> 1"
abbreviation (input) PT_DYNAMIC :: u32 where "PT_DYNAMIC \<equiv> 2"
abbreviation (input) PT_INTERP :: u32 where "PT_INTERP \<equiv> 3"
abbreviation (input) PT_PHDR :: u32 where "PT_PHDR \<equiv> 6"
abbreviation (input) PF_X :: u32 where "PF_X \<equiv> 1"
abbreviation (input) PF_W :: u32 where "PF_W \<equiv> 2"
abbreviation (input) DT_NULL :: u64 where "DT_NULL \<equiv> 0"
abbreviation (input) DT_NEEDED :: u64 where "DT_NEEDED \<equiv> 1"
abbreviation (input) DT_STRTAB :: u64 where "DT_STRTAB \<equiv> 5"
abbreviation (input) DT_RELA :: u64 where "DT_RELA \<equiv> 7"
abbreviation (input) DT_RELASZ :: u64 where "DT_RELASZ \<equiv> 8"
abbreviation (input) DT_RELAENT :: u64 where "DT_RELAENT \<equiv> 9"

record Elf64Ehdr =
  e_ident :: "u8 list"
  e_type :: u16
  e_machine :: u16
  e_version :: u32
  e_entry :: u64
  e_phoff :: u64
  e_shoff :: u64
  e_flags :: u32
  e_ehsize :: u16
  e_phentsize :: u16
  e_phnum :: u16
  e_shentsize :: u16
  e_shnum :: u16
  e_shstrndx :: u16

record Elf64Phdr =
  p_type :: u32
  p_flags :: u32
  p_offset :: u64
  p_vaddr :: u64
  p_paddr :: u64
  p_filesz :: u64
  p_memsz :: u64
  p_align :: u64

record Elf64Dyn =
  d_tag :: u64
  d_val :: u64

record Elf64Rela =
  r_offset :: u64
  r_info :: u64
  r_addend :: u64

text \<open>
  A reference to a structure in the image needs all its bytes; the signed
  fields \<open>d_tag\<close> and \<open>r_addend\<close> are kept as the words they are compared and
  added as.
\<close>

definition fld :: "u8 list \<Rightarrow> nat \<Rightarrow> nat \<Rightarrow> 'a::len word" where
  "fld bs off n = le_word (take n (drop off bs))"

definition ehdr_of :: "u8 list \<Rightarrow> Elf64Ehdr" where
  "ehdr_of bs =
     \<lparr>e_ident = take 16 bs, e_type = fld bs 16 2, e_machine = fld bs 18 2, e_version = fld bs 20 4,
      e_entry = fld bs 24 8, e_phoff = fld bs 32 8, e_shoff = fld bs 40 8, e_flags = fld bs 48 4,
      e_ehsize = fld bs 52 2, e_phentsize = fld bs 54 2, e_phnum = fld bs 56 2,
      e_shentsize = fld bs 58 2, e_shnum = fld bs 60 2, e_shstrndx = fld bs 62 2\<rparr>"

definition phdr_of :: "u8 list \<Rightarrow> Elf64Phdr" where
  "phdr_of bs =
     \<lparr>p_type = fld bs 0 4, p_flags = fld bs 4 4, p_offset = fld bs 8 8, p_vaddr = fld bs 16 8,
      p_paddr = fld bs 24 8, p_filesz = fld bs 32 8, p_memsz = fld bs 40 8, p_align = fld bs 48 8\<rparr>"

definition dyn_of :: "u8 list \<Rightarrow> Elf64Dyn" where
  "dyn_of bs = \<lparr>d_tag = fld bs 0 8, d_val = fld bs 8 8\<rparr>"

definition rela_of :: "u8 list \<Rightarrow> Elf64Rela" where
  "rela_of bs = \<lparr>r_offset = fld bs 0 8, r_info = fld bs 8 8, r_addend = fld bs 16 8\<rparr>"

definition read_ehdr :: "mem \<Rightarrow> nat \<Rightarrow> Elf64Ehdr option" where
  "read_ehdr m a = map_option ehdr_of (read_bytes m a 64)"

definition read_phdr :: "mem \<Rightarrow> nat \<Rightarrow> Elf64Phdr option" where
  "read_phdr m a = map_option phdr_of (read_bytes m a 56)"

definition read_dyn :: "mem \<Rightarrow> nat \<Rightarrow> Elf64Dyn option" where
  "read_dyn m a = map_option dyn_of (read_bytes m a 16)"

definition read_rela :: "mem \<Rightarrow> nat \<Rightarrow> Elf64Rela option" where
  "read_rela m a = map_option rela_of (read_bytes m a 24)"

definition is_elf :: "Elf64Ehdr \<Rightarrow> bool" where
  "is_elf e \<longleftrightarrow> e_ident e ! 0 = 0x7F \<and> e_ident e ! 1 = 0x45 \<and> e_ident e ! 2 = 0x4C \<and> e_ident e ! 3 = 0x46"

section \<open>The loop over the program headers\<close>

text \<open>
  \<open>for i in 0..phnum\<close> with the bounds check that ends it.  The body yields
  \<^const>\<open>Inl\<close> of the new loop state to go on and \<^const>\<open>Inr\<close> to return.
\<close>

fun phdr_for ::
  "mem \<Rightarrow> u64 \<Rightarrow> Elf64Ehdr \<Rightarrow> nat list \<Rightarrow> (Elf64Phdr \<Rightarrow> 's \<Rightarrow> ('s + 'r) option) \<Rightarrow> 's \<Rightarrow> ('s + 'r) option"
where
  "phdr_for m data_len e [] f s = Some (Inl s)"
| "phdr_for m data_len e (i # is) f s =
     (let off = e_phoff e + of_nat i * ucast (e_phentsize e)
      in if data_len < off + 56 then Some (Inl s)
         else do {
           ph \<leftarrow> read_phdr m (unat off);
           r \<leftarrow> f ph s;
           case r of Inl s' \<Rightarrow> phdr_for m data_len e is f s' | Inr x \<Rightarrow> Some (Inr x) })"

definition phdr_indices :: "Elf64Ehdr \<Rightarrow> nat list" where
  "phdr_indices e = [0..<unat (e_phnum e)]"

text \<open>Loops without an early return, and loops that stop at the first header with a property.\<close>

definition phdr_fold :: "mem \<Rightarrow> u64 \<Rightarrow> Elf64Ehdr \<Rightarrow> (Elf64Phdr \<Rightarrow> 's \<Rightarrow> 's) \<Rightarrow> 's \<Rightarrow> 's option" where
  "phdr_fold m data_len e g s =
     do { r \<leftarrow> phdr_for m data_len e (phdr_indices e) (\<lambda>ph s. Some (Inl (g ph s))) s;
          case r of Inl s' \<Rightarrow> Some s' | Inr s' \<Rightarrow> Some s' }"

definition phdr_find :: "mem \<Rightarrow> u64 \<Rightarrow> Elf64Ehdr \<Rightarrow> (Elf64Phdr \<Rightarrow> bool) \<Rightarrow> Elf64Phdr option option" where
  "phdr_find m data_len e P =
     do { r \<leftarrow> phdr_for m data_len e (phdr_indices e) (\<lambda>ph _. Some (if P ph then Inr ph else Inl ())) ();
          case r of Inl _ \<Rightarrow> Some None | Inr ph \<Rightarrow> Some (Some ph) }"

section \<open>Pages, spans and file offsets\<close>

definition elf_page_align_down :: "u64 \<Rightarrow> u64" where
  "elf_page_align_down v = v AND NOT (ELF_PAGE_SIZE - 1)"

definition elf_page_align_up :: "u64 \<Rightarrow> u64" where
  "elf_page_align_up v = (v + ELF_PAGE_SIZE - 1) AND NOT (ELF_PAGE_SIZE - 1)"

definition seg_pages :: "u64 \<Rightarrow> u64 \<Rightarrow> u64 \<Rightarrow> u64" where
  "seg_pages vaddr memsz tot =
     (let seg_start = elf_page_align_down vaddr; seg_end = elf_page_align_up (vaddr + memsz)
      in if seg_start < seg_end then tot + (seg_end - seg_start) div ELF_PAGE_SIZE else tot)"

definition elf_count_load_pages :: "mem \<Rightarrow> u64 \<Rightarrow> u64 option" where
  "elf_count_load_pages m data_len =
     (if data_len < 64 then Some 0
      else do {
        e \<leftarrow> read_ehdr m 0;
        if \<not> is_elf e then Some 0
        else phdr_fold m data_len e
               (\<lambda>ph tot. if p_type ph \<noteq> PT_LOAD then tot
                           else seg_pages (p_vaddr ph) (p_memsz ph) tot) 0 })"

definition span_step :: "Elf64Phdr \<Rightarrow> u64 \<times> u64 \<Rightarrow> u64 \<times> u64" where
  "span_step ph s =
     (case s of (min_vaddr, max_vaddr_end) \<Rightarrow>
        if p_type ph \<noteq> PT_LOAD then s
        else let end_v = p_vaddr ph + p_memsz ph
             in (if p_vaddr ph < min_vaddr then p_vaddr ph else min_vaddr,
                 if max_vaddr_end < end_v then end_v else max_vaddr_end))"

definition elf_compute_load_span :: "mem \<Rightarrow> u64 \<Rightarrow> u64 option" where
  "elf_compute_load_span m data_len =
     (if data_len < 64 then Some 0
      else do {
        e \<leftarrow> read_ehdr m 0;
        if \<not> is_elf e then Some 0
        else do {
          s \<leftarrow> phdr_fold m data_len e span_step (- 1, 0);
          case s of (min_vaddr, max_vaddr_end) \<Rightarrow>
            Some (if min_vaddr = - 1 \<or> max_vaddr_end = 0 then 0
                  else elf_page_align_up max_vaddr_end - elf_page_align_down min_vaddr) } })"

definition vaddr_to_file_offset :: "mem \<Rightarrow> u64 \<Rightarrow> Elf64Ehdr \<Rightarrow> u64 \<Rightarrow> u64 option option" where
  "vaddr_to_file_offset m data_len e vaddr =
     do { r \<leftarrow> phdr_for m data_len e (phdr_indices e)
                (\<lambda>ph _. Some
                   (if p_type ph \<noteq> PT_LOAD then Inl ()
                    else if vaddr < p_vaddr ph then Inl ()
                    else let seg_off = vaddr - p_vaddr ph
                         in if p_filesz ph \<le> seg_off then Inl ()
                            else let file_off = p_offset ph + seg_off
                                 in Inr (if data_len \<le> file_off then None else Some file_off))) ();
          case r of Inl _ \<Rightarrow> Some None | Inr x \<Rightarrow> Some x }"

section \<open>The header table of an image\<close>

text \<open>
  What the loop is meant to visit: the headers that lie inside the image, up to
  the first that does not.  \<open>image_ok\<close> says that the array holds the announced
  number of bytes and that the offset of the table is small enough for the sums
  of the loop not to wrap; this is what the callers' contract, a valid file,
  gives.
\<close>

definition phdr_table :: "mem \<Rightarrow> u64 \<Rightarrow> Elf64Ehdr \<Rightarrow> Elf64Phdr list" where
  "phdr_table m data_len e =
     map (\<lambda>i. phdr_of (take 56 (drop (unat (e_phoff e) + i * unat (e_phentsize e)) m)))
       (takeWhile (\<lambda>i. unat (e_phoff e) + i * unat (e_phentsize e) + 56 \<le> unat data_len) (phdr_indices e))"

definition ehdr :: "mem \<Rightarrow> Elf64Ehdr" where
  "ehdr m = ehdr_of (take 64 m)"

definition image_ok :: "mem \<Rightarrow> u64 \<Rightarrow> bool" where
  "image_ok m data_len \<longleftrightarrow> unat data_len \<le> length m \<and> e_phoff (ehdr m) < 0x8000000000000000"

text \<open>The loadable segments, and those whose end does not wrap.\<close>

definition load_segments :: "mem \<Rightarrow> u64 \<Rightarrow> Elf64Phdr list" where
  "load_segments m data_len = filter (\<lambda>ph. p_type ph = PT_LOAD) (phdr_table m data_len (ehdr m))"

definition seg_ok :: "Elf64Phdr \<Rightarrow> bool" where
  "seg_ok ph \<longleftrightarrow> p_vaddr ph \<le> p_vaddr ph + p_memsz ph \<and> p_vaddr ph + p_memsz ph \<le> - 4096"

text \<open>The encoding of headers, for images written down in full.\<close>

definition enc_ehdr :: "Elf64Ehdr \<Rightarrow> u8 list" where
  "enc_ehdr e =
     e_ident e @ le_bytes 2 (e_type e) @ le_bytes 2 (e_machine e) @ le_bytes 4 (e_version e) @
     le_bytes 8 (e_entry e) @ le_bytes 8 (e_phoff e) @ le_bytes 8 (e_shoff e) @ le_bytes 4 (e_flags e) @
     le_bytes 2 (e_ehsize e) @ le_bytes 2 (e_phentsize e) @ le_bytes 2 (e_phnum e) @
     le_bytes 2 (e_shentsize e) @ le_bytes 2 (e_shnum e) @ le_bytes 2 (e_shstrndx e)"

definition enc_phdr :: "Elf64Phdr \<Rightarrow> u8 list" where
  "enc_phdr p =
     le_bytes 4 (p_type p) @ le_bytes 4 (p_flags p) @ le_bytes 8 (p_offset p) @ le_bytes 8 (p_vaddr p) @
     le_bytes 8 (p_paddr p) @ le_bytes 8 (p_filesz p) @ le_bytes 8 (p_memsz p) @ le_bytes 8 (p_align p)"

definition enc_dyn :: "Elf64Dyn \<Rightarrow> u8 list" where
  "enc_dyn d = le_bytes 8 (d_tag d) @ le_bytes 8 (d_val d)"

definition enc_rela :: "Elf64Rela \<Rightarrow> u8 list" where
  "enc_rela r = le_bytes 8 (r_offset r) @ le_bytes 8 (r_info r) @ le_bytes 8 (r_addend r)"

text \<open>A header with the given type, table offset and number of program headers.\<close>

definition plain_ehdr :: "u16 \<Rightarrow> u64 \<Rightarrow> u64 \<Rightarrow> u16 \<Rightarrow> Elf64Ehdr" where
  "plain_ehdr typ entry phoff phnum =
     \<lparr>e_ident = [0x7F, 0x45, 0x4C, 0x46, 2, 1, 1, 0, 0, 0, 0, 0, 0, 0, 0, 0], e_type = typ, e_machine = 62,
      e_version = 1, e_entry = entry, e_phoff = phoff, e_shoff = 0, e_flags = 0, e_ehsize = 64,
      e_phentsize = 56, e_phnum = phnum, e_shentsize = 0, e_shnum = 0, e_shstrndx = 0\<rparr>"

definition plain_phdr :: "u32 \<Rightarrow> u32 \<Rightarrow> u64 \<Rightarrow> u64 \<Rightarrow> u64 \<Rightarrow> u64 \<Rightarrow> Elf64Phdr" where
  "plain_phdr typ flags off va filesz memsz =
     \<lparr>p_type = typ, p_flags = flags, p_offset = off, p_vaddr = va, p_paddr = va, p_filesz = filesz,
      p_memsz = memsz, p_align = 4096\<rparr>"

text \<open>An image with its header table right after the file header.\<close>

definition enc_image :: "Elf64Ehdr \<Rightarrow> Elf64Phdr list \<Rightarrow> u8 list \<Rightarrow> mem" where
  "enc_image e phs rest = enc_ehdr e @ concat (map enc_phdr phs) @ rest"

fun loop_over :: "('a \<Rightarrow> 's \<Rightarrow> ('s + 'r) option) \<Rightarrow> 'a list \<Rightarrow> 's \<Rightarrow> ('s + 'r) option" where
  "loop_over f [] s = Some (Inl s)"
| "loop_over f (x # xs) s =
     do { r \<leftarrow> f x s; case r of Inl s' \<Rightarrow> loop_over f xs s' | Inr y \<Rightarrow> Some (Inr y) }"

section \<open>Facts on the header loop\<close>

lemma read_ehdr_0: "64 \<le> length m \<Longrightarrow> read_ehdr m 0 = Some (ehdr m)"
  by (simp add: read_ehdr_def read_bytes_def ehdr_def)

lemma read_phdr_Some: "a + 56 \<le> length m \<Longrightarrow> read_phdr m a = Some (phdr_of (take 56 (drop a m)))"
  by (simp add: read_phdr_def read_bytes_def)

lemma read_dyn_Some: "a + 16 \<le> length m \<Longrightarrow> read_dyn m a = Some (dyn_of (take 16 (drop a m)))"
  by (simp add: read_dyn_def read_bytes_def)

lemma read_rela_Some: "a + 24 \<le> length m \<Longrightarrow> read_rela m a = Some (rela_of (take 24 (drop a m)))"
  by (simp add: read_rela_def read_bytes_def)

lemma unat_lt16 [simp]: "unat (a :: u16) < 65536"
  using unsigned_less [of a] by simp

lemma unat_ucast_16_64 [simp]: "unat (ucast (w :: u16) :: u64) = unat w"
  using less_trans [OF unat_lt16 [of w], of "2 ^ 64"] by (simp add: unsigned_ucast_eq take_bit_nat_eq_self)

lemma phdr_off_unat:
  fixes po :: u64 and ent :: u16
  assumes "unat po < 2 ^ 63" "i < 65536"
  shows "unat (po + of_nat i * ucast ent) = unat po + i * unat ent"
    "unat (po + of_nat i * ucast ent + 56) = unat po + i * unat ent + 56"
proof -
  have "i * unat ent \<le> 65536 * 65536" using assms(2) less_imp_le [OF unat_lt16 [of ent]] by (intro mult_le_mono) simp_all
  then have b: "i * unat ent \<le> 4294967296" by simp
  have i: "unat (of_nat i :: u64) = i" using assms(2) by (simp add: unat_of_nat_lt64)
  have p: "unat (of_nat i * ucast ent :: u64) = i * unat ent"
    using b by (simp add: unat_word_ariths i)
  show 1: "unat (po + of_nat i * ucast ent) = unat po + i * unat ent"
    using b assms(1) by (subst unat_add_le) (simp_all add: p)
  show "unat (po + of_nat i * ucast ent + 56) = unat po + i * unat ent + 56"
    using b assms(1) by (subst unat_add_le) (simp_all add: 1)
qed

lemma phdr_for_takeWhile:
  assumes "unat n \<le> length m" "unat (e_phoff e) < 2 ^ 63" "\<forall>i\<in>set is. i < 65536"
  shows "phdr_for m n e is f s =
    loop_over f (map (\<lambda>i. phdr_of (take 56 (drop (unat (e_phoff e) + i * unat (e_phentsize e)) m)))
       (takeWhile (\<lambda>i. unat (e_phoff e) + i * unat (e_phentsize e) + 56 \<le> unat n) is)) s"
  using assms(3)
proof (induction "is" arbitrary: s)
  case (Cons i "is")
  note o = phdr_off_unat [OF assms(2), of i "e_phentsize e"]
  have i: "i < 65536" using Cons.prems by simp
  have lt: "n < e_phoff e + of_nat i * ucast (e_phentsize e) + 56 \<longleftrightarrow>
      \<not> unat (e_phoff e) + i * unat (e_phentsize e) + 56 \<le> unat n"
    using o(2) [OF i] by (simp add: word_less_nat_alt not_le)
  show ?case
  proof (cases "unat (e_phoff e) + i * unat (e_phentsize e) + 56 \<le> unat n")
    case True
    have "phdr_for m n e is f = loop_over f (map (\<lambda>i. phdr_of
          (take 56 (drop (unat (e_phoff e) + i * unat (e_phentsize e)) m)))
        (takeWhile (\<lambda>i. unat (e_phoff e) + i * unat (e_phentsize e) + 56 \<le> unat n) is))"
      using Cons by (intro ext) simp
    with True lt o(1) [OF i] assms(1) show ?thesis by (simp add: Let_def read_phdr_Some)
  qed (simp add: lt)
qed simp

lemma phdr_for_table:
  assumes "image_ok m n"
  shows "phdr_for m n (ehdr m) (phdr_indices (ehdr m)) f s = loop_over f (phdr_table m n (ehdr m)) s"
  unfolding phdr_table_def
  by (rule phdr_for_takeWhile)
    (use assms unat_lt16 in \<open>auto simp: image_ok_def phdr_indices_def word_less_nat_alt intro: less_trans\<close>)

lemma loop_over_fold: "loop_over (\<lambda>x s. Some (Inl (g x s))) xs s = Some (Inl (fold g xs s))"
  by (induction xs arbitrary: s) simp_all

lemma loop_over_find:
  "loop_over (\<lambda>x _. Some (if P x then Inr (h x) else Inl ())) xs () =
     Some (case find P xs of None \<Rightarrow> Inl () | Some x \<Rightarrow> Inr (h x))"
  by (induction xs) simp_all

lemma phdr_fold_table:
  "image_ok m n \<Longrightarrow> phdr_fold m n (ehdr m) g s = Some (fold g (phdr_table m n (ehdr m)) s)"
  by (simp add: phdr_fold_def phdr_for_table loop_over_fold)

lemma phdr_find_table:
  "image_ok m n \<Longrightarrow> phdr_find m n (ehdr m) P = Some (find P (phdr_table m n (ehdr m)))"
  by (simp add: phdr_find_def phdr_for_table loop_over_find split: option.splits)

lemma fold_filter_if:
  "fold (\<lambda>x s. if P x then g x s else s) xs s = fold g (filter P xs) s"
  by (induction xs arbitrary: s) simp_all

section \<open>Page arithmetic\<close>

lemma mask_12_u64: "(ELF_PAGE_SIZE - 1 :: u64) = mask 12" "(0xFFF :: u64) = mask 12"
  by (simp_all add: mask_eq_exp_minus_1)

lemma unat_elf_page_align_down [word_nat_simps]:
  "unat (elf_page_align_down v) = unat v div 4096 * 4096"
  unfolding elf_page_align_down_def mask_12_u64 by (simp add: unat_and_not_mask)

lemma unat_elf_page_align_up [word_nat_simps]:
  assumes "unat v + 4096 \<le> 2 ^ 64"
  shows "unat (elf_page_align_up v) = (unat v + 4095) div 4096 * 4096"
proof -
  have "unat (v + 4095) = unat v + 4095" using assms by (subst unat_add_le) simp_all
  moreover have "elf_page_align_up v = (v + 4095) AND NOT (mask 12)"
    unfolding elf_page_align_up_def by (simp add: mask_eq_exp_minus_1 add.commute)
  ultimately show ?thesis by (simp only: unat_and_not_mask) simp
qed

lemma page_align_down_le: "elf_page_align_down v \<le> v"
  by (simp add: word_le_nat_alt unat_elf_page_align_down)

lemma seg_end_unat:
  assumes "unat a + unat b + 4096 \<le> 2 ^ 64"
  shows "unat (a + b) = unat a + unat (b :: u64)"
  using assms by (subst unat_add_le) simp_all

lemma word_le_add_iff:
  fixes a b :: u64
  shows "a \<le> a + b \<longleftrightarrow> unat a + unat b < 18446744073709551616"
  using word_add_less_iff [of a b] by (simp add: not_less [symmetric])

lemma unat_page_limit: "unat (- 4096 :: u64) = 18446744073709547520"
proof -
  have "(- 4096 :: u64) = 18446744073709547520" by simp
  then show ?thesis by (simp only: unat_numeral) simp
qed

lemma seg_ok_nat: "seg_ok ph \<longleftrightarrow> unat (p_vaddr ph) + unat (p_memsz ph) + 4096 \<le> 2 ^ 64"
proof
  assume "seg_ok ph"
  then have "unat (p_vaddr ph) + unat (p_memsz ph) < 18446744073709551616"
    "unat (p_vaddr ph + p_memsz ph) \<le> 18446744073709547520"
    unfolding seg_ok_def word_le_add_iff by (simp_all add: word_le_nat_alt unat_page_limit)
  then show "unat (p_vaddr ph) + unat (p_memsz ph) + 4096 \<le> 2 ^ 64" by (simp add: unat_add_le)
next
  assume a: "unat (p_vaddr ph) + unat (p_memsz ph) + 4096 \<le> 2 ^ 64"
  then show "seg_ok ph"
    unfolding seg_ok_def word_le_add_iff by (simp add: word_le_nat_alt unat_page_limit seg_end_unat)
qed

section \<open>Encoded headers read back\<close>

lemma enc_lengths [simp]:
  "length (e_ident e) = 16 \<Longrightarrow> length (enc_ehdr e) = 64" "length (enc_phdr p) = 56"
  "length (enc_dyn d) = 16" "length (enc_rela r) = 24"
  by (simp_all add: enc_ehdr_def enc_phdr_def enc_dyn_def enc_rela_def)

lemma fld_append_skip: "length pre \<le> off \<Longrightarrow> fld (pre @ bs) off n = fld bs (off - length pre) n"
  by (simp add: fld_def)

lemma fld_le_bytes_0:
  fixes w :: "'a::len word"
  assumes "LENGTH('a) \<le> 8 * n"
  shows "fld (le_bytes n w @ post) 0 n = w" "fld (le_bytes n w) 0 n = w"
  using assms by (simp_all add: fld_def le_word_le_bytes)

lemma enc_round_trip:
  "phdr_of (enc_phdr p) = p" "dyn_of (enc_dyn d) = d" "rela_of (enc_rela r) = r"
  "length (e_ident e) = 16 \<Longrightarrow> ehdr_of (enc_ehdr e) = e"
  by (simp_all add: phdr_of_def enc_phdr_def dyn_of_def enc_dyn_def rela_of_def enc_rela_def
      ehdr_of_def enc_ehdr_def fld_append_skip fld_le_bytes_0)

lemma enc_phdrs_nth:
  "i < length phs \<Longrightarrow> take 56 (drop (i * 56) (concat (map enc_phdr phs) @ rest)) = enc_phdr (phs ! i)"
proof (induction phs arbitrary: i)
  case (Cons ph phs)
  then show ?case by (cases i) simp_all
qed simp

lemma length_enc_phdrs: "length (concat (map enc_phdr phs)) = length phs * 56"
  by (induction phs) simp_all

lemma takeWhile_all: "(\<And>x. x \<in> set xs \<Longrightarrow> P x) \<Longrightarrow> takeWhile P xs = xs"
  by (simp add: takeWhile_eq_all_conv)

lemma enc_image_table:
  assumes e: "length (e_ident e) = 16" "e_phoff e = 64" "e_phentsize e = 56" "unat (e_phnum e) = length phs"
    and n: "unat n = length (enc_image e phs rest)"
  shows "ehdr (enc_image e phs rest) = e" "phdr_table (enc_image e phs rest) n e = phs"
    "image_ok (enc_image e phs rest) n"
proof -
  show eh: "ehdr (enc_image e phs rest) = e"
    using e(1) by (simp add: ehdr_def enc_image_def enc_round_trip)
  show "image_ok (enc_image e phs rest) n" using n e(2) by (simp add: image_ok_def eh)
  have "64 + i * 56 + 56 \<le> unat n" if "i < length phs" for i
  proof -
    have "Suc i * 56 \<le> length phs * 56" using that by (intro mult_le_mono1) simp
    then show ?thesis using n e(1) by (simp add: enc_image_def length_enc_phdrs)
  qed
  then have "takeWhile (\<lambda>i. unat (e_phoff e) + i * unat (e_phentsize e) + 56 \<le> unat n) (phdr_indices e) =
      [0..<length phs]"
    using e by (subst takeWhile_all) (simp_all add: phdr_indices_def)
  moreover have "map (\<lambda>i. phdr_of (take 56 (drop (64 + i * 56) (enc_image e phs rest)))) [0..<length phs] = phs"
  proof (intro nth_equalityI)
    fix i assume "i < length (map (\<lambda>i. phdr_of (take 56 (drop (64 + i * 56) (enc_image e phs rest)))) [0..<length phs])"
    then have i: "i < length phs" by simp
    have "drop (64 + i * 56) (enc_image e phs rest) = drop (i * 56) (concat (map enc_phdr phs) @ rest)"
      using e(1) by (simp add: enc_image_def del: drop_append) (simp add: drop_append)
    then show "map (\<lambda>i. phdr_of (take 56 (drop (64 + i * 56) (enc_image e phs rest)))) [0..<length phs] ! i =
        phs ! i"
      using i enc_phdrs_nth [OF i, of rest] by (simp add: enc_round_trip del: take_append drop_append)
  qed simp
  ultimately show "phdr_table (enc_image e phs rest) n e = phs" using e by (simp add: phdr_table_def)
qed

end
