(* ===== verification/Elf_Dynamic.thy ===== *)
theory Elf_Dynamic
  imports Elf_Image
begin

text \<open>
  The helpers for dynamically linked images, \<^verbatim>\<open>loader/elf_dynamic.rs\<close>: library
  paths in the initial archive, the interpreter of an image, the names of the
  libraries it needs, the location of its program headers and the layout of a
  shared library.  Lengths of slices are naturals; a pointer result is an offset
  into the image, \<^const>\<open>None\<close> inside the result when the code returns null or
  \<open>None\<close>.
\<close>

section \<open>Library paths\<close>

definition INITRD_LIB_PREFIX :: "u8 list" where
  "INITRD_LIB_PREFIX = [0x6C, 0x69, 0x62, 0x2F]"

definition DEFAULT_RTLD_SONAME :: "u8 list" where
  "DEFAULT_RTLD_SONAME = [0x6C, 0x64, 0x2D, 0x74, 0x72, 0x6F, 0x6E, 0x61, 0x2E, 0x73, 0x6F]"

definition build_initrd_lib_path :: "u8 list \<Rightarrow> u8 list \<Rightarrow> nat \<times> u8 list" where
  "build_initrd_lib_path soname dst =
     (let len = length INITRD_LIB_PREFIX + length soname
      in if length dst < len then (0, dst)
         else (len, put_slice (put_slice dst 0 INITRD_LIB_PREFIX) (length INITRD_LIB_PREFIX) soname))"

definition resolve_interp_to_cpio_path :: "u8 list \<Rightarrow> u8 list \<Rightarrow> nat \<times> u8 list" where
  "resolve_interp_to_cpio_path interp dst =
     (if interp = [] then build_initrd_lib_path DEFAULT_RTLD_SONAME dst
      else if hd interp = 0x2F
      then let stripped = tl interp
           in if length dst < length stripped then (0, dst)
              else (length stripped, put_slice dst 0 stripped)
      else if list_ex (\<lambda>b. b = 0x2F) interp
      then if length dst < length interp then (0, dst)
           else (length interp, put_slice dst 0 interp)
      else build_initrd_lib_path interp dst)"

section \<open>The interpreter\<close>

definition elf_has_interp :: "mem \<Rightarrow> u64 \<Rightarrow> bool option" where
  "elf_has_interp m elf_size =
     (if elf_size < 64 then Some False
      else do {
        e \<leftarrow> read_ehdr m 0;
        r \<leftarrow> phdr_find m elf_size e (\<lambda>ph. p_type ph = PT_INTERP);
        Some (r \<noteq> None) })"

definition elf_get_interp :: "mem \<Rightarrow> u64 \<Rightarrow> u64 option option" where
  "elf_get_interp m elf_size =
     (if elf_size < 64 then Some None
      else do {
        e \<leftarrow> read_ehdr m 0;
        r \<leftarrow> phdr_find m elf_size e (\<lambda>ph. p_type ph = PT_INTERP);
        Some (case r of
                None \<Rightarrow> None
              | Some ph \<Rightarrow> if elf_size < p_offset ph + p_filesz ph then None else Some (p_offset ph)) })"

section \<open>Needed libraries\<close>

abbreviation (input) MAX_NEEDED_LIBS :: nat where "MAX_NEEDED_LIBS \<equiv> 12"
abbreviation (input) MAX_NEEDED_NAME :: nat where "MAX_NEEDED_NAME \<equiv> 24"

record NeededLibs =
  nl_count :: nat
  nl_names :: "u8 list list"
  nl_name_lens :: "nat list"

definition NeededLibs_new :: NeededLibs where
  "NeededLibs_new =
     \<lparr>nl_count = 0, nl_names = replicate MAX_NEEDED_LIBS (replicate MAX_NEEDED_NAME 0),
      nl_name_lens = replicate MAX_NEEDED_LIBS 0\<rparr>"

text \<open>The stores that \<open>add\<close> and \<open>elf_get_needed\<close> both make once there is room.\<close>

definition needed_push :: "NeededLibs \<Rightarrow> u8 list \<Rightarrow> NeededLibs" where
  "needed_push l name =
     (let copy_len = (if MAX_NEEDED_NAME < length name then MAX_NEEDED_NAME else length name);
          idx = nl_count l
      in \<lparr>nl_count = idx + 1,
          nl_names = (nl_names l)
            [idx := fold (\<lambda>j row. row[j := name ! j]) [0..<copy_len] (nl_names l ! idx)],
          nl_name_lens = (nl_name_lens l)[idx := copy_len]\<rparr>)"

definition NeededLibs_add :: "NeededLibs \<Rightarrow> u8 list \<Rightarrow> bool \<times> NeededLibs" where
  "NeededLibs_add l name =
     (if MAX_NEEDED_LIBS \<le> nl_count l then (False, l) else (True, needed_push l name))"

definition NeededLibs_contains :: "NeededLibs \<Rightarrow> u8 list \<Rightarrow> bool" where
  "NeededLibs_contains l name =
     list_ex (\<lambda>i. nl_name_lens l ! i = length name \<and>
                  list_all (\<lambda>j. nl_names l ! i ! j = name ! j) [0..<length name]) [0..<nl_count l]"

definition elf_va_to_file_offset :: "mem \<Rightarrow> u64 \<Rightarrow> Elf64Ehdr \<Rightarrow> u64 \<Rightarrow> u64 option option" where
  "elf_va_to_file_offset m elf_size e va =
     do { r \<leftarrow> phdr_find m elf_size e
                (\<lambda>ph. p_type ph = PT_LOAD \<and> p_vaddr ph \<le> va \<and> va < p_vaddr ph + p_filesz ph \<and>
                      va - p_vaddr ph + p_offset ph < elf_size);
          Some (map_option (\<lambda>ph. va - p_vaddr ph + p_offset ph) r) }"

fun dyn_strtab :: "mem \<Rightarrow> u64 \<Rightarrow> nat list \<Rightarrow> u64 option" where
  "dyn_strtab m dyn_offset [] = Some 0"
| "dyn_strtab m dyn_offset (i # is) =
     do { d \<leftarrow> read_dyn m (unat dyn_offset + 16 * i);
          if d_tag d = DT_NULL then Some 0
          else if d_tag d = DT_STRTAB then Some (d_val d)
          else dyn_strtab m dyn_offset is }"

text \<open>The length of the NUL-terminated name, cut at the end of the image.\<close>

partial_function (option) name_length :: "mem \<Rightarrow> u64 \<Rightarrow> u64 \<Rightarrow> u64 \<Rightarrow> u64 option" where
  "name_length m elf_size name_off len =
     (if name_off + len < elf_size
      then do { b \<leftarrow> read_u8 m (unat name_off + unat len);
                if b \<noteq> 0 then name_length m elf_size name_off (len + 1) else Some len }
      else Some len)"

fun needed_loop :: "mem \<Rightarrow> u64 \<Rightarrow> u64 \<Rightarrow> u64 \<Rightarrow> nat list \<Rightarrow> NeededLibs \<Rightarrow> NeededLibs option" where
  "needed_loop m elf_size dyn_offset strtab_off [] l = Some l"
| "needed_loop m elf_size dyn_offset strtab_off (i # is) l =
     do { d \<leftarrow> read_dyn m (unat dyn_offset + 16 * i);
          if d_tag d = DT_NULL then Some l
          else if d_tag d = DT_NEEDED
          then let name_off = strtab_off + d_val d
               in if elf_size \<le> name_off then needed_loop m elf_size dyn_offset strtab_off is l
                  else do {
                    len \<leftarrow> name_length m elf_size name_off 0;
                    l' \<leftarrow> (if 0 < len \<and> nl_count l < MAX_NEEDED_LIBS
                          then map_option (needed_push l) (read_bytes m (unat name_off) (unat len))
                          else Some l);
                    needed_loop m elf_size dyn_offset strtab_off is l' }
          else needed_loop m elf_size dyn_offset strtab_off is l }"

definition elf_get_needed :: "mem \<Rightarrow> u64 \<Rightarrow> NeededLibs option" where
  "elf_get_needed m elf_size =
     (if elf_size < 64 then Some NeededLibs_new
      else do {
        e \<leftarrow> read_ehdr m 0;
        r \<leftarrow> phdr_find m elf_size e (\<lambda>ph. p_type ph = PT_DYNAMIC);
        case (case r of None \<Rightarrow> (0, 0) | Some ph \<Rightarrow> (p_offset ph, p_filesz ph)) of
          (dyn_offset, dyn_size) \<Rightarrow>
            if dyn_offset = 0 \<or> elf_size < dyn_offset + dyn_size then Some NeededLibs_new
            else let dyn_count = unat (dyn_size div 16)
                 in do {
                   strtab_va \<leftarrow> dyn_strtab m dyn_offset [0..<dyn_count];
                   if strtab_va = 0 then Some NeededLibs_new
                   else do {
                     so \<leftarrow> elf_va_to_file_offset m elf_size e strtab_va;
                     case so of
                       None \<Rightarrow> Some NeededLibs_new
                     | Some strtab_off \<Rightarrow>
                         needed_loop m elf_size dyn_offset strtab_off [0..<dyn_count] NeededLibs_new } } })"

section \<open>Where the program headers are mapped\<close>

text \<open>
  The loop state: lowest address of a loadable segment, address from
  \<open>PT_PHDR\<close>, address from the segment that contains the table.  The inner
  option is the \<open>?\<close> of the checked operations.
\<close>

fun phdr_vaddr_loop ::
  "mem \<Rightarrow> nat \<Rightarrow> u64 \<Rightarrow> u64 \<Rightarrow> u64 \<Rightarrow> u64 \<Rightarrow> nat list \<Rightarrow> u64 \<times> u64 option \<times> u64 option \<Rightarrow>
   (u64 \<times> u64 option \<times> u64 option) option option"
where
  "phdr_vaddr_loop m ptr phentsz bytes_len phoff file_end [] s = Some (Some s)"
| "phdr_vaddr_loop m ptr phentsz bytes_len phoff file_end (i # is) s =
     (case checked_mul (of_nat i) phentsz of
        None \<Rightarrow> Some None
      | Some off \<Rightarrow>
          if bytes_len < off + 56 then Some (Some s)
          else do {
            ph \<leftarrow> read_phdr m (ptr + unat off);
            case s of (min_load, from_phdr, from_load) \<Rightarrow>
              if p_type ph = PT_LOAD
              then case checked_add (p_offset ph) (p_filesz ph) of
                     None \<Rightarrow> Some None
                   | Some seg_file_end \<Rightarrow>
                       phdr_vaddr_loop m ptr phentsz bytes_len phoff file_end is
                         (if p_vaddr ph < min_load then p_vaddr ph else min_load, from_phdr,
                          if p_offset ph \<le> phoff \<and> file_end \<le> seg_file_end
                          then Some (p_vaddr ph + (phoff - p_offset ph)) else from_load)
              else phdr_vaddr_loop m ptr phentsz bytes_len phoff file_end is
                     (min_load, if p_type ph = PT_PHDR then Some (p_vaddr ph) else from_phdr, from_load) })"

definition elf_compute_phdr_elf_vaddr ::
  "mem \<Rightarrow> nat \<Rightarrow> u64 \<Rightarrow> u64 \<Rightarrow> u64 \<Rightarrow> u64 \<Rightarrow> (u64 \<times> u64) option option" where
  "elf_compute_phdr_elf_vaddr m ptr phnum phentsz bytes_len phoff =
     (case checked_mul phnum phentsz of
        None \<Rightarrow> Some None
      | Some table_size \<Rightarrow>
          (case checked_add phoff table_size of
             None \<Rightarrow> Some None
           | Some file_end \<Rightarrow>
               do { r \<leftarrow> phdr_vaddr_loop m ptr phentsz bytes_len phoff file_end [0..<unat phnum]
                          (- 1, None, None);
                    Some (case r of
                            None \<Rightarrow> None
                          | Some (min_load, from_phdr, from_load) \<Rightarrow>
                              if min_load = - 1 then None
                              else (case from_phdr of
                                      Some v \<Rightarrow> Some (v, min_load)
                                    | None \<Rightarrow> map_option (\<lambda>v. (v, min_load)) from_load)) }))"

definition elf_get_phdr_load_offset ::
  "mem \<Rightarrow> nat \<Rightarrow> u64 \<Rightarrow> u64 \<Rightarrow> u64 \<Rightarrow> u64 \<Rightarrow> u64 option option" where
  "elf_get_phdr_load_offset m ptr phnum phentsz bytes_len phoff =
     do { r \<leftarrow> elf_compute_phdr_elf_vaddr m ptr phnum phentsz bytes_len phoff;
          Some (map_option (\<lambda>(v, min_load). v - min_load) r) }"

text \<open>The three outputs of \<open>elf_get_phdr_info\<close>, or \<^const>\<open>None\<close> for \<open>-1\<close>.\<close>

definition elf_get_phdr_info :: "mem \<Rightarrow> u64 \<Rightarrow> u64 \<Rightarrow> (u64 \<times> u64 \<times> u64) option option" where
  "elf_get_phdr_info m elf_size load_base =
     (if elf_size < 64 then Some None
      else do {
        e \<leftarrow> read_ehdr m 0;
        case checked_mul (ucast (e_phnum e)) (ucast (e_phentsize e) :: u64) of
          None \<Rightarrow> Some None
        | Some bytes_len \<Rightarrow>
            if bytes_len = 0 \<or> elf_size < e_phoff e + bytes_len then Some None
            else do {
              r \<leftarrow> elf_get_phdr_load_offset m (unat (e_phoff e)) (ucast (e_phnum e))
                     (ucast (e_phentsize e)) bytes_len (e_phoff e);
              Some (map_option (\<lambda>load_off.
                      (load_base + load_off, ucast (e_phentsize e), ucast (e_phnum e))) r) } })"

section \<open>Layout of a shared library\<close>

record ElfLibInfo =
  li_min_vaddr :: u64
  li_lib_span :: u64
  li_phnum :: u16

definition lib_step :: "Elf64Phdr \<Rightarrow> u64 \<times> u64 \<Rightarrow> u64 \<times> u64" where
  "lib_step ph s =
     (case s of (min_vaddr, max_seg_end) \<Rightarrow>
        if p_type ph = PT_LOAD
        then let se = (p_vaddr ph + p_memsz ph + 0xFFF) AND NOT 0xFFF
             in (if p_vaddr ph < min_vaddr then p_vaddr ph else min_vaddr,
                 if max_seg_end < se then se else max_seg_end)
        else s)"

definition elf_compute_lib_info :: "mem \<Rightarrow> u64 \<Rightarrow> ElfLibInfo option option" where
  "elf_compute_lib_info m elf_size =
     (if elf_size < 64 then Some None
      else do {
        e \<leftarrow> read_ehdr m 0;
        if \<not> is_elf e then Some None
        else if e_type e \<noteq> ET_DYN then Some None
        else do {
          s \<leftarrow> phdr_fold m elf_size e lib_step (- 1, 0);
          case s of (min_vaddr, max_seg_end) \<Rightarrow>
            Some (if min_vaddr = - 1 then None
                  else Some \<lparr>li_min_vaddr = min_vaddr,
                             li_lib_span = max_seg_end - (min_vaddr AND NOT 0xFFF),
                             li_phnum = e_phnum e\<rparr>) } })"

section \<open>Specification\<close>

text \<open>The list that a \<open>NeededLibs\<close> stands for.\<close>

definition needed_wf :: "NeededLibs \<Rightarrow> bool" where
  "needed_wf l \<longleftrightarrow>
     length (nl_names l) = 12 \<and> (\<forall>i<12. length (nl_names l ! i) = 24) \<and> length (nl_name_lens l) = 12 \<and>
     nl_count l \<le> 12 \<and> (\<forall>i<12. nl_name_lens l ! i \<le> 24)"

definition needed_view :: "NeededLibs \<Rightarrow> u8 list list" where
  "needed_view l = map (\<lambda>i. take (nl_name_lens l ! i) (nl_names l ! i)) [0..<nl_count l]"

definition needed_put :: "u8 list \<Rightarrow> NeededLibs \<Rightarrow> NeededLibs" where
  "needed_put name l = (if nl_count l < 12 then needed_push l name else l)"

text \<open>The string at an offset, cut at the end of the image, and the entries of a dynamic section.\<close>

definition c_string :: "mem \<Rightarrow> u64 \<Rightarrow> nat \<Rightarrow> u8 list" where
  "c_string m n a = takeWhile (\<lambda>b. b \<noteq> 0) (drop a (take (unat n) m))"

definition dyn_entry :: "mem \<Rightarrow> u64 \<Rightarrow> nat \<Rightarrow> Elf64Dyn" where
  "dyn_entry m off i = dyn_of (take 16 (drop (unat off + 16 * i) m))"

definition dyn_entries :: "mem \<Rightarrow> u64 \<Rightarrow> nat list \<Rightarrow> Elf64Dyn list" where
  "dyn_entries m off is = takeWhile (\<lambda>d. d_tag d \<noteq> 0) (map (dyn_entry m off) is)"

definition needed_strings :: "mem \<Rightarrow> u64 \<Rightarrow> u64 \<Rightarrow> Elf64Dyn list \<Rightarrow> u8 list list" where
  "needed_strings m n strtab_off ds =
     filter (\<lambda>s. s \<noteq> [])
       (map (\<lambda>d. c_string m n (unat (strtab_off + d_val d)))
         (filter (\<lambda>d. d_tag d = DT_NEEDED \<and> strtab_off + d_val d < n) ds))"

definition file_offset_spec :: "Elf64Phdr list \<Rightarrow> u64 \<Rightarrow> u64 \<Rightarrow> u64 option" where
  "file_offset_spec phs n va =
     map_option (\<lambda>ph. va - p_vaddr ph + p_offset ph)
       (find (\<lambda>ph. p_type ph = PT_LOAD \<and> p_vaddr ph \<le> va \<and> va < p_vaddr ph + p_filesz ph \<and>
                   va - p_vaddr ph + p_offset ph < n) phs)"

definition needed_spec :: "mem \<Rightarrow> u64 \<Rightarrow> u8 list list" where
  "needed_spec m n =
     (let phs = phdr_table m n (ehdr m)
      in case find (\<lambda>ph. p_type ph = PT_DYNAMIC) phs of
           None \<Rightarrow> []
         | Some dyn \<Rightarrow>
             if p_offset dyn = 0 \<or> unat n < unat (p_offset dyn) + unat (p_filesz dyn) then []
             else let ds = dyn_entries m (p_offset dyn) [0..<unat (p_filesz dyn) div 16]
                  in case find (\<lambda>d. d_tag d = DT_STRTAB) ds of
                       None \<Rightarrow> []
                     | Some st \<Rightarrow>
                         if d_val st = 0 then []
                         else (case file_offset_spec phs n (d_val st) of
                                 None \<Rightarrow> []
                               | Some off \<Rightarrow> needed_strings m n off ds))"

text \<open>The dynamic segment of the image does not wrap around the address space.\<close>

definition dynamic_ok :: "mem \<Rightarrow> u64 \<Rightarrow> bool" where
  "dynamic_ok m n \<longleftrightarrow>
     (\<forall>ph\<in>set (phdr_table m n (ehdr m)). p_type ph = PT_DYNAMIC \<longrightarrow>
        p_offset ph \<le> p_offset ph + p_filesz ph)"

text \<open>A library of one loadable segment that needs one other library.\<close>

definition sample_lib :: mem where
  "sample_lib =
     enc_image (plain_ehdr ET_DYN 0 64 2)
       [plain_phdr PT_LOAD 5 0 0 233 233, plain_phdr PT_DYNAMIC 4 176 176 48 48]
       (enc_dyn \<lparr>d_tag = DT_STRTAB, d_val = 224\<rparr> @ enc_dyn \<lparr>d_tag = DT_NEEDED, d_val = 1\<rparr> @
        enc_dyn \<lparr>d_tag = DT_NULL, d_val = 0\<rparr> @ [0, 0x6C, 0x69, 0x62, 0x63, 0x2E, 0x73, 0x6F, 0])"

text \<open>A program with a \<open>PT_PHDR\<close> entry and one loadable segment.\<close>

definition sample_prog :: mem where
  "sample_prog =
     enc_image (plain_ehdr ET_DYN 0 64 2)
       [plain_phdr PT_PHDR 4 64 0x1040 112 112, plain_phdr PT_LOAD 5 0 0x1000 176 176] []"

text \<open>An image of 64 bytes whose header table starts 8 bytes before the image.\<close>

definition wrapped_image :: mem where
  "wrapped_image = enc_ehdr (plain_ehdr ET_DYN 0 (- 8) 1)"

section \<open>The list of needed libraries\<close>

lemma needed_new: "needed_wf NeededLibs_new" "needed_view NeededLibs_new = []"
  by (simp_all add: needed_wf_def needed_view_def NeededLibs_new_def)

lemma needed_push_row:
  assumes "length row = 24"
  shows "fold (\<lambda>j row. row[j := name ! j]) [0..<min 24 (length name)] row =
    take 24 name @ drop (length name) row"
proof -
  have "fold (\<lambda>j row. row[0 + j := name ! j]) [0..<min 24 (length name)] row =
      take 0 row @ map ((!) name) [0..<min 24 (length name)] @ drop (0 + min 24 (length name)) row"
    by (rule fold_list_update_eq) (simp add: assms)
  moreover have "map ((!) name) [0..<min 24 (length name)] = take 24 name"
    by (intro nth_equalityI) simp_all
  moreover have "drop (min 24 (length name)) row = drop (length name) row"
    using assms by (cases "length name \<le> 24") (simp_all add: min_def)
  ultimately show ?thesis by simp
qed

lemma needed_push_fields:
  assumes "needed_wf l" "nl_count l < 12"
  shows "nl_count (needed_push l name) = Suc (nl_count l)"
    "nl_name_lens (needed_push l name) = (nl_name_lens l)[nl_count l := min 24 (length name)]"
    "nl_names (needed_push l name) =
       (nl_names l)[nl_count l := take 24 name @ drop (length name) (nl_names l ! nl_count l)]"
proof -
  have r: "length (nl_names l ! nl_count l) = 24" using assms by (simp add: needed_wf_def)
  have c: "(if 24 < length name then 24 else length name) = min 24 (length name)" by simp
  show "nl_count (needed_push l name) = Suc (nl_count l)"
    "nl_name_lens (needed_push l name) = (nl_name_lens l)[nl_count l := min 24 (length name)]"
    "nl_names (needed_push l name) =
       (nl_names l)[nl_count l := take 24 name @ drop (length name) (nl_names l ! nl_count l)]"
    unfolding needed_push_def Let_def c needed_push_row [OF r] by simp_all
qed

lemma needed_push_view:
  assumes "needed_wf l" "nl_count l < 12"
  shows "needed_wf (needed_push l name)"
    "needed_view (needed_push l name) = needed_view l @ [take 24 name]"
proof -
  note f = needed_push_fields [OF assms, of name]
  have len: "length (take 24 name @ drop (length name) (nl_names l ! nl_count l)) = 24"
    using assms by (simp add: needed_wf_def)
  show "needed_wf (needed_push l name)"
    using assms len by (auto simp: needed_wf_def f nth_list_update)
  have "take (min 24 (length name)) (take 24 name @ drop (length name) (nl_names l ! nl_count l)) = take 24 name"
    by (simp add: min_def)
  then show "needed_view (needed_push l name) = needed_view l @ [take 24 name]"
    using assms by (simp add: needed_view_def f needed_wf_def)
qed

lemma needed_contains_view:
  assumes "needed_wf l"
  shows "NeededLibs_contains l name \<longleftrightarrow> name \<in> set (needed_view l)"
proof -
  have "nl_name_lens l ! i = length name \<and> (\<forall>j<length name. nl_names l ! i ! j = name ! j) \<longleftrightarrow>
      take (nl_name_lens l ! i) (nl_names l ! i) = name" if "i < nl_count l" for i
  proof -
    have "nl_name_lens l ! i \<le> length (nl_names l ! i)" using that assms by (simp add: needed_wf_def)
    then show ?thesis by (auto simp: list_eq_iff_nth_eq)
  qed
  then have "NeededLibs_contains l name \<longleftrightarrow>
      (\<exists>i<nl_count l. take (nl_name_lens l ! i) (nl_names l ! i) = name)"
    by (simp add: NeededLibs_contains_def list_ex_iff list_all_iff Bex_def Ball_def cong: conj_cong)
  also have "\<dots> \<longleftrightarrow> name \<in> set (needed_view l)" by (auto simp: needed_view_def)
  finally show ?thesis .
qed

lemma needed_put_fold:
  assumes "needed_wf l"
  shows "needed_wf (fold needed_put ss l) \<and>
    needed_view (fold needed_put ss l) = take 12 (needed_view l @ map (take 24) ss)"
  using assms
proof (induction ss arbitrary: l)
  case Nil
  then show ?case by (simp add: needed_view_def needed_wf_def)
next
  case (Cons s ss)
  show ?case
  proof (cases "nl_count l < 12")
    case True
    then have "length (needed_view l) < 12" by (simp add: needed_view_def)
    then have "12 - length (needed_view l) = Suc (11 - length (needed_view l))" by linarith
    then have "take (12 - length (needed_view l)) (take 24 s # xs) =
        take 24 s # take (11 - length (needed_view l)) xs" for xs
      by simp
    with True Cons needed_push_view [OF Cons.prems True, of s] show ?thesis by (simp add: needed_put_def)
  next
    case False
    then have "length (needed_view l) = 12" using Cons.prems by (simp add: needed_view_def needed_wf_def)
    with False Cons show ?thesis by (simp add: needed_put_def)
  qed
qed

section \<open>Reading the dynamic section\<close>

lemma dyn_strtab_eq:
  assumes "\<forall>i\<in>set is. unat off + 16 * i + 16 \<le> length m"
  shows "dyn_strtab m off is =
    Some (case find (\<lambda>d. d_tag d = DT_STRTAB) (dyn_entries m off is) of None \<Rightarrow> 0 | Some d \<Rightarrow> d_val d)"
  using assms
  by (induction "is") (simp_all add: dyn_entries_def read_dyn_Some dyn_entry_def)

lemma c_string_step:
  assumes "a < unat n" "unat n \<le> length m"
  shows "c_string m n a = (if m ! a = 0 then [] else m ! a # c_string m n (Suc a))"
proof -
  have "drop a (take (unat n) m) = m ! a # drop (Suc a) (take (unat n) m)"
    using assms by (subst Cons_nth_drop_Suc [symmetric]) simp_all
  then show ?thesis by (simp add: c_string_def)
qed

lemma c_string_end: "unat n \<le> a \<Longrightarrow> c_string m n a = []"
  by (simp add: c_string_def)

lemma c_string_length: "length (c_string m n a) \<le> unat n - a"
  unfolding c_string_def by (rule order_trans [OF length_takeWhile_le]) simp

lemma name_length_eq:
  assumes "unat n \<le> length m" "unat off + unat len \<le> unat n"
  shows "name_length m n off len = Some (len + of_nat (length (c_string m n (unat off + unat len))))"
  using assms(2)
proof (induction "unat n - (unat off + unat len)" arbitrary: len rule: less_induct)
  case less
  have s: "unat (off + len) = unat off + unat len"
    using less.prems le_less_trans [OF less.prems unat_lt64 [of n]] by (intro unat_add_le) simp
  show ?case
  proof (cases "unat off + unat len < unat n")
    case True
    then have lt: "off + len < n" using s by (simp add: word_less_nat_alt)
    have l1: "unat (len + 1) = unat len + 1"
    proof -
      have "unat len + 1 < 18446744073709551616" using True unat_lt64 [of n] by linarith
      then show ?thesis by (subst unat_add_le) simp_all
    qed
    have r: "read_u8 m (unat off + unat len) = Some (m ! (unat off + unat len))"
      using True assms(1) by (simp add: read_u8_def)
    have "name_length m n off (len + 1) =
        Some (len + 1 + of_nat (length (c_string m n (unat off + unat (len + 1)))))"
      by (rule less.hyps) (use True l1 in simp_all)
    then show ?thesis
      using lt r l1 c_string_step [OF True assms(1)] by (subst name_length.simps) (simp add: ac_simps)
  next
    case False
    then have "\<not> off + len < n" using s by (simp add: word_less_nat_alt)
    with False show ?thesis by (subst name_length.simps) (simp add: c_string_end)
  qed
qed

lemma read_c_string:
  assumes "unat n \<le> length m" "a \<le> unat n"
  shows "read_bytes m a (length (c_string m n a)) = Some (c_string m n a)"
proof -
  let ?s = "c_string m n a"
  have "a + length ?s \<le> length m" using assms c_string_length [of m n a] by simp
  moreover have "take (length ?s) (drop a m) = ?s"
  proof -
    have "?s = take (length ?s) (drop a (take (unat n) m))"
      unfolding c_string_def by (rule takeWhile_eq_take [THEN trans]) (simp add: c_string_def)
    also have "\<dots> = take (length ?s) (drop a m)"
      using c_string_length [of m n a] by (simp add: drop_take min_def)
    finally show ?thesis by simp
  qed
  ultimately show ?thesis by (simp add: read_bytes_def)
qed

lemma needed_loop_eq:
  assumes "unat n \<le> length m" "\<forall>i\<in>set is. unat off + 16 * i + 16 \<le> length m"
  shows "needed_loop m n off so is l =
    Some (fold needed_put (needed_strings m n so (dyn_entries m off is)) l)"
  using assms(2)
proof (induction "is" arbitrary: l)
  case Nil
  then show ?case by (simp add: needed_strings_def dyn_entries_def)
next
  case (Cons i "is")
  let ?d = "dyn_entry m off i" and ?a = "so + d_val (dyn_entry m off i)"
  let ?s = "c_string m n (unat ?a)"
  have rd: "read_dyn m (unat off + 16 * i) = Some ?d"
    using Cons.prems by (simp add: read_dyn_Some dyn_entry_def)
  have len: "unat (of_nat (length ?s) :: u64) = length ?s"
    using c_string_length [of m n "unat ?a"] unat_lt64 [of n] by (intro unat_of_nat_lt64) linarith
  have put: "(if 0 < (of_nat (length ?s) :: u64) \<and> nl_count l < 12
        then map_option (needed_push l) (read_bytes m (unat ?a) (unat (of_nat (length ?s) :: u64)))
        else Some l) = Some (if ?s = [] then l else needed_put ?s l)" if "?a < n"
    using that read_c_string [OF assms(1), of "unat ?a"] len
    by (cases "?s = []") (simp_all add: needed_put_def word_less_nat_alt)
  have nl: "name_length m n ?a 0 = Some (of_nat (length ?s))" if "?a < n"
    using that name_length_eq [OF assms(1), of ?a 0] by (simp add: word_less_nat_alt)
  show ?case
    using Cons put nl rd
    by (auto simp: Let_def needed_strings_def dyn_entries_def not_less)
qed

section \<open>The inspection functions on a well-formed image\<close>

lemma elf_va_to_file_offset_table:
  "image_ok m n \<Longrightarrow> elf_va_to_file_offset m n (ehdr m) va = Some (file_offset_spec (phdr_table m n (ehdr m)) n va)"
  by (simp add: elf_va_to_file_offset_def phdr_find_table file_offset_spec_def)

lemma elf_get_needed_eq:
  assumes img: "image_ok m n" and n: "64 \<le> n" and dyn: "dynamic_ok m n"
  shows "elf_get_needed m n = Some (fold needed_put (needed_spec m n) NeededLibs_new)"
proof -
  have l: "unat n \<le> length m" using img by (simp add: image_ok_def)
  have "64 \<le> unat n" using n by (simp add: word_le_nat_alt)
  then have e: "read_ehdr m 0 = Some (ehdr m)" "\<not> unat n < 64" using l by (auto intro: read_ehdr_0)
  show ?thesis
  proof (cases "find (\<lambda>ph. p_type ph = PT_DYNAMIC) (phdr_table m n (ehdr m))")
    case None
    with n e img show ?thesis by (simp add: elf_get_needed_def phdr_find_table needed_spec_def)
  next
    case (Some ph)
    then have ph: "ph \<in> set (phdr_table m n (ehdr m))" "p_type ph = PT_DYNAMIC"
      by (auto simp: find_Some_iff)
    with dyn have sum: "unat (p_offset ph + p_filesz ph) = unat (p_offset ph) + unat (p_filesz ph)"
      by (intro unat_add_le) (auto simp: dynamic_ok_def word_le_add_iff)
    have cnt: "unat (p_filesz ph div 16) = unat (p_filesz ph) div 16" by (simp add: unat_div)
    show ?thesis
    proof (cases "p_offset ph = 0 \<or> unat n < unat (p_offset ph) + unat (p_filesz ph)")
      case True
      with Some n e img sum show ?thesis
        by (auto simp: elf_get_needed_def phdr_find_table needed_spec_def word_less_nat_alt)
    next
      case False
      have is_ok: "\<forall>i\<in>set [0..<unat (p_filesz ph) div 16]. unat (p_offset ph) + 16 * i + 16 \<le> length m"
        using False l by auto
      show ?thesis
        using Some n e img sum False
        by (simp add: elf_get_needed_def phdr_find_table needed_spec_def word_less_nat_alt cnt
            dyn_strtab_eq [OF is_ok] needed_loop_eq [OF l is_ok] elf_va_to_file_offset_table Let_def
            split: option.split)
    qed
  qed
qed

lemma lib_end_eq: "(a + 0xFFF) AND NOT 0xFFF = elf_page_align_up a"
  by (simp add: elf_page_align_up_def add.commute add_diff_eq [symmetric])

lemma page_align_up_mono:
  assumes "a \<le> b" "unat b + 4096 \<le> 2 ^ 64"
  shows "elf_page_align_up a \<le> elf_page_align_up b"
  using assms by (simp add: word_le_nat_alt unat_elf_page_align_up div_le_mono)

lemma page_align_up_ge:
  assumes "unat b + 4096 \<le> 2 ^ 64"
  shows "unat b \<le> unat (elf_page_align_up b)"
  using assms by (simp add: unat_elf_page_align_up)

lemma span_fold_filter:
  "fold span_step phs s = fold span_step (filter (\<lambda>ph. p_type ph = PT_LOAD) phs) s"
  "fold lib_step phs s = fold lib_step (filter (\<lambda>ph. p_type ph = PT_LOAD) phs) s"
  by (induction phs arbitrary: s) (auto simp: span_step_def lib_step_def split: prod.splits)

lemma lib_step_fold:
  assumes "\<forall>ph\<in>set segs. p_type ph = PT_LOAD \<and> seg_ok ph" "unat b + 4096 \<le> 2 ^ 64"
  shows "fold lib_step segs (a, elf_page_align_up b) =
    (fst (fold span_step segs (a, b)), elf_page_align_up (snd (fold span_step segs (a, b))))"
  using assms
proof (induction segs arbitrary: a b)
  case (Cons ph segs)
  let ?e = "p_vaddr ph + p_memsz ph"
  have e: "unat ?e + 4096 \<le> 2 ^ 64" using Cons.prems(1) by (simp add: seg_ok_nat seg_end_unat)
  have "lib_step ph (a, elf_page_align_up b) =
      (if p_vaddr ph < a then p_vaddr ph else a, elf_page_align_up (if b < ?e then ?e else b))"
    using Cons.prems e page_align_up_mono [of b ?e] page_align_up_mono [of ?e b]
    unfolding lib_step_def lib_end_eq Let_def by (auto simp: not_less)
  moreover have "span_step ph (a, b) = (if p_vaddr ph < a then p_vaddr ph else a, if b < ?e then ?e else b)"
    using Cons.prems by (simp add: span_step_def Let_def)
  ultimately show ?case using Cons.IH [of "if b < ?e then ?e else b"] Cons.prems e by simp
qed simp

lemma span_fold_bounds:
  assumes "\<forall>ph\<in>set segs. p_type ph = PT_LOAD \<and> seg_ok ph" "unat b + 4096 \<le> 2 ^ 64"
    "fold span_step segs (a, b) = (lo, hi)"
  shows "lo \<le> a \<and> b \<le> hi \<and> unat hi + 4096 \<le> 2 ^ 64 \<and> lo \<in> insert a (p_vaddr ` set segs) \<and>
    (\<forall>ph\<in>set segs. lo \<le> p_vaddr ph \<and> unat (p_vaddr ph) + unat (p_memsz ph) \<le> unat hi)"
  using assms
proof (induction segs arbitrary: a b)
  case (Cons ph segs)
  let ?e = "p_vaddr ph + p_memsz ph"
  let ?a = "if p_vaddr ph < a then p_vaddr ph else a" and ?b = "if b < ?e then ?e else b"
  have u: "unat ?e = unat (p_vaddr ph) + unat (p_memsz ph)" and e: "unat ?e + 4096 \<le> 2 ^ 64"
    using Cons.prems(1) by (simp_all add: seg_ok_nat seg_end_unat)
  have "span_step ph (a, b) = (?a, ?b)" using Cons.prems by (simp add: span_step_def Let_def)
  with Cons.prems e have IH: "lo \<le> ?a \<and> ?b \<le> hi \<and> unat hi + 4096 \<le> 2 ^ 64 \<and>
      lo \<in> insert ?a (p_vaddr ` set segs) \<and>
      (\<forall>ph\<in>set segs. lo \<le> p_vaddr ph \<and> unat (p_vaddr ph) + unat (p_memsz ph) \<le> unat hi)"
    by (intro Cons.IH) (auto split: if_splits)
  have "?a \<le> a" "?a \<le> p_vaddr ph" "b \<le> ?b" "?e \<le> ?b" by auto
  with IH u show ?case by (auto simp: word_le_nat_alt split: if_splits)
qed simp

lemma elf_span_value:
  assumes img: "image_ok m n" "64 \<le> n" "is_elf (ehdr m)" "e_type (ehdr m) = ET_DYN"
    and segs: "load_segments m n \<noteq> []" "\<forall>ph\<in>set (load_segments m n). seg_ok ph"
    and f: "fold span_step (load_segments m n) (- 1, 0) = (lo, hi)"
  shows "elf_compute_lib_info m n =
      Some (Some \<lparr>li_min_vaddr = lo, li_lib_span = elf_page_align_up hi - elf_page_align_down lo,
                  li_phnum = e_phnum (ehdr m)\<rparr>)"
    "elf_compute_load_span m n = Some (elf_page_align_up hi - elf_page_align_down lo)"
proof -
  let ?segs = "load_segments m n"
  have "unat n \<le> length m" "64 \<le> unat n" using img by (simp_all add: image_ok_def word_le_nat_alt)
  then have e: "read_ehdr m 0 = Some (ehdr m)" "\<not> n < 64"
    using img(2) by (auto intro: read_ehdr_0)
  have load: "\<forall>ph\<in>set ?segs. p_type ph = PT_LOAD \<and> seg_ok ph" using segs(2) by (simp add: load_segments_def)
  note b = span_fold_bounds [OF load _ f]
  from segs(1) obtain ph where ph: "ph \<in> set ?segs" by (cases ?segs) auto
  have "unat (p_vaddr ph) < 2 ^ 64 - 1" using load ph by (auto simp: seg_ok_nat)
  moreover have "unat lo \<le> unat (p_vaddr ph)" using b ph by (simp add: word_le_nat_alt)
  ultimately have lo: "lo \<noteq> - 1" by (auto simp: unsigned_minus_1_eq_mask mask_eq_exp_minus_1)
  have "elf_page_align_up (0 :: u64) = 0" by (simp add: elf_page_align_up_def)
  then have "fold lib_step ?segs (- 1, 0) = (lo, elf_page_align_up hi)"
    using lib_step_fold [OF load, of 0 "- 1"] f by simp
  with lo e img show "elf_compute_lib_info m n =
      Some (Some \<lparr>li_min_vaddr = lo, li_lib_span = elf_page_align_up hi - elf_page_align_down lo,
                  li_phnum = e_phnum (ehdr m)\<rparr>)"
    by (simp add: elf_compute_lib_info_def phdr_fold_table elf_page_align_down_def
        span_fold_filter(2) [of "phdr_table m n (ehdr m)", folded load_segments_def])
  have "hi = 0 \<Longrightarrow> lo = 0" using b ph by (auto simp: word_le_nat_alt unat_eq_0)
  then have "hi = 0 \<Longrightarrow> elf_page_align_up hi - elf_page_align_down lo = 0"
    by (simp add: elf_page_align_up_def elf_page_align_down_def)
  with lo e img f show "elf_compute_load_span m n = Some (elf_page_align_up hi - elf_page_align_down lo)"
    by (auto simp: elf_compute_load_span_def phdr_fold_table
        span_fold_filter(1) [of "phdr_table m n (ehdr m)", folded load_segments_def])
qed

section \<open>Interpreter paths\<close>

text \<open>
  The three spellings of an interpreter, absolute, relative to the archive and
  bare, resolve to the same path in every buffer.
\<close>

lemma interp_spellings_agree:
  assumes "x \<noteq> []" "0x2F \<notin> set x"
  shows "resolve_interp_to_cpio_path (0x2F # INITRD_LIB_PREFIX @ x) dst = build_initrd_lib_path x dst"
    "resolve_interp_to_cpio_path (INITRD_LIB_PREFIX @ x) dst = build_initrd_lib_path x dst"
    "resolve_interp_to_cpio_path x dst = build_initrd_lib_path x dst"
proof -
  have "hd x \<noteq> 0x2F" using assms by (cases x) auto
  then show "resolve_interp_to_cpio_path x dst = build_initrd_lib_path x dst"
    using assms by (auto simp: resolve_interp_to_cpio_path_def list_ex_iff)
  have pre: "length INITRD_LIB_PREFIX = 4" "INITRD_LIB_PREFIX \<noteq> []" "hd INITRD_LIB_PREFIX \<noteq> 0x2F"
    "list_ex (\<lambda>b. b = 0x2F) INITRD_LIB_PREFIX"
    by (simp_all add: INITRD_LIB_PREFIX_def)
  show "resolve_interp_to_cpio_path (0x2F # INITRD_LIB_PREFIX @ x) dst = build_initrd_lib_path x dst"
    "resolve_interp_to_cpio_path (INITRD_LIB_PREFIX @ x) dst = build_initrd_lib_path x dst"
    by (simp_all add: resolve_interp_to_cpio_path_def build_initrd_lib_path_def put_slice_def Let_def pre add.commute)
qed

section \<open>The address of the program headers\<close>

lemma phdr_vaddr_loop_result:
  assumes "phdr_vaddr_loop m ptr phentsz bytes_len phoff file_end is (lo0, fp0, fl0) = Some (Some (lo, fp, fl))"
    and "\<And>i. i \<in> set is \<Longrightarrow> \<exists>off. checked_mul (of_nat i) phentsz = Some off \<and> \<not> bytes_len < off + 56 \<and>
      read_phdr m (ptr + unat off) = Some (g i)"
  shows "fp = fold (\<lambda>ph r. if p_type ph = PT_PHDR then Some (p_vaddr ph) else r) (map g is) fp0 \<and>
    lo \<le> lo0 \<and> (\<forall>ph\<in>set (map g is). p_type ph = PT_LOAD \<longrightarrow> lo \<le> p_vaddr ph) \<and>
    (fl = fl0 \<or> (\<exists>ph\<in>set (map g is). p_type ph = PT_LOAD \<and> p_offset ph \<le> phoff \<and>
       unat file_end \<le> unat (p_offset ph) + unat (p_filesz ph) \<and>
       fl = Some (p_vaddr ph + (phoff - p_offset ph)))) \<and>
    (lo = lo0 \<or> (\<exists>ph\<in>set (map g is). p_type ph = PT_LOAD \<and> lo = p_vaddr ph))"
  using assms
proof (induction "is" arbitrary: lo0 fp0 fl0)
  case (Cons i "is")
  obtain off where off: "checked_mul (of_nat i) phentsz = Some off" "\<not> bytes_len < off + 56"
      "read_phdr m (ptr + unat off) = Some (g i)"
    using Cons.prems(2) [of i] by auto
  note IH = Cons.IH [OF _ Cons.prems(2) [OF list.set_intros(2)]]
  show ?case
  proof (cases "p_type (g i) = PT_LOAD")
    case True
    with Cons.prems(1) off obtain se where se: "checked_add (p_offset (g i)) (p_filesz (g i)) = Some se"
      by (auto split: option.splits)
    then have su: "unat se = unat (p_offset (g i)) + unat (p_filesz (g i))" by (simp add: checked_add_Some)
    define L where "L = (if p_vaddr (g i) < lo0 then p_vaddr (g i) else lo0)"
    define F where "F = (if p_offset (g i) \<le> phoff \<and> file_end \<le> se
        then Some (p_vaddr (g i) + (phoff - p_offset (g i))) else fl0)"
    have L: "L \<le> lo0" "L \<le> p_vaddr (g i)" "L = lo0 \<or> L = p_vaddr (g i)" by (auto simp: L_def)
    have F: "F = fl0 \<or> p_offset (g i) \<le> phoff \<and>
        unat file_end \<le> unat (p_offset (g i)) + unat (p_filesz (g i)) \<and>
        F = Some (p_vaddr (g i) + (phoff - p_offset (g i)))"
      unfolding F_def su [symmetric] by (auto simp: word_le_nat_alt)
    have "phdr_vaddr_loop m ptr phentsz bytes_len phoff file_end is (L, fp0, F) = Some (Some (lo, fp, fl))"
      using Cons.prems(1) off se True by (simp add: L_def F_def)
    note r = IH [OF this]
    then have "lo \<le> lo0" "lo \<le> p_vaddr (g i)" using L(1,2) by (meson order_trans)+
    with r L(3) F True show ?thesis by auto
  next
    case False
    with Cons.prems(1) off have "phdr_vaddr_loop m ptr phentsz bytes_len phoff file_end is
        (lo0, if p_type (g i) = PT_PHDR then Some (p_vaddr (g i)) else fp0, fl0) = Some (Some (lo, fp, fl))" by simp
    from IH [OF this] False show ?thesis by auto
  qed
qed simp

lemma fold_last_match:
  "fold (\<lambda>x r. if P x then Some (f x) else r) xs r0 =
     (if filter P xs = [] then r0 else Some (f (last (filter P xs))))"
  by (induction xs arbitrary: r0) auto

lemma phdr_entry_fits:
  assumes "i < (k :: nat)" "56 \<le> ent"
  shows "i * ent + 56 \<le> k * ent"
proof -
  have "Suc i * ent \<le> k * ent" using assms(1) by (intro mult_le_mono1) simp
  with assms(2) show ?thesis by simp
qed

lemma phdr_table_full:
  assumes "unat (e_phoff e) + unat (e_phnum e) * unat (e_phentsize e) \<le> unat n" "56 \<le> unat (e_phentsize e)"
  shows "phdr_table m n e =
    map (\<lambda>i. phdr_of (take 56 (drop (unat (e_phoff e) + i * unat (e_phentsize e)) m))) [0..<unat (e_phnum e)]"
  unfolding phdr_table_def
proof (subst takeWhile_all)
  fix i assume "i \<in> set (phdr_indices e)"
  then show "unat (e_phoff e) + i * unat (e_phentsize e) + 56 \<le> unat n"
    using phdr_entry_fits [OF _ assms(2), of i "unat (e_phnum e)"] assms(1) by (simp add: phdr_indices_def)
qed (simp add: phdr_indices_def)

lemma phdr_entry_read:
  fixes e :: Elf64Ehdr and bl n :: u64
  assumes i: "i < unat (e_phnum e)" and ent: "56 \<le> e_phentsize e" and n: "unat n \<le> length m"
    and b: "unat bl = unat (e_phnum e) * unat (e_phentsize e)" "unat (e_phoff e) + unat bl \<le> unat n"
  shows "\<exists>off. checked_mul (of_nat i) (ucast (e_phentsize e)) = Some off \<and> \<not> bl < off + 56 \<and>
    read_phdr m (unat (e_phoff e) + unat off) =
      Some (phdr_of (take 56 (drop (unat (e_phoff e) + i * unat (e_phentsize e)) m)))"
proof -
  have i16: "i < 65536" using i less_trans [OF _ unat_lt16] by blast
  have fit: "i * unat (e_phentsize e) + 56 \<le> unat bl"
    using phdr_entry_fits [OF i, of "unat (e_phentsize e)"] ent b(1) by (simp add: word_le_nat_alt)
  then have lt: "i * unat (e_phentsize e) + 56 < 18446744073709551616" using unat_lt64 [of bl] by linarith
  define off :: u64 where "off = of_nat i * ucast (e_phentsize e)"
  have o: "unat off = i * unat (e_phentsize e)" using lt i16 by (simp add: off_def unat_word_ariths unat_of_nat_lt64)
  have "unat (off + 56) = unat off + 56" using lt by (subst unat_add_le) (simp_all add: o)
  then have "\<not> bl < off + 56" using fit by (simp add: word_less_nat_alt o)
  moreover have "checked_mul (of_nat i) (ucast (e_phentsize e)) = Some off"
    using lt i16 by (simp add: checked_mul_def unat_of_nat_lt64 off_def)
  moreover have "read_phdr m (unat (e_phoff e) + unat off) =
      Some (phdr_of (take 56 (drop (unat (e_phoff e) + i * unat (e_phentsize e)) m)))"
    using fit b(2) n by (simp add: read_phdr_Some o)
  ultimately show ?thesis by blast
qed

lemma elf_get_phdr_info_cases:
  assumes e: "read_ehdr m 0 = Some e" "\<not> n < 64"
    and r: "elf_get_phdr_info m n base = Some (Some (v, ent, num))"
  obtains bl fe lo fp fl where "ent = ucast (e_phentsize e)" "num = ucast (e_phnum e)"
    "checked_mul (ucast (e_phnum e)) (ucast (e_phentsize e) :: u64) = Some bl" "\<not> n < e_phoff e + bl"
    "checked_add (e_phoff e) bl = Some fe"
    "phdr_vaddr_loop m (unat (e_phoff e)) (ucast (e_phentsize e)) bl (e_phoff e) fe
      [0..<unat (e_phnum e)] (- 1, None, None) = Some (Some (lo, fp, fl))"
    "lo \<noteq> - 1" "map_option (\<lambda>v. base + (v - lo)) (case fp of Some v \<Rightarrow> Some v | None \<Rightarrow> fl) = Some v"
proof -
  from r e obtain bl where bl: "checked_mul (ucast (e_phnum e)) (ucast (e_phentsize e) :: u64) = Some bl"
    and fit: "\<not> n < e_phoff e + bl" and out: "ent = ucast (e_phentsize e)" "num = ucast (e_phnum e)"
    by (auto simp: elf_get_phdr_info_def split: option.splits if_splits bind_splits)
  from r e bl fit obtain fe lo fp fl where "checked_add (e_phoff e) bl = Some fe"
    "phdr_vaddr_loop m (unat (e_phoff e)) (ucast (e_phentsize e)) bl (e_phoff e) fe
      [0..<unat (e_phnum e)] (- 1, None, None) = Some (Some (lo, fp, fl))"
    "lo \<noteq> - 1" "map_option (\<lambda>v. base + (v - lo)) (case fp of Some v \<Rightarrow> Some v | None \<Rightarrow> fl) = Some v"
    by (auto simp: elf_get_phdr_info_def elf_get_phdr_load_offset_def elf_compute_phdr_elf_vaddr_def unat_ucast_16_64
        split: option.splits if_splits bind_splits)
  with that bl fit out show thesis by blast
qed

section \<open>Properties\<close>

text \<open>C29: The address that \<open>elf_get_phdr_info\<close> reports for the auxiliary vector, for an image
  whose header entries have at least the 56 bytes of the format: the load base plus the distance of the
  table from the lowest loadable segment.  The address of the table is that of the
  last \<open>PT_PHDR\<close> entry, which the code takes as it is; without such an entry some
  loadable segment contains the whole table in the file, and it is the
  address at which this segment maps it.  Entry size and number are those of the header.
\<close>

theorem elf_phdr_info_mapped:
  assumes img: "image_ok m n" "64 \<le> n" "56 \<le> e_phentsize (ehdr m)"
    and r: "elf_get_phdr_info m n base = Some (Some (v, ent, num))"
    and phs: "phs = filter (\<lambda>ph. p_type ph = PT_PHDR) (phdr_table m n (ehdr m))"
  shows "ent = ucast (e_phentsize (ehdr m)) \<and> num = ucast (e_phnum (ehdr m)) \<and>
    (\<exists>low\<in>set (load_segments m n). (\<forall>ph'\<in>set (load_segments m n). p_vaddr low \<le> p_vaddr ph') \<and>
      (if phs \<noteq> [] then v = base + (p_vaddr (last phs) - p_vaddr low)
       else (\<exists>ph\<in>set (load_segments m n).
          unat (p_offset ph) \<le> unat (e_phoff (ehdr m)) \<and>
          unat (e_phoff (ehdr m)) + unat num * unat ent \<le> unat (p_offset ph) + unat (p_filesz ph) \<and>
          v = base + (p_vaddr ph + (e_phoff (ehdr m) - p_offset ph) - p_vaddr low))))"
proof -
  let ?e = "ehdr m" and ?g = "\<lambda>i. phdr_of (take 56 (drop (unat (e_phoff (ehdr m)) + i * unat (e_phentsize (ehdr m))) m))"
  have nl: "unat n \<le> length m" "64 \<le> unat n" using img by (simp_all add: image_ok_def word_le_nat_alt)
  then have e: "read_ehdr m 0 = Some ?e" "\<not> n < 64" using img(2) by (auto intro: read_ehdr_0)
  obtain bl fe lo fp fl where out: "ent = ucast (e_phentsize ?e)" "num = ucast (e_phnum ?e)"
    and bl: "checked_mul (ucast (e_phnum ?e)) (ucast (e_phentsize ?e) :: u64) = Some bl" "\<not> n < e_phoff ?e + bl"
      "checked_add (e_phoff ?e) bl = Some fe"
    and lp: "phdr_vaddr_loop m (unat (e_phoff ?e)) (ucast (e_phentsize ?e)) bl (e_phoff ?e) fe
      [0..<unat (e_phnum ?e)] (- 1, None, None) = Some (Some (lo, fp, fl))"
    and v: "lo \<noteq> - 1" "map_option (\<lambda>v. base + (v - lo)) (case fp of Some v \<Rightarrow> Some v | None \<Rightarrow> fl) = Some v"
    by (rule elf_get_phdr_info_cases [OF e r])
  have blu: "unat bl = unat num * unat ent" using checked_mul_Some [OF bl(1)] by (simp add: out)
  have le: "unat (e_phoff ?e) + unat bl \<le> unat n" and feu: "unat fe = unat (e_phoff ?e) + unat bl"
    using bl checked_add_Some [of "e_phoff ?e" bl fe]
    by (simp_all add: word_less_nat_alt checked_add_def split: if_splits)
  have tab: "phdr_table m n ?e = map ?g [0..<unat (e_phnum ?e)]"
    by (rule phdr_table_full) (use le img(3) blu in \<open>simp_all add: out unat_ucast_16_64 word_le_nat_alt\<close>)
  have rd: "\<exists>off. checked_mul (of_nat i) (ucast (e_phentsize ?e)) = Some off \<and> \<not> bl < off + 56 \<and>
      read_phdr m (unat (e_phoff ?e) + unat off) = Some (?g i)"
    if "i \<in> set [0..<unat (e_phnum ?e)]" for i
    using phdr_entry_read [OF _ img(3) nl(1), of i bl] that le blu by (auto simp: out unat_ucast_16_64)
  note res = phdr_vaddr_loop_result [OF lp rd, unfolded fold_last_match, folded tab phs]
  from res v(1) obtain low where low: "low \<in> set (load_segments m n)" "lo = p_vaddr low"
      "\<forall>ph'\<in>set (load_segments m n). p_vaddr low \<le> p_vaddr ph'"
    by (auto simp: load_segments_def)
  show ?thesis
  proof (cases "phs = []")
    case True
    with res v(2) obtain ph where "ph \<in> set (load_segments m n)" "p_offset ph \<le> e_phoff ?e"
        "unat fe \<le> unat (p_offset ph) + unat (p_filesz ph)" "v = base + (p_vaddr ph + (e_phoff ?e - p_offset ph) - lo)"
      by (auto simp: load_segments_def)
    then have "\<exists>ph\<in>set (load_segments m n). unat (p_offset ph) \<le> unat (e_phoff ?e) \<and>
        unat (e_phoff ?e) + unat num * unat ent \<le> unat (p_offset ph) + unat (p_filesz ph) \<and>
        v = base + (p_vaddr ph + (e_phoff ?e - p_offset ph) - p_vaddr low)"
      using feu blu low(2) by (auto simp: word_le_nat_alt)
    with True out low show ?thesis by auto
  next
    case False
    with res v(2) low(2) have "v = base + (p_vaddr (last phs) - p_vaddr low)" by auto
    with False out low show ?thesis by auto
  qed
qed

text \<open>C28: The libraries that \<open>elf_get_needed\<close> reports for an image are the first
  twelve non-empty \<open>DT_NEEDED\<close> strings of its dynamic section, in order and cut
  to 24 bytes, and \<open>contains\<close> is membership in that list.  The function reads
  only inside the image and its loops end.
\<close>

theorem elf_get_needed_names:
  assumes "image_ok m n" "64 \<le> n" "dynamic_ok m n"
  shows "\<exists>l. elf_get_needed m n = Some l \<and>
    needed_view l = take 12 (map (take 24) (needed_spec m n)) \<and>
    (\<forall>name. NeededLibs_contains l name \<longleftrightarrow> name \<in> set (take 12 (map (take 24) (needed_spec m n))))"
  using elf_get_needed_eq [OF assms] needed_put_fold [OF needed_new(1), of "needed_spec m n"]
  by (auto simp: needed_contains_view needed_new(2))

lemma sample_lib_table:
  "ehdr sample_lib = plain_ehdr ET_DYN 0 64 2" "length sample_lib = 233" "image_ok sample_lib 233"
  "phdr_table sample_lib 233 (plain_ehdr ET_DYN 0 64 2) =
    [plain_phdr PT_LOAD 5 0 0 233 233, plain_phdr PT_DYNAMIC 4 176 176 48 48]"
proof -
  show l: "length sample_lib = 233" by (simp add: sample_lib_def enc_image_def plain_ehdr_def)
  note t = enc_image_table [where e = "plain_ehdr ET_DYN 0 64 2" and n = 233
      and phs = "[plain_phdr PT_LOAD 5 0 0 233 233, plain_phdr PT_DYNAMIC 4 176 176 48 48]"]
  show "ehdr sample_lib = plain_ehdr ET_DYN 0 64 2" "image_ok sample_lib 233"
    "phdr_table sample_lib 233 (plain_ehdr ET_DYN 0 64 2) =
      [plain_phdr PT_LOAD 5 0 0 233 233, plain_phdr PT_DYNAMIC 4 176 176 48 48]"
    unfolding sample_lib_def
    by (rule t; simp add: plain_ehdr_def l [unfolded sample_lib_def plain_ehdr_def])+
qed

lemma sample_lib_segments: "load_segments sample_lib 233 = [plain_phdr PT_LOAD 5 0 0 233 233]"
  by (simp add: load_segments_def sample_lib_table plain_phdr_def)

lemma sample_lib_dyn:
  "dyn_entries sample_lib 176 [0..<3] = [\<lparr>d_tag = DT_STRTAB, d_val = 224\<rparr>, \<lparr>d_tag = DT_NEEDED, d_val = 1\<rparr>]"
  by (simp add: dyn_entries_def dyn_entry_def sample_lib_def enc_image_def plain_ehdr_def enc_round_trip
      upt_rec)

lemma sample_lib_ok:
  "image_ok sample_lib 233" "dynamic_ok sample_lib 233"
  "needed_spec sample_lib 233 = [[0x6C, 0x69, 0x62, 0x63, 0x2E, 0x73, 0x6F]]"
proof -
  show "image_ok sample_lib 233" by (rule sample_lib_table)
  show "dynamic_ok sample_lib 233" by (simp add: dynamic_ok_def sample_lib_table plain_phdr_def)
  have "c_string sample_lib 233 225 = [0x6C, 0x69, 0x62, 0x63, 0x2E, 0x73, 0x6F]"
    by (simp add: c_string_def sample_lib_table(2)) (simp add: sample_lib_def enc_image_def plain_ehdr_def)
  then show "needed_spec sample_lib 233 = [[0x6C, 0x69, 0x62, 0x63, 0x2E, 0x73, 0x6F]]"
    by (simp add: needed_spec_def sample_lib_table plain_phdr_def sample_lib_dyn file_offset_spec_def
        needed_strings_def Let_def)
qed

theorem elf_get_needed_names_witness:
  "\<exists>l. elf_get_needed sample_lib 233 = Some l \<and> NeededLibs_contains l [0x6C, 0x69, 0x62, 0x63, 0x2E, 0x73, 0x6F]"
  using elf_get_needed_names [OF sample_lib_ok(1) _ sample_lib_ok(2)]
  unfolding sample_lib_ok(3) by auto

lemma sample_prog_table:
  "ehdr sample_prog = plain_ehdr ET_DYN 0 64 2" "length sample_prog = 176" "image_ok sample_prog 176"
  "phdr_table sample_prog 176 (plain_ehdr ET_DYN 0 64 2) =
    [plain_phdr PT_PHDR 4 64 0x1040 112 112, plain_phdr PT_LOAD 5 0 0x1000 176 176]"
proof -
  show l: "length sample_prog = 176" by (simp add: sample_prog_def enc_image_def plain_ehdr_def)
  note t = enc_image_table [where e = "plain_ehdr ET_DYN 0 64 2" and n = 176
      and phs = "[plain_phdr PT_PHDR 4 64 0x1040 112 112, plain_phdr PT_LOAD 5 0 0x1000 176 176]"]
  show "ehdr sample_prog = plain_ehdr ET_DYN 0 64 2" "image_ok sample_prog 176"
    "phdr_table sample_prog 176 (plain_ehdr ET_DYN 0 64 2) =
      [plain_phdr PT_PHDR 4 64 0x1040 112 112, plain_phdr PT_LOAD 5 0 0x1000 176 176]"
    unfolding sample_prog_def
    by (rule t; simp add: plain_ehdr_def l [unfolded sample_prog_def plain_ehdr_def])+
qed

lemma sample_phdr_info:
  "elf_get_phdr_info sample_lib 233 0x400000 = Some (Some (0x400040, 56, 2))"
  "elf_get_phdr_info sample_prog 176 0x400000 = Some (Some (0x400040, 56, 2))"
proof -
  note info = elf_get_phdr_info_def elf_get_phdr_load_offset_def elf_compute_phdr_elf_vaddr_def
    plain_ehdr_def plain_phdr_def checked_mul_def checked_add_def upt_rec word_gt_0
  have "read_ehdr sample_lib 0 = Some (plain_ehdr ET_DYN 0 64 2)" by (simp add: read_ehdr_0 sample_lib_table)
  moreover have "read_phdr sample_lib 64 = Some (plain_phdr PT_LOAD 5 0 0 233 233)"
    "read_phdr sample_lib 120 = Some (plain_phdr PT_DYNAMIC 4 176 176 48 48)"
    by (simp_all add: read_phdr_Some sample_lib_table)
      (simp_all add: sample_lib_def enc_image_def plain_ehdr_def enc_round_trip)
  ultimately show "elf_get_phdr_info sample_lib 233 0x400000 = Some (Some (0x400040, 56, 2))"
    by (simp add: info)
  have "read_ehdr sample_prog 0 = Some (plain_ehdr ET_DYN 0 64 2)" by (simp add: read_ehdr_0 sample_prog_table)
  moreover have "read_phdr sample_prog 64 = Some (plain_phdr PT_PHDR 4 64 0x1040 112 112)"
    "read_phdr sample_prog 120 = Some (plain_phdr PT_LOAD 5 0 0x1000 176 176)"
    by (simp_all add: read_phdr_Some sample_prog_table)
      (simp_all add: sample_prog_def enc_image_def plain_ehdr_def enc_round_trip)
  ultimately show "elf_get_phdr_info sample_prog 176 0x400000 = Some (Some (0x400040, 56, 2))"
    by (simp add: info)
qed

theorem elf_phdr_info_mapped_witness:
  "(\<exists>ph\<in>set (load_segments sample_lib 233). \<exists>low\<in>set (load_segments sample_lib 233).
      0x400040 = 0x400000 + (p_vaddr ph + (64 - p_offset ph) - p_vaddr low)) \<and>
   (\<exists>low\<in>set (load_segments sample_prog 176). 0x400040 = 0x400000 + (0x1040 - p_vaddr low))"
proof (rule conjI)
  have "[] = filter (\<lambda>ph. p_type ph = PT_PHDR) (phdr_table sample_lib 233 (ehdr sample_lib))"
    "56 \<le> e_phentsize (ehdr sample_lib)" "e_phoff (ehdr sample_lib) = 64"
    by (simp_all add: sample_lib_table, simp_all add: plain_phdr_def plain_ehdr_def)
  with elf_phdr_info_mapped [OF sample_lib_ok(1) _ _ sample_phdr_info(1), of "[]"]
  show "\<exists>ph\<in>set (load_segments sample_lib 233). \<exists>low\<in>set (load_segments sample_lib 233).
      0x400040 = 0x400000 + (p_vaddr ph + (64 - p_offset ph) - p_vaddr low)" by auto
  have f: "[plain_phdr PT_PHDR 4 64 0x1040 112 112] =
      filter (\<lambda>ph. p_type ph = PT_PHDR) (phdr_table sample_prog 176 (ehdr sample_prog))"
    and ent: "56 \<le> e_phentsize (ehdr sample_prog)"
    by (simp_all add: sample_prog_table, simp_all add: plain_phdr_def plain_ehdr_def)
  obtain low where "low \<in> set (load_segments sample_prog 176)"
      "0x400040 = 0x400000 + (p_vaddr (last [plain_phdr PT_PHDR 4 64 0x1040 112 112]) - p_vaddr low)"
    using elf_phdr_info_mapped [OF sample_prog_table(3) _ ent sample_phdr_info(2) f] by auto
  then show "\<exists>low\<in>set (load_segments sample_prog 176). 0x400040 = 0x400000 + (0x1040 - p_vaddr low)"
    by (auto simp: plain_phdr_def)
qed

text \<open>Fact: The two routines that compute the extent of an image agree: for a shared
  library with loadable segments, \<open>elf_compute_lib_info\<close> succeeds with the span
  that \<open>elf_compute_load_span\<close> returns, its \<open>min_vaddr\<close> is the address of a
  segment, and every segment lies in the page-aligned range of that span.
\<close>

theorem elf_span_agrees:
  assumes "image_ok m n" "64 \<le> n" "is_elf (ehdr m)" "e_type (ehdr m) = ET_DYN"
    and "load_segments m n \<noteq> []" "\<forall>ph\<in>set (load_segments m n). seg_ok ph"
  shows "\<exists>i. elf_compute_lib_info m n = Some (Some i) \<and>
    elf_compute_load_span m n = Some (li_lib_span i) \<and>
    li_min_vaddr i \<in> p_vaddr ` set (load_segments m n) \<and>
    (\<forall>ph\<in>set (load_segments m n).
       unat (elf_page_align_down (li_min_vaddr i)) \<le> unat (p_vaddr ph) \<and>
       unat (p_vaddr ph) + unat (p_memsz ph) \<le>
         unat (elf_page_align_down (li_min_vaddr i)) + unat (li_lib_span i))"
proof -
  let ?segs = "load_segments m n"
  obtain lo hi where f: "fold span_step ?segs (- 1, 0) = (lo, hi)" by (cases "fold span_step ?segs (- 1, 0)")
  have load: "\<forall>ph\<in>set ?segs. p_type ph = PT_LOAD \<and> seg_ok ph" using assms(6) by (simp add: load_segments_def)
  have b: "unat hi + 4096 \<le> 2 ^ 64" "lo \<in> insert (- 1) (p_vaddr ` set ?segs)"
    "\<forall>ph\<in>set ?segs. lo \<le> p_vaddr ph \<and> unat (p_vaddr ph) + unat (p_memsz ph) \<le> unat hi"
    using span_fold_bounds [OF load _ f] by simp_all
  from assms(5) obtain ph where ph: "ph \<in> set ?segs" by (cases ?segs) auto
  have "unat (p_vaddr ph) < 2 ^ 64 - 1" using load ph by (auto simp: seg_ok_nat)
  moreover have "unat lo \<le> unat (p_vaddr ph)" using b ph by (simp add: word_le_nat_alt)
  ultimately have "lo \<noteq> - 1" by (auto simp: unsigned_minus_1_eq_mask mask_eq_exp_minus_1)
  with b(2) have lo: "lo \<in> p_vaddr ` set ?segs" by simp
  have dn: "unat (elf_page_align_down lo) \<le> unat lo" by (simp add: unat_elf_page_align_down)
  have "unat lo \<le> unat hi" using b(3) ph by (auto simp: word_le_nat_alt)
  then have "elf_page_align_down lo \<le> elf_page_align_up hi"
    using dn page_align_up_ge [OF b(1)] by (simp add: word_le_nat_alt)
  then have "unat (elf_page_align_down lo) + unat (elf_page_align_up hi - elf_page_align_down lo) =
      unat (elf_page_align_up hi)"
    by (simp add: unat_sub_le word_le_nat_alt)
  then show ?thesis
    using elf_span_value [OF assms f] lo b(3) dn page_align_up_ge [OF b(1)]
    by (fastforce simp: word_le_nat_alt)
qed

theorem elf_span_agrees_witness:
  "\<exists>i. elf_compute_lib_info sample_lib 233 = Some (Some i) \<and>
    elf_compute_load_span sample_lib 233 = Some (li_lib_span i)"
proof -
  have "is_elf (ehdr sample_lib)" "e_type (ehdr sample_lib) = ET_DYN"
    "load_segments sample_lib 233 \<noteq> []" "\<forall>ph\<in>set (load_segments sample_lib 233). seg_ok ph"
    by (simp_all add: sample_lib_segments sample_lib_table plain_ehdr_def is_elf_def seg_ok_def plain_phdr_def)
  from elf_span_agrees [OF sample_lib_ok(1) _ this] show ?thesis by auto
qed

lemma file_offset_in_segment:
  fixes ph :: Elf64Phdr and va n :: u64
  assumes w: "p_vaddr ph \<le> p_vaddr ph + p_filesz ph" "p_offset ph \<le> p_offset ph + p_filesz ph"
      "p_offset ph + p_filesz ph \<le> n"
    and va: "p_vaddr ph \<le> va"
  shows "va < p_vaddr ph + p_filesz ph \<longleftrightarrow> \<not> p_filesz ph \<le> va - p_vaddr ph"
    and "va < p_vaddr ph + p_filesz ph \<Longrightarrow> va - p_vaddr ph + p_offset ph < n"
proof -
  have b: "unat (p_vaddr ph) + unat (p_filesz ph) < 2 ^ 64"
    "unat (p_offset ph) + unat (p_filesz ph) \<le> unat n"
    using w unfolding word_le_add_iff by (simp_all add: word_le_nat_alt unat_add_le)
  have s: "unat (p_vaddr ph + p_filesz ph) = unat (p_vaddr ph) + unat (p_filesz ph)"
    and d: "unat (va - p_vaddr ph) = unat va - unat (p_vaddr ph)" and le: "unat (p_vaddr ph) \<le> unat va"
    using va b(1) by (simp_all add: unat_add_le unat_sub_le word_le_nat_alt)
  show "va < p_vaddr ph + p_filesz ph \<longleftrightarrow> \<not> p_filesz ph \<le> va - p_vaddr ph"
    unfolding word_less_nat_alt word_le_nat_alt s d using le by linarith
  assume "va < p_vaddr ph + p_filesz ph"
  then have lt: "unat va - unat (p_vaddr ph) + unat (p_offset ph) < unat n"
    using b(2) le unfolding word_less_nat_alt s by linarith
  then have "unat (va - p_vaddr ph + p_offset ph) = unat va - unat (p_vaddr ph) + unat (p_offset ph)"
    using less_trans [OF lt unat_lt64] by (subst unat_add_le) (simp_all add: d)
  with lt show "va - p_vaddr ph + p_offset ph < n" by (simp add: word_less_nat_alt)
qed

text \<open>Fact: The loader and the dynamic-linking helpers translate addresses to file
  offsets by different code; on an image whose segments lie inside the file
  they return the same offset for every address.
\<close>

theorem file_offset_agrees:
  assumes "image_ok m n"
    and "\<forall>ph\<in>set (load_segments m n). p_vaddr ph \<le> p_vaddr ph + p_filesz ph \<and>
      p_offset ph \<le> p_offset ph + p_filesz ph \<and> p_offset ph + p_filesz ph \<le> n"
  shows "vaddr_to_file_offset m n (ehdr m) va = elf_va_to_file_offset m n (ehdr m) va"
proof -
  let ?f = "\<lambda>ph (_ :: unit). Some
     (if p_type ph \<noteq> PT_LOAD then Inl ()
      else if va < p_vaddr ph then Inl ()
      else let seg_off = va - p_vaddr ph
           in if p_filesz ph \<le> seg_off then Inl ()
              else let file_off = p_offset ph + seg_off
                   in Inr (if n \<le> file_off then None else Some file_off))"
  let ?P = "\<lambda>ph. p_type ph = PT_LOAD \<and> p_vaddr ph \<le> va \<and> va < p_vaddr ph + p_filesz ph \<and>
     va - p_vaddr ph + p_offset ph < n"
  have step: "?f ph () = Some (if ?P ph then Inr (Some (va - p_vaddr ph + p_offset ph)) else Inl ())"
    if ph: "ph \<in> set (phdr_table m n (ehdr m))" for ph
  proof (cases "p_type ph = PT_LOAD \<and> p_vaddr ph \<le> va")
    case True
    with ph assms(2) have "p_vaddr ph \<le> p_vaddr ph + p_filesz ph"
      "p_offset ph \<le> p_offset ph + p_filesz ph" "p_offset ph + p_filesz ph \<le> n"
      by (auto simp: load_segments_def)
    from file_offset_in_segment [OF this, of va] True show ?thesis by (auto simp: Let_def add.commute)
  qed auto
  have "loop_over ?f phs () =
      Some (case find ?P phs of None \<Rightarrow> Inl () | Some ph \<Rightarrow> Inr (Some (va - p_vaddr ph + p_offset ph)))"
    if "set phs \<subseteq> set (phdr_table m n (ehdr m))" for phs
    using that
  proof (induction phs)
    case (Cons ph phs)
    then show ?case using step [of ph] by simp
  qed simp
  then show ?thesis
    using assms(1)
    by (simp add: vaddr_to_file_offset_def phdr_for_table elf_va_to_file_offset_table file_offset_spec_def
        split: option.split)
qed

theorem file_offset_agrees_witness:
  "vaddr_to_file_offset sample_lib 233 (ehdr sample_lib) 224 = Some (Some 224) \<and>
   elf_va_to_file_offset sample_lib 233 (ehdr sample_lib) 224 = Some (Some 224)"
proof -
  have "\<forall>ph\<in>set (load_segments sample_lib 233). p_vaddr ph \<le> p_vaddr ph + p_filesz ph \<and>
      p_offset ph \<le> p_offset ph + p_filesz ph \<and> p_offset ph + p_filesz ph \<le> 233"
    by (simp add: sample_lib_segments plain_phdr_def)
  from file_offset_agrees [OF sample_lib_ok(1) this, of 224]
  have "vaddr_to_file_offset sample_lib 233 (ehdr sample_lib) 224 =
    elf_va_to_file_offset sample_lib 233 (ehdr sample_lib) 224" .
  moreover have "elf_va_to_file_offset sample_lib 233 (ehdr sample_lib) 224 = Some (Some 224)"
    using elf_va_to_file_offset_table [OF sample_lib_ok(1), of 224]
    by (simp add: sample_lib_table file_offset_spec_def plain_phdr_def)
  ultimately show ?thesis by simp
qed

lemma wrapped_image_read: "length wrapped_image = 64 \<and> elf_has_interp wrapped_image 64 = None"
proof -
  let ?e = "plain_ehdr ET_DYN 0 (- 8) 1"
  have len: "length wrapped_image = 64" by (simp add: wrapped_image_def plain_ehdr_def)
  have "read_ehdr wrapped_image 0 = Some ?e"
    using len by (subst read_ehdr_0)
      (simp_all add: ehdr_def wrapped_image_def enc_round_trip plain_ehdr_def)
  moreover have "read_phdr wrapped_image (unat (- 8 :: u64)) = None"
  proof -
    have "(- 8 :: u64) = 18446744073709551608" by simp
    then have "unat (- 8 :: u64) = 18446744073709551608" by (simp only: unat_numeral) simp
    with len show ?thesis by (simp add: read_phdr_def read_bytes_def)
  qed
  moreover have "e_phoff ?e = - 8" "phdr_indices ?e = [0]" by (simp_all add: plain_ehdr_def phdr_indices_def)
  ultimately show ?thesis using len by (simp add: elf_has_interp_def phdr_find_def Let_def)
qed

text \<open>C30: The inspection functions read only inside an image whose header table
  starts below \<open>2 ^ 63\<close>; an offset close to \<open>2 ^ 64\<close> passes the bounds check
  because the sum wraps, and the read starts before the image.
\<close>

theorem elf_inspection_safe:
  "(image_ok m n \<longrightarrow>
      elf_has_interp m n \<noteq> None \<and> elf_get_interp m n \<noteq> None \<and> elf_compute_lib_info m n \<noteq> None \<and>
      elf_count_load_pages m n \<noteq> None \<and> elf_compute_load_span m n \<noteq> None) \<and>
   length wrapped_image = 64 \<and> elf_has_interp wrapped_image 64 = None"
proof -
  have safe: "elf_has_interp m n \<noteq> None \<and> elf_get_interp m n \<noteq> None \<and> elf_compute_lib_info m n \<noteq> None \<and>
      elf_count_load_pages m n \<noteq> None \<and> elf_compute_load_span m n \<noteq> None" if img: "image_ok m n"
  proof (cases "n < 64")
    case True
    then show ?thesis
      by (simp add: elf_has_interp_def elf_get_interp_def elf_compute_lib_info_def
          elf_count_load_pages_def elf_compute_load_span_def)
  next
    case False
    then have "\<not> n < 64" "read_ehdr m 0 = Some (ehdr m)"
      using img by (auto intro!: read_ehdr_0 simp: image_ok_def word_less_nat_alt)
    with img show ?thesis
      by (simp add: elf_has_interp_def elf_get_interp_def elf_compute_lib_info_def phdr_fold_table
          phdr_find_table elf_count_load_pages_def elf_compute_load_span_def split: prod.splits)
  qed
  with safe wrapped_image_read show ?thesis by blast
qed

theorem elf_inspection_safe_witness:
  "image_ok sample_lib 233 \<and> elf_has_interp sample_lib 233 \<noteq> None"
  using elf_inspection_safe [of sample_lib 233] sample_lib_ok(1) by simp

end
