(* ===== verification/Elf_Loader.thy ===== *)
theory Elf_Loader
  imports Elf_Image Invoke
begin

text \<open>
  The ELF loader, \<^verbatim>\<open>loader/elf_loader.rs\<close>: each page of a loadable segment is
  allocated, mapped at a scratch address of the loader, filled, unmapped and
  mapped into the child.  The kernel is the parameter of the invocations; a
  store through the scratch mapping is the parameter \<open>poke\<close>, which changes the
  machine at an address of the loader.  The callbacks of the context are
  functions on the machine.  A result is the error code with the final state;
  \<^const>\<open>None\<close> is a read outside the image or a loop that does not end.
\<close>

section \<open>Data\<close>

abbreviation (input) ELF_OK :: int where "ELF_OK \<equiv> 0"
abbreviation (input) ELF_NOT_ELF :: int where "ELF_NOT_ELF \<equiv> 1"
abbreviation (input) ELF_NOT_64BIT :: int where "ELF_NOT_64BIT \<equiv> 2"
abbreviation (input) ELF_NOT_LE :: int where "ELF_NOT_LE \<equiv> 3"
abbreviation (input) ELF_BAD_TYPE :: int where "ELF_BAD_TYPE \<equiv> 4"
abbreviation (input) ELF_BAD_ARCH :: int where "ELF_BAD_ARCH \<equiv> 5"
abbreviation (input) ELF_NO_LOAD :: int where "ELF_NO_LOAD \<equiv> 6"
abbreviation (input) ELF_RELOC_FAILED :: int where "ELF_RELOC_FAILED \<equiv> 7"
abbreviation (input) ELF_OUT_OF_MEMORY :: int where "ELF_OUT_OF_MEMORY \<equiv> 8"
abbreviation (input) ELF_TOO_SMALL :: int where "ELF_TOO_SMALL \<equiv> 9"
abbreviation (input) ELF_MAP_FAILED :: int where "ELF_MAP_FAILED \<equiv> 11"
abbreviation (input) CAP_UNTYPED_START :: cap where "CAP_UNTYPED_START \<equiv> 16"
abbreviation (input) ELF_UT_SCAN_END_FALLBACK :: cap where "ELF_UT_SCAN_END_FALLBACK \<equiv> 200"
abbreviation (input) MAX_PAGES :: u64 where "MAX_PAGES \<equiv> 256"

datatype target_arch = X86_64 | Aarch64

definition elf_machine :: "target_arch \<Rightarrow> u16" where
  "elf_machine a = (case a of X86_64 \<Rightarrow> 62 | Aarch64 \<Rightarrow> 183)"

definition r_relative :: "target_arch \<Rightarrow> u32" where
  "r_relative a = (case a of X86_64 \<Rightarrow> 8 | Aarch64 \<Rightarrow> 1027)"

record ElfLoadResult =
  lr_entry :: u64
  lr_base :: u64
  lr_brk :: u64

record ElfPageEntry =
  pe_vaddr :: u64
  pe_frame_cap :: cap
  pe_flags :: u64

record 'k ElfLoaderCtx =
  ec_untyped :: cap
  ec_self_vspace :: cap
  ec_child_vspace :: cap
  ec_scratch_vaddr :: u64
  ec_next_frame_slot :: cap
  ec_alloc_frame_slot :: "('k machine \<Rightarrow> cap \<times> 'k machine) option"
  ec_record_page :: "(u64 \<Rightarrow> cap \<Rightarrow> u64 \<Rightarrow> 'k machine \<Rightarrow> int \<times> 'k machine) option"

text \<open>
  The state of a load: the context, the static \<open>NEXT_UT_HINT\<close>, the machine, the
  first \<open>page_count\<close> entries of the array of pages, and the break.
\<close>

record 'k loader =
  ld_ctx :: "'k ElfLoaderCtx"
  ld_hint :: cap
  ld_m :: "'k machine"
  ld_pages :: "ElfPageEntry list"
  ld_brk :: u64

type_synonym 'k poke = "u64 \<Rightarrow> u8 \<Rightarrow> 'k machine \<Rightarrow> 'k machine"

section \<open>Frames\<close>

definition untyped_scan_end :: "'k kernel \<Rightarrow> 'k machine \<Rightarrow> cap \<times> 'k machine" where
  "untyped_scan_end K m =
     (case cnode_get_info K CAP_SELF_CSPACE m of
        (info, m') \<Rightarrow>
          let end_ut = (if r_error info = 0
                     then case ipc_buffer m' of
                            None \<Rightarrow> ELF_UT_SCAN_END_FALLBACK
                          | Some b \<Rightarrow>
                              let num_slots = ib_msg b ! 3
                              in if CAP_UNTYPED_START < num_slots \<and> num_slots < ELF_UT_SCAN_END_FALLBACK
                                 then num_slots else ELF_UT_SCAN_END_FALLBACK
                     else ELF_UT_SCAN_END_FALLBACK)
          in (if end_ut \<le> CAP_UNTYPED_START then CAP_UNTYPED_START + 1 else end_ut, m'))"

text \<open>
  One of the two scans: \<^const>\<open>Inr\<close> of the untyped that gave a frame, or \<^const>\<open>Inl\<close> of
  the error to report.
\<close>

fun retype_scan ::
  "'k kernel \<Rightarrow> cap \<Rightarrow> cap \<Rightarrow> nat list \<Rightarrow> int \<Rightarrow> 'k machine \<Rightarrow> (int + cap) \<times> 'k machine"
where
  "retype_scan K untyped frame_slot [] best_err m = (Inl best_err, m)"
| "retype_scan K untyped frame_slot (i # is) best_err m =
     (let ut = of_nat i
      in if ut = untyped then retype_scan K untyped frame_slot is best_err m
         else case untyped_retype K ut OBJ_FRAME 0 frame_slot m of
                (err, m') \<Rightarrow>
                  if err = 0 then (Inr ut, m')
                  else retype_scan K untyped frame_slot is
                         (if err \<noteq> 1 \<and> err \<noteq> 2 \<and> err \<noteq> 6 then err else best_err) m')"

definition try_retype_frame_any_untyped ::
  "'k kernel \<Rightarrow> cap \<Rightarrow> 'k loader \<Rightarrow> int \<times> 'k loader" where
  "try_retype_frame_any_untyped K frame_slot s =
     (let untyped = ec_untyped (ld_ctx s)
      in case untyped_retype K untyped OBJ_FRAME 0 frame_slot (ld_m s) of
           (err, m1) \<Rightarrow>
             if err = 0 then (0, s\<lparr>ld_m := m1, ld_hint := untyped\<rparr>)
             else (case untyped_scan_end K m1 of
               (end_ut, m2) \<Rightarrow>
                 let first = (if ld_hint s < CAP_UNTYPED_START \<or> end_ut \<le> ld_hint s
                              then CAP_UNTYPED_START else ld_hint s)
                 in case retype_scan K untyped frame_slot [unat first..<unat end_ut] err m2 of
                      (Inr ut, m3) \<Rightarrow>
                        (0, s\<lparr>ld_m := m3, ld_hint := ut, ld_ctx := (ld_ctx s)\<lparr>ec_untyped := ut\<rparr>\<rparr>)
                    | (Inl best, m3) \<Rightarrow>
                        (case retype_scan K untyped frame_slot [16..<unat first] best m3 of
                           (Inr ut, m4) \<Rightarrow>
                             (0, s\<lparr>ld_m := m4, ld_hint := ut, ld_ctx := (ld_ctx s)\<lparr>ec_untyped := ut\<rparr>\<rparr>)
                         | (Inl best, m4) \<Rightarrow> (best, s\<lparr>ld_m := m4\<rparr>))))"

definition next_frame_slot :: "'k loader \<Rightarrow> cap \<times> 'k loader" where
  "next_frame_slot s =
     (case ec_alloc_frame_slot (ld_ctx s) of
        Some alloc \<Rightarrow> (case alloc (ld_m s) of (slot, m) \<Rightarrow> (slot, s\<lparr>ld_m := m\<rparr>))
      | None \<Rightarrow>
          let slot = ec_next_frame_slot (ld_ctx s)
          in (slot, s\<lparr>ld_ctx := (ld_ctx s)\<lparr>ec_next_frame_slot := slot + 1\<rparr>\<rparr>))"

definition record_page_map ::
  "'k ElfLoaderCtx \<Rightarrow> u64 \<Rightarrow> cap \<Rightarrow> u64 \<Rightarrow> 'k machine \<Rightarrow> int \<times> 'k machine" where
  "record_page_map ctx vaddr frame_cap flags m =
     (case ec_record_page ctx of Some record_cb \<Rightarrow> record_cb vaddr frame_cap flags m | None \<Rightarrow> (0, m))"

definition phdr_to_flags :: "u32 \<Rightarrow> u64" where
  "phdr_to_flags fl =
     (let w = (fl AND PF_W \<noteq> 0); x = (fl AND PF_X \<noteq> 0)
      in if w then VSPACE_FLAG_USER OR VSPACE_FLAG_WRITABLE
         else if x then VSPACE_FLAG_USER OR VSPACE_FLAG_EXECUTABLE
         else VSPACE_FLAG_USER)"

section \<open>Pages\<close>

text \<open>Consecutive volatile stores.\<close>

fun pokes :: "'k poke \<Rightarrow> u64 \<Rightarrow> u8 list \<Rightarrow> 'k machine \<Rightarrow> 'k machine" where
  "pokes poke a [] m = m"
| "pokes poke a (b # bs) m = pokes poke (a + 1) bs (poke a b m)"

definition map_scratch :: "'k kernel \<Rightarrow> 'k ElfLoaderCtx \<Rightarrow> cap \<Rightarrow> 'k machine \<Rightarrow> int \<times> 'k machine" where
  "map_scratch K ctx frame m =
     vspace_map K (ec_self_vspace ctx) frame (ec_scratch_vaddr ctx) (VSPACE_FLAG_WRITABLE OR VSPACE_FLAG_USER) m"

definition unmap_scratch :: "'k kernel \<Rightarrow> 'k ElfLoaderCtx \<Rightarrow> 'k machine \<Rightarrow> 'k machine" where
  "unmap_scratch K ctx m = snd (vspace_unmap K (ec_self_vspace ctx) (ec_scratch_vaddr ctx) m)"

text \<open>Source offset, offset in the page and number of the bytes that a page takes from the file.\<close>

definition page_copy :: "u64 \<Rightarrow> u64 \<Rightarrow> Elf64Phdr \<Rightarrow> u64 \<Rightarrow> u64 \<times> u64 \<times> u64" where
  "page_copy delta seg_vaddr ph page_vaddr =
     (let file_start = seg_vaddr;
          file_end = seg_vaddr + p_filesz ph;
          copy_start = (if file_start < page_vaddr then page_vaddr else file_start);
          copy_end_bound = page_vaddr + ELF_PAGE_SIZE;
          copy_end = (if copy_end_bound < file_end then copy_end_bound else file_end)
      in if copy_start < copy_end
         then (copy_start - delta - p_vaddr ph + p_offset ph, copy_start - page_vaddr, copy_end - copy_start)
         else (0, 0, 0))"

definition copy_file ::
  "'k poke \<Rightarrow> mem \<Rightarrow> u64 \<Rightarrow> 'k ElfLoaderCtx \<Rightarrow> u64 \<times> u64 \<times> u64 \<Rightarrow> 'k machine \<Rightarrow> 'k machine option" where
  "copy_file poke data data_len ctx c m =
     (case c of (src_offset, dst_offset, copy_len) \<Rightarrow>
        if 0 < copy_len \<and> src_offset + copy_len \<le> data_len
        then do { bs \<leftarrow> read_bytes data (unat src_offset) (unat copy_len);
                  Some (pokes poke (ec_scratch_vaddr ctx + dst_offset) bs m) }
        else Some m)"

definition merge_flags :: "u64 \<Rightarrow> u64 \<Rightarrow> u64" where
  "merge_flags old flags =
     (let merged = old OR flags
      in if merged AND VSPACE_FLAG_WRITABLE \<noteq> 0 \<and> merged AND VSPACE_FLAG_EXECUTABLE \<noteq> 0
         then merged AND NOT VSPACE_FLAG_EXECUTABLE else merged)"

text \<open>A page that an earlier segment already mapped.\<close>

definition load_existing ::
  "'k kernel \<Rightarrow> 'k poke \<Rightarrow> mem \<Rightarrow> u64 \<Rightarrow> u64 \<Rightarrow> u64 \<times> u64 \<times> u64 \<Rightarrow> nat \<Rightarrow> u64 \<Rightarrow> 'k loader \<Rightarrow>
   ('k loader + int \<times> 'k loader) option" where
  "load_existing K poke data data_len flags c idx page_vaddr s =
     (let ctx = ld_ctx s; p = ld_pages s ! idx; existing = pe_frame_cap p
      in do {
        m1 \<leftarrow> (case c of (src_offset, dst_offset, copy_len) \<Rightarrow>
                if 0 < copy_len \<and> src_offset + copy_len \<le> data_len
                then case map_scratch K ctx existing (ld_m s) of
                       (err, m) \<Rightarrow>
                         if err = 0
                         then do { m' \<leftarrow> copy_file poke data data_len ctx c m; Some (unmap_scratch K ctx m') }
                         else Some m
                else Some (ld_m s));
        let merged = merge_flags (pe_flags p) flags
        in Some (if merged \<noteq> pe_flags p
                 then let m2 = snd (vspace_unmap K (ec_child_vspace ctx) page_vaddr m1)
                      in case vspace_map K (ec_child_vspace ctx) existing page_vaddr merged m2 of
                           (remap_err, m3) \<Rightarrow>
                             if remap_err \<noteq> 0 then Inr (ELF_MAP_FAILED, s\<lparr>ld_m := m3\<rparr>)
                             else case record_page_map ctx page_vaddr existing merged m3 of
                                    (r, m4) \<Rightarrow>
                                      let s' = s\<lparr>ld_m := m4, ld_pages := (ld_pages s)[idx := p\<lparr>pe_flags := merged\<rparr>]\<rparr>
                                      in if r \<noteq> 0 then Inr (ELF_OUT_OF_MEMORY, s') else Inl s'
                 else Inl (s\<lparr>ld_m := m1\<rparr>)) })"

text \<open>A new page, once its frame is there.\<close>

definition fill_new ::
  "'k kernel \<Rightarrow> 'k poke \<Rightarrow> mem \<Rightarrow> u64 \<Rightarrow> u64 \<Rightarrow> u64 \<times> u64 \<times> u64 \<Rightarrow> cap \<Rightarrow> u64 \<Rightarrow> 'k loader \<Rightarrow>
   ('k loader + int \<times> 'k loader) option" where
  "fill_new K poke data data_len flags c frame_slot page_vaddr s =
     (let ctx = ld_ctx s
      in case map_scratch K ctx frame_slot (ld_m s) of
           (err, m1) \<Rightarrow>
             if err \<noteq> 0 then Some (Inr (ELF_MAP_FAILED, s\<lparr>ld_m := m1\<rparr>))
             else do {
               m2 \<leftarrow> copy_file poke data data_len ctx c
                       (pokes poke (ec_scratch_vaddr ctx) (replicate 4096 0) m1);
               let m3 = unmap_scratch K ctx m2
               in case vspace_map K (ec_child_vspace ctx) frame_slot page_vaddr flags m3 of
                    (err, m4) \<Rightarrow>
                      if err \<noteq> 0 then Some (Inr (ELF_MAP_FAILED, s\<lparr>ld_m := m4\<rparr>))
                      else case record_page_map ctx page_vaddr frame_slot flags m4 of
                             (r, m5) \<Rightarrow>
                               let s' = s\<lparr>ld_m := m5,
                                          ld_pages := ld_pages s @
                                            [\<lparr>pe_vaddr = page_vaddr, pe_frame_cap = frame_slot, pe_flags = flags\<rparr>]\<rparr>
                               in Some (if r \<noteq> 0 then Inr (ELF_OUT_OF_MEMORY, s') else Inl s') })"

definition load_new ::
  "'k kernel \<Rightarrow> 'k poke \<Rightarrow> mem \<Rightarrow> u64 \<Rightarrow> u64 \<Rightarrow> u64 \<Rightarrow> u64 \<times> u64 \<times> u64 \<Rightarrow> u64 \<Rightarrow> 'k loader \<Rightarrow>
   ('k loader + int \<times> 'k loader) option" where
  "load_new K poke data data_len page_capacity flags c page_vaddr s =
     (if unat page_capacity \<le> length (ld_pages s) then Some (Inr (ELF_OUT_OF_MEMORY, s))
      else case next_frame_slot s of
             (frame_slot, s1) \<Rightarrow>
               if frame_slot = - 1 \<or> frame_slot = 0 then Some (Inr (ELF_OUT_OF_MEMORY, s1))
               else case (if ec_untyped (ld_ctx s1) \<noteq> 0
                          then try_retype_frame_any_untyped K frame_slot s1 else (0, s1)) of
                      (err, s2) \<Rightarrow>
                        if err \<noteq> 0 then Some (Inr (ELF_OUT_OF_MEMORY, s2))
                        else fill_new K poke data data_len flags c frame_slot page_vaddr s2)"

definition find_page :: "u64 \<Rightarrow> ElfPageEntry list \<Rightarrow> nat option" where
  "find_page vaddr pages = find (\<lambda>j. pe_vaddr (pages ! j) = vaddr) [0..<length pages]"

definition load_page ::
  "'k kernel \<Rightarrow> 'k poke \<Rightarrow> mem \<Rightarrow> u64 \<Rightarrow> u64 \<Rightarrow> u64 \<Rightarrow> Elf64Phdr \<Rightarrow> u64 \<Rightarrow> 'k loader \<Rightarrow>
   ('k loader + int \<times> 'k loader) option" where
  "load_page K poke data data_len page_capacity delta ph page_vaddr s =
     (let c = page_copy delta (p_vaddr ph + delta) ph page_vaddr; flags = phdr_to_flags (p_flags ph)
      in case find_page page_vaddr (ld_pages s) of
           Some idx \<Rightarrow> load_existing K poke data data_len flags c idx page_vaddr s
         | None \<Rightarrow> load_new K poke data data_len page_capacity flags c page_vaddr s)"

partial_function (option) load_pages ::
  "'k kernel \<Rightarrow> 'k poke \<Rightarrow> mem \<Rightarrow> u64 \<Rightarrow> u64 \<Rightarrow> u64 \<Rightarrow> Elf64Phdr \<Rightarrow> u64 \<Rightarrow> u64 \<Rightarrow> 'k loader \<Rightarrow>
   ('k loader + int \<times> 'k loader) option"
where
  "load_pages K poke data data_len page_capacity delta ph seg_end page_vaddr s =
     (if page_vaddr < seg_end
      then do { r \<leftarrow> load_page K poke data data_len page_capacity delta ph page_vaddr s;
                case r of
                  Inl s' \<Rightarrow> load_pages K poke data data_len page_capacity delta ph seg_end
                              (page_vaddr + ELF_PAGE_SIZE) s'
                | Inr x \<Rightarrow> Some (Inr x) }
      else Some (Inl s))"

definition load_segment ::
  "'k kernel \<Rightarrow> 'k poke \<Rightarrow> mem \<Rightarrow> u64 \<Rightarrow> u64 \<Rightarrow> u64 \<Rightarrow> Elf64Phdr \<Rightarrow> 'k loader \<Rightarrow>
   ('k loader + int \<times> 'k loader) option" where
  "load_segment K poke data data_len page_capacity delta ph s =
     (if p_type ph \<noteq> PT_LOAD then Some (Inl s)
      else let seg_vaddr = p_vaddr ph + delta;
               seg_start = elf_page_align_down seg_vaddr;
               seg_end = elf_page_align_up (seg_vaddr + p_memsz ph)
           in load_pages K poke data data_len page_capacity delta ph seg_end seg_start
                (if ld_brk s < seg_end then s\<lparr>ld_brk := seg_end\<rparr> else s))"

section \<open>Relocations\<close>

definition write_to_page ::
  "'k kernel \<Rightarrow> 'k poke \<Rightarrow> 'k ElfLoaderCtx \<Rightarrow> cap \<Rightarrow> u64 \<Rightarrow> u64 \<Rightarrow> 'k machine \<Rightarrow> int \<times> 'k machine" where
  "write_to_page K poke ctx frame_cap page_offset val m =
     (case map_scratch K ctx frame_cap m of
        (err, m1) \<Rightarrow>
          if err \<noteq> 0 then (err, m1)
          else (0, unmap_scratch K ctx (pokes poke (ec_scratch_vaddr ctx + page_offset) (le_bytes 8 val) m1)))"

text \<open>The scan of the dynamic section: address, size and entry size of the relocations.\<close>

partial_function (option) rela_scan ::
  "mem \<Rightarrow> u64 \<Rightarrow> u64 \<Rightarrow> u64 \<Rightarrow> u64 \<times> u64 \<times> u64 \<Rightarrow> (u64 \<times> u64 \<times> u64) option"
where
  "rela_scan data data_len dyn_end pos r =
     (if pos + 16 \<le> dyn_end \<and> pos + 16 \<le> data_len
      then do {
        d \<leftarrow> read_dyn data (unat pos);
        if d_tag d = DT_NULL then Some r
        else case r of (rela_vaddr, rela_size, rela_ent) \<Rightarrow>
               rela_scan data data_len dyn_end (pos + 16)
                 (if d_tag d = DT_RELA then d_val d else rela_vaddr,
                  if d_tag d = DT_RELASZ then d_val d else rela_size,
                  if d_tag d = DT_RELAENT then d_val d else rela_ent) }
      else Some r)"

fun reloc_loop ::
  "'k kernel \<Rightarrow> 'k poke \<Rightarrow> target_arch \<Rightarrow> mem \<Rightarrow> u64 \<Rightarrow> u64 \<Rightarrow> u64 \<Rightarrow> ElfPageEntry list \<Rightarrow> 'k ElfLoaderCtx \<Rightarrow>
   u64 \<Rightarrow> u64 \<Rightarrow> nat list \<Rightarrow> 'k machine \<Rightarrow> (int \<times> 'k machine) option"
where
  "reloc_loop K poke arch data data_len delta load_base pages ctx rela_off rela_ent [] m = Some (0, m)"
| "reloc_loop K poke arch data data_len delta load_base pages ctx rela_off rela_ent (i # is) m =
     (let entry_off = rela_off + of_nat i * rela_ent
      in if data_len < entry_off + 24 then Some (ELF_RELOC_FAILED, m)
         else do {
           rela \<leftarrow> read_rela data (unat entry_off);
           if (ucast (r_info rela AND 0xFFFFFFFF) :: u32) = r_relative arch
           then let target_vaddr = r_offset rela + delta;
                    val = load_base + r_addend rela;
                    target_page = elf_page_align_down target_vaddr;
                    page_offset = target_vaddr - target_page
                in case find_page target_page pages of
                     None \<Rightarrow> Some (ELF_RELOC_FAILED, m)
                   | Some j \<Rightarrow>
                       (case write_to_page K poke ctx (pe_frame_cap (pages ! j)) page_offset val m of
                          (err, m') \<Rightarrow>
                            if err \<noteq> 0 then Some (ELF_RELOC_FAILED, m')
                            else reloc_loop K poke arch data data_len delta load_base pages ctx
                                   rela_off rela_ent is m')
           else reloc_loop K poke arch data data_len delta load_base pages ctx rela_off rela_ent is m })"

definition apply_relocations ::
  "'k kernel \<Rightarrow> 'k poke \<Rightarrow> target_arch \<Rightarrow> mem \<Rightarrow> u64 \<Rightarrow> u64 \<Rightarrow> u64 \<Rightarrow> ElfPageEntry list \<Rightarrow> 'k ElfLoaderCtx \<Rightarrow>
   'k machine \<Rightarrow> (int \<times> 'k machine) option" where
  "apply_relocations K poke arch data data_len delta load_base pages ctx m =
     do {
       e \<leftarrow> read_ehdr data 0;
       dyn \<leftarrow> phdr_find data data_len e (\<lambda>ph. p_type ph = PT_DYNAMIC);
       case (case dyn of None \<Rightarrow> (0, 0) | Some ph \<Rightarrow> (p_offset ph, p_filesz ph)) of
         (dyn_offset, dyn_size) \<Rightarrow>
           if dyn_offset = 0 then Some (0, m)
           else do {
             r \<leftarrow> rela_scan data data_len (dyn_offset + dyn_size) dyn_offset (0, 0, 0);
             case r of (rela_vaddr, rela_size, rela_ent) \<Rightarrow>
               if rela_vaddr = 0 \<or> rela_size = 0 \<or> rela_ent = 0 then Some (0, m)
               else if rela_ent < 24 then Some (ELF_RELOC_FAILED, m)
               else do {
                 fo \<leftarrow> vaddr_to_file_offset data data_len e rela_vaddr;
                 case fo of
                   None \<Rightarrow> Some (ELF_RELOC_FAILED, m)
                 | Some off \<Rightarrow>
                     reloc_loop K poke arch data data_len delta load_base pages ctx off rela_ent
                       [0..<unat (rela_size div rela_ent)] m } } }"

section \<open>Loading an image\<close>

definition elf_check_header :: "target_arch \<Rightarrow> Elf64Ehdr \<Rightarrow> int" where
  "elf_check_header arch e =
     (if \<not> is_elf e then ELF_NOT_ELF
      else if e_ident e ! 4 \<noteq> 2 then ELF_NOT_64BIT
      else if e_ident e ! 5 \<noteq> 1 then ELF_NOT_LE
      else if e_type e \<noteq> ET_EXEC \<and> e_type e \<noteq> ET_DYN then ELF_BAD_TYPE
      else if e_machine e \<noteq> elf_machine arch then ELF_BAD_ARCH
      else ELF_OK)"

definition min_load_vaddr :: "mem \<Rightarrow> u64 \<Rightarrow> Elf64Ehdr \<Rightarrow> (u64 \<times> bool) option" where
  "min_load_vaddr data data_len e =
     phdr_fold data data_len e
       (\<lambda>ph (min_vaddr, has_load).
          if p_type ph = PT_LOAD
          then (if p_vaddr ph < min_vaddr then p_vaddr ph else min_vaddr, True)
          else (min_vaddr, has_load)) (- 1, False)"

definition load_capacity :: "mem \<Rightarrow> u64 \<Rightarrow> Elf64Ehdr \<Rightarrow> u64 \<Rightarrow> u64 option" where
  "load_capacity data data_len e delta =
     phdr_fold data data_len e
       (\<lambda>ph tot. if p_type ph \<noteq> PT_LOAD then tot else seg_pages (p_vaddr ph + delta) (p_memsz ph) tot) 0"

text \<open>The outcome: error code, output structure when it is written, final context, hint and machine.\<close>

type_synonym 'k load_outcome = "int \<times> ElfLoadResult option \<times> 'k loader"

definition elf_load ::
  "'k kernel \<Rightarrow> 'k poke \<Rightarrow> target_arch \<Rightarrow> mem \<Rightarrow> u64 \<Rightarrow> u64 \<Rightarrow> 'k ElfLoaderCtx \<Rightarrow> cap \<Rightarrow> 'k machine \<Rightarrow>
   'k load_outcome option" where
  "elf_load K poke arch data data_len load_base ctx hint m =
     (let s0 = \<lparr>ld_ctx = ctx, ld_hint = hint, ld_m = m, ld_pages = [], ld_brk = 0\<rparr>
      in if data_len < 64 then Some (ELF_TOO_SMALL, None, s0)
         else do {
           e \<leftarrow> read_ehdr data 0;
           if elf_check_header arch e \<noteq> ELF_OK then Some (elf_check_header arch e, None, s0)
           else do {
             mv \<leftarrow> min_load_vaddr data data_len e;
             if \<not> snd mv then Some (ELF_NO_LOAD, None, s0)
             else let is_pie = (e_type e = ET_DYN);
                      delta = (if is_pie then load_base - fst mv else 0)
                  in do {
                    page_capacity \<leftarrow> load_capacity data data_len e delta;
                    if page_capacity = 0 then Some (ELF_NO_LOAD, None, s0)
                    else if MAX_PAGES < page_capacity then Some (ELF_OUT_OF_MEMORY, None, s0)
                    else do {
                      r \<leftarrow> phdr_for data data_len e (phdr_indices e)
                             (load_segment K poke data data_len page_capacity delta) s0;
                      case r of
                        Inr (err, s) \<Rightarrow> Some (err, None, s)
                      | Inl s \<Rightarrow>
                          do {
                            rel \<leftarrow> (if is_pie
                                    then apply_relocations K poke arch data data_len delta load_base
                                           (ld_pages s) (ld_ctx s) (ld_m s)
                                    else Some (0, ld_m s));
                            case rel of (err, m') \<Rightarrow>
                              Some (if err \<noteq> 0 then (err, None, s\<lparr>ld_m := m'\<rparr>)
                                    else (ELF_OK,
                                          Some \<lparr>lr_entry = e_entry e + delta, lr_base = load_base,
                                                lr_brk = ld_brk s\<rparr>,
                                          s\<lparr>ld_m := m'\<rparr>)) } } } } })"

section \<open>What a load may do to the machine\<close>

text \<open>
  \<open>elf_closed\<close>: the set of machines \<open>P\<close> is closed under the operations that
  the loader is meant to perform.  It maps and unmaps the scratch page, stores
  into it and the 7 bytes behind it, maps pages into the child with user access
  and never both writable and executable, retypes frames, queries its CNode and
  calls the callbacks.
\<close>

definition child_flags :: "u64 set" where
  "child_flags = {VSPACE_FLAG_USER, VSPACE_FLAG_USER OR VSPACE_FLAG_WRITABLE,
     VSPACE_FLAG_USER OR VSPACE_FLAG_EXECUTABLE}"

definition elf_closed :: "'k kernel \<Rightarrow> 'k poke \<Rightarrow> 'k ElfLoaderCtx \<Rightarrow> ('k machine \<Rightarrow> bool) \<Rightarrow> bool" where
  "elf_closed K poke ctx P \<longleftrightarrow>
     (\<forall>f m. P m \<longrightarrow> P (snd (map_scratch K ctx f m))) \<and>
     (\<forall>m. P m \<longrightarrow> P (unmap_scratch K ctx m)) \<and>
     (\<forall>k<4103. \<forall>b m. P m \<longrightarrow> P (poke (ec_scratch_vaddr ctx + of_nat k) b m)) \<and>
     (\<forall>f va fl m. P m \<and> 4096 dvd unat va \<and> fl \<in> child_flags \<longrightarrow>
        P (snd (vspace_map K (ec_child_vspace ctx) f va fl m))) \<and>
     (\<forall>va m. P m \<longrightarrow> P (snd (vspace_unmap K (ec_child_vspace ctx) va m))) \<and>
     (\<forall>ut slot m. P m \<longrightarrow> P (snd (untyped_retype K ut OBJ_FRAME 0 slot m))) \<and>
     (\<forall>m. P m \<longrightarrow> P (snd (cnode_get_info K CAP_SELF_CSPACE m))) \<and>
     (\<forall>a m. ec_alloc_frame_slot ctx = Some a \<and> P m \<longrightarrow> P (snd (a m))) \<and>
     (\<forall>r va f fl m. ec_record_page ctx = Some r \<and> P m \<longrightarrow> P (snd (r va f fl m)))"

definition ld_inv :: "'k kernel \<Rightarrow> 'k poke \<Rightarrow> ('k machine \<Rightarrow> bool) \<Rightarrow> 'k loader \<Rightarrow> bool" where
  "ld_inv K poke P s \<longleftrightarrow>
     elf_closed K poke (ld_ctx s) P \<and> P (ld_m s) \<and> (\<forall>p\<in>set (ld_pages s). pe_flags p \<in> child_flags)"

definition res_state :: "'k loader + int \<times> 'k loader \<Rightarrow> 'k loader" where
  "res_state r = (case r of Inl s \<Rightarrow> s | Inr (_, s) \<Rightarrow> s)"

text \<open>
  A kernel that grants every request and records the frames, the scratch
  mapping and the mappings of the child, and an image of one segment.
\<close>

record vm =
  vm_frames :: "cap \<Rightarrow> nat \<Rightarrow> u8"
  vm_scratch :: "cap option"
  vm_child :: "u64 \<Rightarrow> (cap \<times> u64) option"

definition vm_kernel :: "vm kernel" where
  "vm_kernel num cap lbl x0 x1 x2 x3 b k =
     (\<lparr>r_error = 0, r_value = 0\<rparr>, zero_ipc_buffer,
      if lbl = VSPACE_MAP
      then if cap = 1 then k\<lparr>vm_scratch := Some x0\<rparr> else k\<lparr>vm_child := (vm_child k)(x1 \<mapsto> (x0, x2))\<rparr>
      else if lbl = VSPACE_UNMAP
      then if cap = 1 then k\<lparr>vm_scratch := None\<rparr> else k\<lparr>vm_child := (vm_child k)(x0 := None)\<rparr>
      else k)"

definition vm_poke :: "vm poke" where
  "vm_poke a b m =
     (case vm_scratch (kern m) of
        None \<Rightarrow> m
      | Some f \<Rightarrow> m\<lparr>kern := (kern m)\<lparr>vm_frames := (vm_frames (kern m))
                   (f := (vm_frames (kern m) f)(unat (a - 0x10000000) := b))\<rparr>\<rparr>)"

definition vm_ctx :: "vm ElfLoaderCtx" where
  "vm_ctx = \<lparr>ec_untyped = 16, ec_self_vspace = 1, ec_child_vspace = 3, ec_scratch_vaddr = 0x10000000,
     ec_next_frame_slot = 100, ec_alloc_frame_slot = None, ec_record_page = None\<rparr>"

definition vm_start :: "vm machine" where
  "vm_start = \<lparr>ipc_buffer = None, send_cap_count = 0,
     kern = \<lparr>vm_frames = \<lambda>_ _. 0xAA, vm_scratch = None, vm_child = \<lambda>_. None\<rparr>\<rparr>"

definition sample_exec :: mem where
  "sample_exec = enc_image (plain_ehdr ET_EXEC 0x400078 64 1) [plain_phdr PT_LOAD 5 0 0x400000 130 5000]
     [1, 2, 3, 4, 5, 6, 7, 8, 9, 10]"

text \<open>A position-independent program with one relative relocation, of its last 8 bytes.\<close>

definition sample_pie :: mem where
  "sample_pie =
     enc_image (plain_ehdr ET_DYN 0x78 64 2)
       [plain_phdr PT_LOAD 6 0 0 272 272, plain_phdr PT_DYNAMIC 4 176 176 64 64]
       (enc_dyn \<lparr>d_tag = DT_RELA, d_val = 240\<rparr> @ enc_dyn \<lparr>d_tag = DT_RELASZ, d_val = 24\<rparr> @
        enc_dyn \<lparr>d_tag = DT_RELAENT, d_val = 24\<rparr> @ enc_dyn \<lparr>d_tag = DT_NULL, d_val = 0\<rparr> @
        enc_rela \<lparr>r_offset = 264, r_info = 8, r_addend = 16\<rparr> @ [0, 0, 0, 0, 0, 0, 0, 0])"

section \<open>Flags\<close>

lemma child_flags_eq: "child_flags = {2, 3, 6}"
  by (simp add: child_flags_def)

lemma phdr_to_flags_child: "phdr_to_flags fl \<in> child_flags"
  by (simp add: phdr_to_flags_def child_flags_eq Let_def)

lemma merge_flags_child:
  "old \<in> child_flags \<Longrightarrow> fl \<in> child_flags \<Longrightarrow> merge_flags old fl \<in> child_flags"
  by (auto simp: child_flags_eq merge_flags_def Let_def)

section \<open>Loads stay inside the permitted operations\<close>

lemma elf_closed_ctx [simp]:
  "elf_closed K poke (ctx\<lparr>ec_untyped := u\<rparr>) P = elf_closed K poke ctx P"
  "elf_closed K poke (ctx\<lparr>ec_next_frame_slot := u\<rparr>) P = elf_closed K poke ctx P"
  by (simp_all add: elf_closed_def map_scratch_def unmap_scratch_def)

lemma elf_closedD:
  assumes "elf_closed K poke ctx P" "P m"
  shows "map_scratch K ctx f m = (e, m') \<Longrightarrow> P m'"
    "P (unmap_scratch K ctx m)"
    "k < 4103 \<Longrightarrow> P (poke (ec_scratch_vaddr ctx + of_nat k) b m)"
    "4096 dvd unat va \<Longrightarrow> fl \<in> child_flags \<Longrightarrow> vspace_map K (ec_child_vspace ctx) f va fl m = (e, m') \<Longrightarrow> P m'"
    "P (snd (vspace_unmap K (ec_child_vspace ctx) va m))"
    "untyped_retype K ut OBJ_FRAME 0 slot m = (e, m') \<Longrightarrow> P m'"
    "P (snd (cnode_get_info K CAP_SELF_CSPACE m))"
    "ec_alloc_frame_slot ctx = Some a \<Longrightarrow> P (snd (a m))"
    "ec_record_page ctx = Some r \<Longrightarrow> P (snd (r va f fl m))"
proof -
  note c = assms(1) [unfolded elf_closed_def]
  note c1 = c [THEN conjunct1, rule_format, OF assms(2)] and r1 = c [THEN conjunct2]
  note c2 = r1 [THEN conjunct1, rule_format, OF assms(2)] and r2 = r1 [THEN conjunct2]
  note c3 = r2 [THEN conjunct1, rule_format, OF _ assms(2)] and r3 = r2 [THEN conjunct2]
  note c4 = r3 [THEN conjunct1, rule_format, OF conjI [OF assms(2)]] and r4 = r3 [THEN conjunct2]
  note c5 = r4 [THEN conjunct1, rule_format, OF assms(2)] and r5 = r4 [THEN conjunct2]
  note c6 = r5 [THEN conjunct1, rule_format, OF assms(2)] and r6 = r5 [THEN conjunct2]
  note c7 = r6 [THEN conjunct1, rule_format, OF assms(2)] and r7 = r6 [THEN conjunct2]
  note c8 = r7 [THEN conjunct1, rule_format, OF conjI [OF _ assms(2)]]
    and c9 = r7 [THEN conjunct2, rule_format, OF conjI [OF _ assms(2)]]
  show "map_scratch K ctx f m = (e, m') \<Longrightarrow> P m'" using c1 [of f] by simp
  show "P (unmap_scratch K ctx m)" by (rule c2)
  show "k < 4103 \<Longrightarrow> P (poke (ec_scratch_vaddr ctx + of_nat k) b m)" by (rule c3)
  show "4096 dvd unat va \<Longrightarrow> fl \<in> child_flags \<Longrightarrow> vspace_map K (ec_child_vspace ctx) f va fl m = (e, m') \<Longrightarrow> P m'"
    using c4 [of va fl f] by simp
  show "P (snd (vspace_unmap K (ec_child_vspace ctx) va m))" by (rule c5)
  show "untyped_retype K ut OBJ_FRAME 0 slot m = (e, m') \<Longrightarrow> P m'" using c6 [of ut slot] by simp
  show "P (snd (cnode_get_info K CAP_SELF_CSPACE m))" by (rule c7)
  show "ec_alloc_frame_slot ctx = Some a \<Longrightarrow> P (snd (a m))" by (rule c8)
  show "ec_record_page ctx = Some r \<Longrightarrow> P (snd (r va f fl m))" by (rule c9)
qed

lemma retype_scan_closed:
  assumes "elf_closed K poke ctx P" "P m"
  shows "P (snd (retype_scan K untyped slot is best m))"
  using assms(2)
proof (induction "is" arbitrary: best m)
  case (Cons i "is")
  then show ?case using elf_closedD(6) [OF assms(1) Cons.prems] by (auto simp: Let_def split: prod.split)
qed simp

lemma untyped_scan_end_closed:
  assumes "elf_closed K poke ctx P" "P m"
  shows "P (snd (untyped_scan_end K m))"
  using elf_closedD(7) [OF assms] by (auto simp: untyped_scan_end_def Let_def split: prod.split)

lemma try_retype_inv:
  assumes "ld_inv K poke P s"
  shows "ld_inv K poke P (snd (try_retype_frame_any_untyped K slot s))"
proof -
  have c: "elf_closed K poke (ld_ctx s) P" "P (ld_m s)" using assms by (simp_all add: ld_inv_def)
  obtain err m1 where r: "untyped_retype K (ec_untyped (ld_ctx s)) OBJ_FRAME 0 slot (ld_m s) = (err, m1)"
    by fastforce
  have m1: "P m1" by (rule elf_closedD(6) [OF c r])
  obtain en m2 where e: "untyped_scan_end K m1 = (en, m2)" by fastforce
  have m2: "P m2" using untyped_scan_end_closed [OF c(1) m1] e by simp
  have "P m'" if "retype_scan K u slot is b m2 = (x, m'')" "retype_scan K u' slot is' b' m'' = (y, m')"
    for u u' "is" is' b b' x y m' m''
    using retype_scan_closed [OF c(1) m2, of u slot "is" b] retype_scan_closed [OF c(1), of m'' u' slot is' b'] that
    by simp
  moreover have "P m'" if "retype_scan K u slot is b m2 = (x, m')" for u "is" b x m'
    using retype_scan_closed [OF c(1) m2, of u slot "is" b] that by simp
  ultimately show ?thesis
    using assms m1 r e
    by (auto simp: try_retype_frame_any_untyped_def ld_inv_def Let_def split: prod.split sum.split)
qed

lemma next_frame_inv:
  assumes "ld_inv K poke P s"
  shows "ld_inv K poke P (snd (next_frame_slot s))"
proof (cases "ec_alloc_frame_slot (ld_ctx s)")
  case None
  with assms show ?thesis by (simp add: next_frame_slot_def ld_inv_def Let_def)
next
  case (Some a)
  with assms have "P (snd (a (ld_m s)))" using elf_closedD(8) [of K poke "ld_ctx s" P "ld_m s" a] by (simp add: ld_inv_def)
  with Some assms show ?thesis by (auto simp: next_frame_slot_def ld_inv_def split: prod.split)
qed

lemma record_closed:
  assumes "elf_closed K poke ctx P" "P m"
  shows "P (snd (record_page_map ctx va f fl m))"
  using elf_closedD(9) [OF assms] assms(2) by (auto simp: record_page_map_def split: option.split)

lemma pokes_closed:
  assumes "elf_closed K poke ctx P" "P m" "k + length bs \<le> 4103"
  shows "P (pokes poke (ec_scratch_vaddr ctx + of_nat k) bs m)"
  using assms(2,3)
proof (induction bs arbitrary: k m)
  case (Cons b bs)
  have "P (poke (ec_scratch_vaddr ctx + of_nat k) b m)"
    using elf_closedD(3) [OF assms(1)] Cons.prems by simp
  from Cons.IH [OF this, of "Suc k"] Cons.prems show ?case by (simp add: ac_simps)
qed simp

lemma page_copy_fits:
  assumes "unat pv + 4096 < 2 ^ 64" "page_copy delta sv ph pv = (src, dst, len)"
  shows "unat dst + unat len \<le> 4096"
proof (cases "len = 0")
  case True
  with assms(2) show ?thesis
    by (auto simp: page_copy_def Let_def split: if_splits)
next
  case False
  define cs where "cs = (if sv < pv then pv else sv)"
  define ce where "ce = (if pv + 4096 < sv + p_filesz ph then pv + 4096 else sv + p_filesz ph)"
  have c: "cs < ce" "dst = cs - pv" "len = ce - cs"
    using assms(2) False by (auto simp: page_copy_def Let_def cs_def ce_def split: if_splits)
  have "pv \<le> cs" "ce \<le> pv + 4096" by (auto simp: cs_def ce_def not_less)
  moreover have "unat (pv + 4096) = unat pv + 4096" using assms(1) by (subst unat_add_le) simp_all
  ultimately show ?thesis
    using c by (simp add: unat_sub_le word_le_nat_alt word_less_nat_alt less_imp_le)
qed

lemma copy_file_closed:
  assumes "elf_closed K poke ctx P" "P m" "unat pv + 4096 < 2 ^ 64"
    and "copy_file poke data n ctx (page_copy delta sv ph pv) m = Some m'"
  shows "P m'"
proof -
  obtain src dst len where c: "page_copy delta sv ph pv = (src, dst, len)" by (cases "page_copy delta sv ph pv")
  have fit: "unat dst + unat len \<le> 4096" by (rule page_copy_fits [OF assms(3) c])
  have "P (pokes poke (ec_scratch_vaddr ctx + of_nat (unat dst)) bs m)" if "length bs = unat len" for bs
    by (rule pokes_closed [OF assms(1,2)]) (use fit that in simp)
  then show ?thesis
    using assms(2,4) c by (auto simp: copy_file_def bind_eq_Some_conv dest: read_bytes_length split: if_splits)
qed

lemma load_existing_inv:
  assumes inv: "ld_inv K poke P s" and pv: "4096 dvd unat pv" "unat pv + 4096 < 2 ^ 64"
    and idx: "idx < length (ld_pages s)" and fl: "flags \<in> child_flags"
    and r: "load_existing K poke data n flags (page_copy delta sv ph pv) idx pv s = Some r"
  shows "ld_inv K poke P (res_state r)"
proof -
  let ?ctx = "ld_ctx s" and ?p = "ld_pages s ! idx"
  let ?c = "page_copy delta sv ph pv" and ?fl = "merge_flags (pe_flags (ld_pages s ! idx)) flags"
  have c: "elf_closed K poke ?ctx P" "P (ld_m s)" using inv by (simp_all add: ld_inv_def)
  have mf: "?fl \<in> child_flags" using inv idx fl by (intro merge_flags_child) (auto simp: ld_inv_def)
  obtain m1 where m1: "P m1"
    and r': "Some r = Some (if ?fl \<noteq> pe_flags ?p
       then case vspace_map K (ec_child_vspace ?ctx) (pe_frame_cap ?p) pv ?fl
                   (snd (vspace_unmap K (ec_child_vspace ?ctx) pv m1)) of
              (remap_err, m3) \<Rightarrow>
                if remap_err \<noteq> 0 then Inr (ELF_MAP_FAILED, s\<lparr>ld_m := m3\<rparr>)
                else case record_page_map ?ctx pv (pe_frame_cap ?p) ?fl m3 of
                       (x, m4) \<Rightarrow>
                         let s' = s\<lparr>ld_m := m4, ld_pages := (ld_pages s)[idx := ?p\<lparr>pe_flags := ?fl\<rparr>]\<rparr>
                         in if x \<noteq> 0 then Inr (ELF_OUT_OF_MEMORY, s') else Inl s'
       else Inl (s\<lparr>ld_m := m1\<rparr>))"
  proof -
    obtain src dst len where cc: "?c = (src, dst, len)" by (cases ?c)
    obtain e m where ms: "map_scratch K ?ctx (pe_frame_cap ?p) (ld_m s) = (e, m)" by fastforce
    have "P m" by (rule elf_closedD(1) [OF c ms])
    then have "copy_file poke data n ?ctx ?c m = Some m' \<Longrightarrow> P (unmap_scratch K ?ctx m')" for m'
      using elf_closedD(2) [OF c(1)] copy_file_closed [OF c(1) _ pv(2)] by blast
    with \<open>P m\<close> c(2) r cc ms that show thesis
      by (auto simp: load_existing_def Let_def bind_eq_Some_conv split: if_splits)
  qed
  have m2: "P (snd (vspace_unmap K (ec_child_vspace ?ctx) pv m1))" by (rule elf_closedD(5) [OF c(1) m1])
  obtain e3 m3 where v: "vspace_map K (ec_child_vspace ?ctx) (pe_frame_cap ?p) pv ?fl
      (snd (vspace_unmap K (ec_child_vspace ?ctx) pv m1)) = (e3, m3)" by fastforce
  have m3: "P m3" by (rule elf_closedD(4) [OF c(1) m2 pv(1) mf v])
  obtain x m4 where w: "record_page_map ?ctx pv (pe_frame_cap ?p) ?fl m3 = (x, m4)" by fastforce
  have m4: "P m4" using record_closed [OF c(1) m3, of pv "pe_frame_cap ?p" ?fl] w by simp
  show ?thesis
    using inv r' m1 m3 m4 mf
    by (auto simp: v w Let_def ld_inv_def res_state_def dest: set_update_mem split: if_splits)
qed

lemma fill_new_inv:
  assumes inv: "ld_inv K poke P s" and pv: "4096 dvd unat pv" "unat pv + 4096 < 2 ^ 64"
    and fl: "flags \<in> child_flags"
    and r: "fill_new K poke data n flags (page_copy delta sv ph pv) slot pv s = Some r"
  shows "ld_inv K poke P (res_state r)"
proof -
  let ?ctx = "ld_ctx s"
  have c: "elf_closed K poke ?ctx P" "P (ld_m s)" using inv by (simp_all add: ld_inv_def)
  obtain e m1 where ms: "map_scratch K ?ctx slot (ld_m s) = (e, m1)" by fastforce
  have m1: "P m1" by (rule elf_closedD(1) [OF c ms])
  show ?thesis
  proof (cases "e = 0")
    case False
    with r inv m1 ms show ?thesis by (auto simp: fill_new_def res_state_def ld_inv_def)
  next
    case True
    let ?z = "pokes poke (ec_scratch_vaddr ?ctx) (replicate 4096 0) m1"
    have z: "P ?z" using pokes_closed [OF c(1) m1, of 0 "replicate 4096 0"] by simp
    from r True ms obtain m2 where m2: "copy_file poke data n ?ctx (page_copy delta sv ph pv) ?z = Some m2"
      by (auto simp: fill_new_def Let_def bind_eq_Some_conv)
    have m3: "P (unmap_scratch K ?ctx m2)"
      by (rule elf_closedD(2) [OF c(1) copy_file_closed [OF c(1) z pv(2) m2]])
    obtain e4 m4 where v: "vspace_map K (ec_child_vspace ?ctx) slot pv flags (unmap_scratch K ?ctx m2) = (e4, m4)"
      by fastforce
    have m4: "P m4" by (rule elf_closedD(4) [OF c(1) m3 pv(1) fl v])
    obtain x m5 where w: "record_page_map ?ctx pv slot flags m4 = (x, m5)" by fastforce
    have m5: "P m5" using record_closed [OF c(1) m4, of pv slot flags] w by simp
    show ?thesis
      using r inv m4 m5 fl
      by (auto simp: fill_new_def ms True m2 v w Let_def ld_inv_def res_state_def split: if_splits)
  qed
qed

lemma load_new_inv:
  assumes inv: "ld_inv K poke P s" and pv: "4096 dvd unat pv" "unat pv + 4096 < 2 ^ 64"
    and fl: "flags \<in> child_flags"
    and r: "load_new K poke data n cap flags (page_copy delta sv ph pv) pv s = Some r"
  shows "ld_inv K poke P (res_state r)"
proof -
  obtain slot s1 where s1: "next_frame_slot s = (slot, s1)" by fastforce
  have i1: "ld_inv K poke P s1" using next_frame_inv [OF inv] s1 by simp
  obtain e s2 where s2: "(if ec_untyped (ld_ctx s1) \<noteq> 0 then try_retype_frame_any_untyped K slot s1 else (0, s1)) = (e, s2)"
    by fastforce
  have i2: "ld_inv K poke P s2" using try_retype_inv [OF i1, of slot] i1 s2 by (auto split: if_splits)
  show ?thesis
    using r inv i1 i2 fill_new_inv [OF i2 pv fl, of data n delta sv ph slot r]
    unfolding load_new_def s1 prod.case s2 by (auto simp: res_state_def split: if_splits)
qed

lemma find_page_Some:
  "find_page va pages = Some i \<Longrightarrow> i < length pages \<and> pe_vaddr (pages ! i) = va"
  unfolding find_page_def by (auto dest: find_upt_Some(2,3))

lemma load_page_inv:
  assumes inv: "ld_inv K poke P s" and pv: "4096 dvd unat pv" "unat pv + 4096 < 2 ^ 64"
    and r: "load_page K poke data n cap delta ph pv s = Some r"
  shows "ld_inv K poke P (res_state r)"
proof (cases "find_page pv (ld_pages s)")
  case None
  with r show ?thesis
    by (intro load_new_inv [OF inv pv phdr_to_flags_child]) (simp add: load_page_def Let_def)
next
  case (Some idx)
  with r show ?thesis
    by (intro load_existing_inv [OF inv pv _ phdr_to_flags_child])
      (simp_all add: load_page_def Let_def find_page_Some)
qed

text \<open>The loop over the pages of a segment, whose end is a multiple of the page size.\<close>

lemma page_step:
  assumes "4096 dvd unat (pv :: u64)" "4096 dvd unat e" "pv < e"
  shows "unat (pv + 4096) = unat pv + 4096" "unat pv + 4096 \<le> unat e" "4096 dvd unat (pv + 4096)"
    "unat pv + 4096 < 2 ^ 64"
proof -
  have lt: "unat pv < unat e" using assms(3) by (simp add: word_less_nat_alt)
  from assms obtain i j where ij: "unat pv = 4096 * i" "unat e = 4096 * j" by (auto elim!: dvdE)
  with lt have "i + 1 \<le> j" by simp
  then have "4096 * (i + 1) \<le> 4096 * j" by (rule mult_le_mono2)
  then show le: "unat pv + 4096 \<le> unat e" using ij by simp
  then have "unat pv + 4096 < 18446744073709551616" using unat_lt64 [of e] by linarith
  then show b: "unat pv + 4096 < 2 ^ 64" by simp
  then show "unat (pv + 4096) = unat pv + 4096" by (subst unat_add_le) simp_all
  with assms(1) show "4096 dvd unat (pv + 4096)" by simp
qed

lemma load_pages_inv:
  assumes "ld_inv K poke P s" "4096 dvd unat pv" "4096 dvd unat seg_end"
    and "load_pages K poke data n cap delta ph seg_end pv s = Some r"
  shows "ld_inv K poke P (res_state r)"
  using assms(1,2,4)
proof (induction "unat seg_end - unat pv" arbitrary: pv s rule: less_induct)
  case less
  show ?case
  proof (cases "pv < seg_end")
    case False
    with less.prems show ?thesis by (subst (asm) load_pages.simps) (auto simp: res_state_def)
  next
    case True
    note st = page_step [OF less.prems(2) assms(3) True]
    from less.prems(3) True obtain x where x: "load_page K poke data n cap delta ph pv s = Some x"
      and rest: "(case x of Inl s' \<Rightarrow> load_pages K poke data n cap delta ph seg_end (pv + 4096) s'
        | Inr y \<Rightarrow> Some (Inr y)) = Some r"
      by (subst (asm) load_pages.simps) (auto simp: bind_eq_Some_conv)
    have i: "ld_inv K poke P (res_state x)" by (rule load_page_inv [OF less.prems(1,2) st(4) x])
    show ?thesis
    proof (cases x)
      case (Inl s')
      have "unat seg_end - unat (pv + 4096) < unat seg_end - unat pv" using st(1,2) by simp
      from less.hyps [OF this _ st(3)] i rest Inl show ?thesis by (simp add: res_state_def)
    next
      case (Inr y)
      with rest i show ?thesis by simp
    qed
  qed
qed

lemma page_aligned [simp]: "4096 dvd unat (elf_page_align_down v)" "4096 dvd unat (elf_page_align_up v)"
proof -
  show "4096 dvd unat (elf_page_align_down v)" by (simp add: unat_elf_page_align_down)
  have "elf_page_align_up v = elf_page_align_down (v + ELF_PAGE_SIZE - 1)"
    by (simp add: elf_page_align_up_def elf_page_align_down_def)
  then show "4096 dvd unat (elf_page_align_up v)" by (simp add: unat_elf_page_align_down)
qed

lemma load_segment_inv:
  assumes "ld_inv K poke P s" "load_segment K poke data n cap delta ph s = Some r"
  shows "ld_inv K poke P (res_state r)"
proof (cases "p_type ph = PT_LOAD")
  case False
  with assms show ?thesis by (auto simp: load_segment_def res_state_def)
next
  case True
  let ?e = "elf_page_align_up (p_vaddr ph + delta + p_memsz ph)"
  have "ld_inv K poke P (if ld_brk s < ?e then s\<lparr>ld_brk := ?e\<rparr> else s)" using assms(1) by (simp add: ld_inv_def)
  from load_pages_inv [OF this page_aligned] True assms(2) show ?thesis by (simp add: load_segment_def Let_def)
qed

lemma phdr_for_inv:
  assumes "\<And>ph s r. J s \<Longrightarrow> f ph s = Some r \<Longrightarrow> J (res_state r)" "J s" "phdr_for m n e is f s = Some r"
  shows "J (res_state r)"
  using assms(2,3)
proof (induction "is" arbitrary: s)
  case Nil
  then show ?case by (auto simp: res_state_def)
next
  case (Cons i "is")
  let ?off = "e_phoff e + of_nat i * ucast (e_phentsize e)"
  show ?case
  proof (cases "n < ?off + 56")
    case True
    with Cons.prems show ?thesis by (auto simp: res_state_def)
  next
    case False
    with Cons.prems(2) obtain ph x where x: "f ph s = Some x"
      "(case x of Inl s' \<Rightarrow> phdr_for m n e is f s' | Inr y \<Rightarrow> Some (Inr y)) = Some r"
      by (auto simp: Let_def bind_eq_Some_conv)
    with assms(1) [OF Cons.prems(1) x(1)] Cons.IH show ?thesis by (cases x) (auto simp: res_state_def)
  qed
qed

section \<open>Relocations stay inside them\<close>

lemma write_to_page_closed:
  assumes c: "elf_closed K poke ctx P" "P m" and off: "unat off < 4096"
    and w: "write_to_page K poke ctx f off v m = (e, m')"
  shows "P m'"
proof -
  obtain e1 m1 where ms: "map_scratch K ctx f m = (e1, m1)" by fastforce
  have m1: "P m1" by (rule elf_closedD(1) [OF c ms])
  have "P (pokes poke (ec_scratch_vaddr ctx + of_nat (unat off)) (le_bytes 8 v) m1)"
    by (rule pokes_closed [OF c(1) m1]) (use off in simp)
  then have "P (unmap_scratch K ctx (pokes poke (ec_scratch_vaddr ctx + off) (le_bytes 8 v) m1))"
    using elf_closedD(2) [OF c(1)] by simp
  with w m1 show ?thesis by (auto simp: write_to_page_def ms split: if_splits)
qed

lemma page_offset_lt: "unat (v - elf_page_align_down v) < 4096"
  using page_align_down_le [of v] by (simp add: unat_sub_le unat_elf_page_align_down)

lemma reloc_loop_closed:
  assumes c: "elf_closed K poke ctx P" "P m"
    and r: "reloc_loop K poke arch data n delta base pages ctx ro re is m = Some (e, m')"
  shows "P m'"
  using c(2) r
proof (induction "is" arbitrary: m)
  case (Cons i "is")
  show ?case
  proof (cases "n < ro + of_nat i * re + 24")
    case True
    with Cons.prems show ?thesis by simp
  next
    case False
    with Cons.prems(2) obtain rela where rela: "read_rela data (unat (ro + of_nat i * re)) = Some rela"
      by (auto simp: Let_def bind_eq_Some_conv)
    let ?t = "r_offset rela + delta"
    let ?off = "?t - elf_page_align_down ?t"
    show ?thesis
    proof (cases "(ucast (r_info rela AND 0xFFFFFFFF) :: u32) = r_relative arch \<and>
        find_page (elf_page_align_down ?t) pages \<noteq> None")
      case True
      then obtain j where j: "find_page (elf_page_align_down ?t) pages = Some j" by auto
      obtain e1 m1 where w: "write_to_page K poke ctx (pe_frame_cap (pages ! j)) ?off (base + r_addend rela) m = (e1, m1)"
        by fastforce
      have "P m1" by (rule write_to_page_closed [OF c(1) Cons.prems(1) page_offset_lt w])
      with Cons.prems(2) Cons.IH False rela True j w show ?thesis by (auto simp: Let_def split: if_splits)
    next
      case f: False
      with Cons False rela show ?thesis by (auto simp: Let_def split: if_splits option.splits)
    qed
  qed
qed simp

lemma apply_relocations_closed:
  assumes "elf_closed K poke ctx P" "P m"
    and "apply_relocations K poke arch data n delta base pages ctx m = Some (e, m')"
  shows "P m'"
proof -
  from assms(3) obtain e' dyn where "read_ehdr data 0 = Some e'"
      "phdr_find data n e' (\<lambda>ph. p_type ph = PT_DYNAMIC) = Some dyn"
    by (auto simp: apply_relocations_def bind_eq_Some_conv)
  moreover obtain off size where "(case dyn of None \<Rightarrow> (0, 0) | Some ph \<Rightarrow> (p_offset ph, p_filesz ph)) = (off, size)"
    by fastforce
  ultimately have "m' = m \<or> (\<exists>ro re is. reloc_loop K poke arch data n delta base pages ctx ro re is m = Some (e, m'))"
    using assms(3)
    by (cases "off = 0") (auto simp: apply_relocations_def bind_eq_Some_conv split: if_splits option.splits)
  then show ?thesis using assms(2) reloc_loop_closed [OF assms(1,2)] by blast
qed

section \<open>The bytes that a page takes from the file\<close>

lemma page_copy_cases:
  assumes pv: "unat pv + 4096 < 2 ^ 64" and sv: "sv = p_vaddr ph + delta"
    and off: "p_offset ph \<le> p_offset ph + p_filesz ph"
    and c: "page_copy delta sv ph pv = (src, dst, len)" and len: "len \<noteq> 0"
  shows "unat sv + unat (p_filesz ph) < 2 ^ 64"
    "unat dst = max (unat pv) (unat sv) - unat pv"
    "unat dst + unat len = min (unat pv + 4096) (unat sv + unat (p_filesz ph)) - unat pv"
    "max (unat pv) (unat sv) < min (unat pv + 4096) (unat sv + unat (p_filesz ph))"
    "unat src = unat (p_offset ph) + (max (unat pv) (unat sv) - unat sv)"
    "unat (src + len) = unat src + unat len"
    "unat src + unat len \<le> unat (p_offset ph) + unat (p_filesz ph)"
proof -
  define cs where "cs = (if sv < pv then pv else sv)"
  define ce where "ce = (if pv + 4096 < sv + p_filesz ph then pv + 4096 else sv + p_filesz ph)"
  have eq: "cs < ce" "src = cs - delta - p_vaddr ph + p_offset ph" "dst = cs - pv" "len = ce - cs"
    using c len by (auto simp: page_copy_def Let_def cs_def ce_def split: if_splits)
  have csu: "unat cs = max (unat pv) (unat sv)" by (auto simp: cs_def word_less_nat_alt)
  have "sv \<le> cs" "ce \<le> sv + p_filesz ph" by (auto simp: cs_def ce_def not_less)
  with eq(1) have "sv \<le> sv + p_filesz ph" by (meson le_less_trans less_imp_le less_le_trans)
  then show w: "unat sv + unat (p_filesz ph) < 2 ^ 64" by (simp add: word_le_add_iff)
  have pu: "unat (pv + 4096) = unat pv + 4096" using pv by (subst unat_add_le) simp_all
  have fu: "unat (sv + p_filesz ph) = unat sv + unat (p_filesz ph)" using w by (simp add: unat_add_le)
  have ceu: "unat ce = min (unat pv + 4096) (unat sv + unat (p_filesz ph))"
    by (auto simp: ce_def word_less_nat_alt pu fu)
  show lt: "max (unat pv) (unat sv) < min (unat pv + 4096) (unat sv + unat (p_filesz ph))"
    using eq(1) unfolding word_less_nat_alt csu ceu .
  have ou: "unat (p_offset ph) + unat (p_filesz ph) < 2 ^ 64" using off by (simp add: word_le_add_iff)
  show du: "unat dst = max (unat pv) (unat sv) - unat pv"
    using csu by (simp add: eq(3) unat_sub_le word_le_nat_alt)
  have lu: "unat len = unat ce - unat cs" using eq(1) by (simp add: eq(4) unat_sub_le less_imp_le)
  then show "unat dst + unat len = min (unat pv + 4096) (unat sv + unat (p_filesz ph)) - unat pv"
    using du csu ceu lt by simp
  have "src = (cs - sv) + p_offset ph" by (simp add: eq(2) sv)
  moreover have d: "unat (cs - sv) = unat cs - unat sv" using \<open>sv \<le> cs\<close> by (rule unat_sub_le)
  moreover have le: "unat cs - unat sv + unat len \<le> unat (p_filesz ph)" using lu csu ceu lt by simp
  ultimately show su: "unat src = unat (p_offset ph) + (max (unat pv) (unat sv) - unat sv)"
    using ou by (simp only: csu) (subst unat_add_le, simp_all add: csu)
  show le2: "unat src + unat len \<le> unat (p_offset ph) + unat (p_filesz ph)" using le csu su by simp
  show "unat (src + len) = unat src + unat len" using le_less_trans [OF le2 ou] by (simp add: unat_add_le)
qed

lemma page_copy_none:
  assumes "unat pv + 4096 < 2 ^ 64" "unat sv + unat (p_filesz ph) < 2 ^ 64"
    "\<not> max (unat pv) (unat sv) < min (unat pv + 4096) (unat sv + unat (p_filesz ph))"
  shows "page_copy delta sv ph pv = (0, 0, 0)"
proof -
  have "unat (pv + 4096) = unat pv + 4096" "unat (sv + p_filesz ph) = unat sv + unat (p_filesz ph)"
    using assms(1,2) by (simp_all add: unat_add_le)
  with assms(3) show ?thesis by (auto simp: page_copy_def Let_def word_less_nat_alt)
qed

lemma copy_file_returns:
  assumes "unat n \<le> length data" "unat pv + 4096 < 2 ^ 64" "p_offset ph \<le> p_offset ph + p_filesz ph"
  shows "copy_file poke data n ctx (page_copy delta (p_vaddr ph + delta) ph pv) m \<noteq> None"
proof -
  obtain src dst len where c: "page_copy delta (p_vaddr ph + delta) ph pv = (src, dst, len)"
    by (cases "page_copy delta (p_vaddr ph + delta) ph pv")
  have "unat src + unat len \<le> unat n" if "len \<noteq> 0" "src + len \<le> n"
    using page_copy_cases(6) [OF assms(2) refl assms(3) c that(1)] that(2) by (simp add: word_le_nat_alt)
  then show ?thesis using assms(1) by (force simp: copy_file_def c read_bytes_def)
qed

section \<open>Loads return\<close>

lemma load_page_returns:
  assumes "unat n \<le> length data" "unat pv + 4096 < 2 ^ 64" "p_offset ph \<le> p_offset ph + p_filesz ph"
  shows "load_page K poke data n cap delta ph pv s \<noteq> None"
proof -
  have ex: "\<exists>m'. copy_file poke data n ctx (page_copy delta (p_vaddr ph + delta) ph pv) m = Some m'" for ctx m
    using copy_file_returns [OF assms] by blast
  have "load_existing K poke data n fl (page_copy delta (p_vaddr ph + delta) ph pv) idx pv s \<noteq> None" for fl idx
  proof -
    obtain src dst len where c: "page_copy delta (p_vaddr ph + delta) ph pv = (src, dst, len)"
      by (cases "page_copy delta (p_vaddr ph + delta) ph pv")
    have ex': "\<exists>m'. copy_file poke data n ctx (src, dst, len) m = Some m'" for ctx m using ex by (simp add: c)
    obtain e m1 where ms: "map_scratch K (ld_ctx s) (pe_frame_cap (ld_pages s ! idx)) (ld_m s) = (e, m1)"
      by fastforce
    show ?thesis using ex' [of "ld_ctx s" m1] by (auto simp: load_existing_def Let_def ms c)
  qed
  moreover have "fill_new K poke data n fl (page_copy delta (p_vaddr ph + delta) ph pv) slot pv s' \<noteq> None" for fl slot s'
  proof -
    obtain e m1 where ms: "map_scratch K (ld_ctx s') slot (ld_m s') = (e, m1)" by fastforce
    show ?thesis
      using ex [of "ld_ctx s'" "pokes poke (ec_scratch_vaddr (ld_ctx s')) (replicate 4096 0) m1"]
      by (auto simp: fill_new_def Let_def ms split: prod.split)
  qed
  ultimately show ?thesis
    by (auto simp: load_page_def load_new_def Let_def split: option.split prod.split)
qed

lemma load_pages_returns:
  assumes d: "unat n \<le> length data" "p_offset ph \<le> p_offset ph + p_filesz ph"
    and e: "4096 dvd unat seg_end" and pv: "4096 dvd unat pv"
  shows "load_pages K poke data n cap delta ph seg_end pv s \<noteq> None"
  using pv
proof (induction "unat seg_end - unat pv" arbitrary: pv s rule: less_induct)
  case less
  show ?case
  proof (cases "pv < seg_end")
    case False
    then show ?thesis by (subst load_pages.simps) simp
  next
    case True
    note st = page_step [OF less.prems e True]
    obtain x where x: "load_page K poke data n cap delta ph pv s = Some x"
      using load_page_returns [OF d(1) st(4) d(2)] by blast
    have "load_pages K poke data n cap delta ph seg_end (pv + 4096) s' \<noteq> None" for s'
      by (rule less.hyps) (use st in simp_all)
    then show ?thesis using True x by (subst load_pages.simps) (auto split: sum.split)
  qed
qed

lemma loop_over_returns:
  assumes "\<And>x s. x \<in> set xs \<Longrightarrow> f x s \<noteq> None"
  shows "loop_over f xs s \<noteq> None"
  using assms
proof (induction xs arbitrary: s)
  case (Cons x xs)
  then obtain r where "f x s = Some r" by fastforce
  with Cons show ?case by (cases r) simp_all
qed simp

lemma load_segments_returns:
  assumes "unat n \<le> length data"
    and "\<forall>ph\<in>set phs. p_type ph = PT_LOAD \<longrightarrow> p_offset ph \<le> p_offset ph + p_filesz ph"
  shows "loop_over (load_segment K poke data n cap delta) phs s \<noteq> None"
proof (rule loop_over_returns)
  fix ph s assume "ph \<in> set phs"
  with assms have "load_pages K poke data n cap delta ph e pv s' \<noteq> None"
    if "p_type ph = PT_LOAD" "4096 dvd unat e" "4096 dvd unat pv" for e pv s'
    using load_pages_returns that by blast
  then show "load_segment K poke data n cap delta ph s \<noteq> None"
    unfolding load_segment_def Let_def by simp
qed

lemma no_relocations:
  assumes "image_ok data n" "64 \<le> n" "\<forall>ph\<in>set (phdr_table data n (ehdr data)). p_type ph \<noteq> PT_DYNAMIC"
  shows "apply_relocations K poke arch data n delta base pages ctx m = Some (0, m)"
proof -
  have "64 \<le> length data" using assms(1,2) by (simp add: image_ok_def word_le_nat_alt)
  moreover have "find (\<lambda>ph. p_type ph = PT_DYNAMIC) (phdr_table data n (ehdr data)) = None"
    using assms(3) by (simp add: find_None_iff)
  ultimately show ?thesis using assms(1) by (simp add: apply_relocations_def read_ehdr_0 phdr_find_table)
qed

section \<open>Relocations end\<close>

lemma rela_scan_returns:
  assumes n: "unat n \<le> length data" "unat n < 2 ^ 62" and pos: "unat pos + 16 < 2 ^ 64"
  shows "rela_scan data n dyn_end pos r \<noteq> None"
  using pos
proof (induction "unat n - unat pos" arbitrary: pos r rule: less_induct)
  case less
  show ?case
  proof (cases "pos + 16 \<le> dyn_end \<and> pos + 16 \<le> n")
    case False
    then show ?thesis by (subst rela_scan.simps) (cases r, auto)
  next
    case True
    have u: "unat (pos + 16) = unat pos + 16" using less.prems by (subst unat_add_le) simp_all
    then have le: "unat pos + 16 \<le> unat n" using True by (simp add: word_le_nat_alt)
    obtain d where d: "read_dyn data (unat pos) = Some d" using le n(1) by (simp add: read_dyn_Some)
    have "rela_scan data n dyn_end (pos + 16) r' \<noteq> None" for r'
      by (rule less.hyps) (use u le n(2) in simp_all)
    then show ?thesis using True d by (subst rela_scan.simps) (auto split: prod.split)
  qed
qed

text \<open>
  No offset of a relocation that is read wraps: each one is at most an entry size behind one
  that lies inside the file, and two entries fit below \<open>2 ^ 64\<close>.
\<close>

lemma reloc_loop_returns:
  assumes n: "unat n \<le> length data" "unat n < 2 ^ 62" and c: "c * unat ent < 2 ^ 64"
    and a: "a < c \<Longrightarrow> unat off + a * unat ent + 24 < 2 ^ 64"
  shows "reloc_loop K poke arch data n delta base pages ctx off ent [a..<c] m \<noteq> None"
  using a
proof (induction "c - a" arbitrary: a m)
  case (Suc k)
  then have lt: "a < c" "unat off + a * unat ent + 24 < 2 ^ 64" by simp_all
  have "a * unat ent < 2 ^ 64" using lt(2) by linarith
  moreover have "unat (of_nat a * ent) = a * unat ent mod 2 ^ 64"
    by (simp add: unat_word_ariths unat_of_nat mod_mult_left_eq)
  ultimately have am: "unat (of_nat a * ent) = a * unat ent" by simp
  have e: "unat (off + of_nat a * ent) = unat off + a * unat ent"
    using lt(2) by (subst unat_add_le) (simp_all add: am)
  have e24: "unat (off + of_nat a * ent + 24) = unat off + a * unat ent + 24"
    using lt(2) by (subst unat_add_le) (simp_all add: e)
  show ?case
  proof (cases "n < off + of_nat a * ent + 24")
    case True
    then show ?thesis using lt(1) by (simp add: upt_conv_Cons)
  next
    case False
    then have le: "unat off + a * unat ent + 24 \<le> unat n" by (simp add: word_less_nat_alt e24)
    then obtain x where x: "read_rela data (unat (off + of_nat a * ent)) = Some x"
      using n(1) by (simp add: read_rela_Some e)
    have nxt: "unat off + Suc a * unat ent + 24 < 2 ^ 64" if "Suc a < c"
    proof -
      have "2 * unat ent \<le> c * unat ent" using that by (intro mult_le_mono1) simp
      from this c have "2 * unat ent < 2 ^ 64" by (rule order_le_less_trans)
      then have "unat ent < 2 ^ 63" by simp
      with le n(2) have "unat off + a * unat ent + 24 + unat ent < 2 ^ 64" by simp
      then show ?thesis by (simp add: algebra_simps)
    qed
    have "reloc_loop K poke arch data n delta base pages ctx off ent [Suc a..<c] m' \<noteq> None" for m'
      by (rule Suc.hyps(1)) (use Suc.hyps(2) nxt in simp_all)
    then show ?thesis
      using lt(1) False x by (auto simp: upt_conv_Cons Let_def split: option.split prod.split)
  qed
qed simp

lemma file_offset_inside:
  assumes "image_ok data n"
  shows "\<exists>r. vaddr_to_file_offset data n (ehdr data) va = Some r \<and> (\<forall>off. r = Some off \<longrightarrow> off < n)"
proof -
  let ?f = "\<lambda>ph _ :: unit. Some (if p_type ph \<noteq> PT_LOAD then Inl ()
      else if va < p_vaddr ph then Inl ()
      else let seg_off = va - p_vaddr ph
           in if p_filesz ph \<le> seg_off then Inl ()
              else let file_off = p_offset ph + seg_off in Inr (if n \<le> file_off then None else Some file_off))"
  have "\<exists>x. loop_over ?f phs u = Some x \<and> (\<forall>off. x = Inr (Some off) \<longrightarrow> off < n)" for phs u
    by (induction phs) (auto simp: Let_def)
  then obtain x where "loop_over ?f (phdr_table data n (ehdr data)) () = Some x" "\<And>off. x = Inr (Some off) \<Longrightarrow> off < n"
    by blast
  then show ?thesis
    by (cases x) (simp_all add: vaddr_to_file_offset_def phdr_for_table [OF assms])
qed

lemma apply_relocations_returns:
  assumes img: "image_ok data n" "64 \<le> n" "unat n < 2 ^ 62"
    and dyn: "\<forall>ph\<in>set (phdr_table data n (ehdr data)). p_type ph = PT_DYNAMIC \<longrightarrow> unat (p_offset ph) + 16 < 2 ^ 64"
  shows "apply_relocations K poke arch data n delta base pages ctx m \<noteq> None"
proof -
  let ?dyn = "find (\<lambda>ph. p_type ph = PT_DYNAMIC) (phdr_table data n (ehdr data))"
  have n: "unat n \<le> length data" using img(1) by (simp add: image_ok_def)
  have e: "read_ehdr data 0 = Some (ehdr data)" using n img(2) by (intro read_ehdr_0) (simp add: word_le_nat_alt)
  obtain off size where os: "(case ?dyn of None \<Rightarrow> (0, 0) | Some ph \<Rightarrow> (p_offset ph, p_filesz ph)) = (off, size)"
    by fastforce
  have "unat off + 16 < 2 ^ 64"
  proof (cases ?dyn)
    case (Some ph)
    then have "ph \<in> set (phdr_table data n (ehdr data))" "p_type ph = PT_DYNAMIC"
      by (auto simp: find_Some_iff)
    with dyn Some os show ?thesis by auto
  qed (use os in simp)
  from rela_scan_returns [OF n img(3) this]
  obtain va sz ent where sc: "rela_scan data n (off + size) off (0, 0, 0) = Some (va, sz, ent)"
    by (metis not_None_eq prod_cases3)
  obtain fo where fo: "vaddr_to_file_offset data n (ehdr data) va = Some fo" "\<And>o'. fo = Some o' \<Longrightarrow> o' < n"
    using file_offset_inside [OF img(1)] by blast
  have "reloc_loop K poke arch data n delta base pages ctx o' ent [0..<unat (sz div ent)] m \<noteq> None" if "fo = Some o'" for o'
  proof (rule reloc_loop_returns [OF n img(3)])
    have "unat (sz div ent) * unat ent \<le> unat sz" by (simp add: unat_div)
    then show "unat (sz div ent) * unat ent < 2 ^ 64"
      by (rule order_le_less_trans) (use unat_lt64 [of sz] in simp)
    show "unat o' + 0 * unat ent + 24 < 2 ^ 64" using fo(2) [OF that] img(3) by (simp add: word_less_nat_alt)
  qed
  then show ?thesis
    using e sc fo(1) os by (auto simp: apply_relocations_def phdr_find_table [OF img(1)] split: option.split)
qed

section \<open>The sample kernel and image\<close>

lemma err32_0: "err32 0 = 0"
  by (simp add: err32_def)

lemma vm_invoke:
  "invoke_err vm_kernel cap lbl x0 x1 x2 x3 m =
     (0, m\<lparr>ipc_buffer := map_option (\<lambda>_. zero_ipc_buffer) (ipc_buffer m),
           kern := snd (snd (vm_kernel 0 cap lbl x0 x1 x2 x3 None (kern m)))\<rparr>)"
  by (simp add: invoke_err_def invoke_def syscall_def vm_kernel_def err32_0)

lemma vm_laws:
  "map_scratch vm_kernel vm_ctx f m =
     (0, m\<lparr>ipc_buffer := map_option (\<lambda>_. zero_ipc_buffer) (ipc_buffer m), kern := (kern m)\<lparr>vm_scratch := Some f\<rparr>\<rparr>)"
  "unmap_scratch vm_kernel vm_ctx m =
     m\<lparr>ipc_buffer := map_option (\<lambda>_. zero_ipc_buffer) (ipc_buffer m), kern := (kern m)\<lparr>vm_scratch := None\<rparr>\<rparr>"
  "vspace_map vm_kernel (ec_child_vspace vm_ctx) f va fl m =
     (0, m\<lparr>ipc_buffer := map_option (\<lambda>_. zero_ipc_buffer) (ipc_buffer m),
           kern := (kern m)\<lparr>vm_child := (vm_child (kern m))(va \<mapsto> (f, fl))\<rparr>\<rparr>)"
  "vspace_unmap vm_kernel (ec_child_vspace vm_ctx) va m =
     (0, m\<lparr>ipc_buffer := map_option (\<lambda>_. zero_ipc_buffer) (ipc_buffer m),
           kern := (kern m)\<lparr>vm_child := (vm_child (kern m))(va := None)\<rparr>\<rparr>)"
  "untyped_retype vm_kernel ut OBJ_FRAME 0 slot m =
     (0, m\<lparr>ipc_buffer := map_option (\<lambda>_. zero_ipc_buffer) (ipc_buffer m), kern := kern m\<rparr>)"
  "kern (snd (cnode_get_info vm_kernel CAP_SELF_CSPACE m)) = kern m"
  by (simp_all add: map_scratch_def unmap_scratch_def vspace_map_def vspace_unmap_def untyped_retype_def
      cnode_get_info_def invoke_def syscall_def vm_invoke vm_ctx_def vm_kernel_def)

lemma vm_ctx_fields:
  "ec_record_page vm_ctx = None" "ec_alloc_frame_slot vm_ctx = None" "ec_next_frame_slot vm_ctx = 100"
  "ec_untyped vm_ctx = 16"
  by (simp_all add: vm_ctx_def)

lemma vm_poke_at:
  assumes "k < 4103"
  shows "vm_poke (ec_scratch_vaddr vm_ctx + of_nat k) b m =
    (case vm_scratch (kern m) of
       None \<Rightarrow> m
     | Some f \<Rightarrow> m\<lparr>kern := (kern m)\<lparr>vm_frames := (vm_frames (kern m))(f := (vm_frames (kern m) f)(k := b))\<rparr>\<rparr>)"
  using assms by (simp add: vm_poke_def vm_ctx_def unat_of_nat_lt64 split: option.split)

lemma sample_exec_image:
  "ehdr sample_exec = plain_ehdr ET_EXEC 0x400078 64 1" "image_ok sample_exec 130" "length sample_exec = 130"
  "phdr_table sample_exec 130 (plain_ehdr ET_EXEC 0x400078 64 1) = [plain_phdr PT_LOAD 5 0 0x400000 130 5000]"
proof -
  show l: "length sample_exec = 130" by (simp add: sample_exec_def enc_image_def plain_ehdr_def)
  note t = enc_image_table [where e = "plain_ehdr ET_EXEC 0x400078 64 1" and n = 130
      and phs = "[plain_phdr PT_LOAD 5 0 0x400000 130 5000]"]
  show "ehdr sample_exec = plain_ehdr ET_EXEC 0x400078 64 1" "image_ok sample_exec 130"
    "phdr_table sample_exec 130 (plain_ehdr ET_EXEC 0x400078 64 1) = [plain_phdr PT_LOAD 5 0 0x400000 130 5000]"
    unfolding sample_exec_def
    by (rule t; simp add: plain_ehdr_def l [unfolded sample_exec_def plain_ehdr_def])+
qed

lemma sample_pie_image:
  "ehdr sample_pie = plain_ehdr ET_DYN 0x78 64 2" "image_ok sample_pie 272" "length sample_pie = 272"
  "phdr_table sample_pie 272 (plain_ehdr ET_DYN 0x78 64 2) =
     [plain_phdr PT_LOAD 6 0 0 272 272, plain_phdr PT_DYNAMIC 4 176 176 64 64]"
proof -
  show l: "length sample_pie = 272" by (simp add: sample_pie_def enc_image_def plain_ehdr_def)
  note t = enc_image_table [where e = "plain_ehdr ET_DYN 0x78 64 2" and n = 272
      and phs = "[plain_phdr PT_LOAD 6 0 0 272 272, plain_phdr PT_DYNAMIC 4 176 176 64 64]"]
  show "ehdr sample_pie = plain_ehdr ET_DYN 0x78 64 2" "image_ok sample_pie 272"
    "phdr_table sample_pie 272 (plain_ehdr ET_DYN 0x78 64 2) =
       [plain_phdr PT_LOAD 6 0 0 272 272, plain_phdr PT_DYNAMIC 4 176 176 64 64]"
    unfolding sample_pie_def
    by (rule t; simp add: plain_ehdr_def l [unfolded sample_pie_def plain_ehdr_def])+
qed

lemma elf_load_defined:
  assumes img: "image_ok data n"
    and len: "unat n < 2 ^ 62"
    and dyn: "\<forall>ph\<in>set (phdr_table data n (ehdr data)). p_type ph = PT_DYNAMIC \<longrightarrow> unat (p_offset ph) + 16 < 2 ^ 64"
    and segs: "\<forall>ph\<in>set (load_segments data n). p_offset ph \<le> p_offset ph + p_filesz ph"
  shows "elf_load K poke arch data n base ctx hint m \<noteq> None"
proof (cases "n < 64")
  case True
  then show ?thesis by (simp add: elf_load_def)
next
  case False
  then have n64: "64 \<le> n" by simp
  have n: "unat n \<le> length data" using img by (simp add: image_ok_def)
  have e: "read_ehdr data 0 = Some (ehdr data)"
    using n n64 by (intro read_ehdr_0) (simp add: word_le_nat_alt)
  obtain mv where mv: "min_load_vaddr data n (ehdr data) = Some mv"
    by (simp add: min_load_vaddr_def phdr_fold_table [OF img])
  define delta where "delta = (if e_type (ehdr data) = ET_DYN then base - fst mv else 0)"
  obtain cap where cap: "load_capacity data n (ehdr data) delta = Some cap"
    by (simp add: load_capacity_def phdr_fold_table [OF img])
  obtain r where r: "loop_over (load_segment K poke data n cap delta) (phdr_table data n (ehdr data))
      \<lparr>ld_ctx = ctx, ld_hint = hint, ld_m = m, ld_pages = [], ld_brk = 0\<rparr> = Some r"
    using load_segments_returns [OF n, of "phdr_table data n (ehdr data)" K poke cap delta
        "\<lparr>ld_ctx = ctx, ld_hint = hint, ld_m = m, ld_pages = [], ld_brk = 0\<rparr>"] segs
    by (auto simp: load_segments_def)
  show ?thesis
  proof (cases "e_type (ehdr data) = ET_DYN")
    case True
    then have "base - fst mv = delta" by (simp add: delta_def)
    moreover have "\<exists>e m''. apply_relocations K poke arch data n delta base pages c m' = Some (e, m'')" for pages c m'
      using apply_relocations_returns [OF img n64 len dyn] by fastforce
    then obtain f g where "\<And>pages c m'. apply_relocations K poke arch data n delta base pages c m' =
        Some (f pages c m', g pages c m')" by metis
    ultimately show ?thesis
      using False True e mv cap r
      by (auto simp: elf_load_def Let_def phdr_for_table [OF img] split: sum.split)
  next
    case exec: False
    then have "delta = 0" by (simp add: delta_def)
    then show ?thesis
      using False exec e mv cap r
      by (auto simp: elf_load_def Let_def phdr_for_table [OF img] split: sum.split)
  qed
qed

section \<open>Properties\<close>

text \<open>C7: Whatever the image and whatever the kernel answers, a load that returns has performed only
  the operations it is meant to perform.  Any set of machine states that is
  closed under them is kept: the loader maps pages into the child with user
  access and never both writable and executable, at page-aligned addresses, and
  it stores only into its scratch page and, when a relocation straddles the page
  end, the 7 bytes behind it.
\<close>

theorem elf_load_confined:
  assumes closed: "elf_closed K poke ctx P" and "P m"
    and r: "elf_load K poke arch data n base ctx hint m = Some (err, res, s)"
  shows "P (ld_m s)"
proof -
  let ?s0 = "\<lparr>ld_ctx = ctx, ld_hint = hint, ld_m = m, ld_pages = [], ld_brk = 0\<rparr>"
  have inv0: "ld_inv K poke P ?s0" using assms by (simp add: ld_inv_def)
  have run: "ld_inv K poke P (res_state x)"
    if "phdr_for data n e (phdr_indices e) (load_segment K poke data n cap delta) ?s0 = Some x" for e cap delta x
    by (rule phdr_for_inv [where J = "ld_inv K poke P", OF _ inv0 that]) (rule load_segment_inv)
  have fin: "P (ld_m s1)"
    if "phdr_for data n e (phdr_indices e) (load_segment K poke data n cap delta) ?s0 = Some (Inl s1)" for e cap delta s1
    using run [OF that] by (simp add: ld_inv_def res_state_def)
  have fail: "P (ld_m s1)"
    if "phdr_for data n e (phdr_indices e) (load_segment K poke data n cap delta) ?s0 = Some (Inr (c, s1))"
    for e cap delta c s1
    using run [OF that] by (simp add: ld_inv_def res_state_def)
  have rel: "P m'"
    if "phdr_for data n e (phdr_indices e) (load_segment K poke data n cap delta) ?s0 = Some (Inl s1)"
      "apply_relocations K poke arch data n delta base (ld_pages s1) (ld_ctx s1) (ld_m s1) = Some (c, m')"
    for e cap delta s1 c m'
  proof -
    have "elf_closed K poke (ld_ctx s1) P" using run [OF that(1)] by (simp add: ld_inv_def res_state_def)
    from this fin [OF that(1)] that(2) show ?thesis by (rule apply_relocations_closed)
  qed
  show ?thesis
    using r assms(2)
    by (auto simp: elf_load_def Let_def intro: fin fail rel split: if_splits bind_splits sum.splits prod.splits)
qed

theorem elf_load_confined_witness:
  "\<exists>err res s. elf_load vm_kernel vm_poke X86_64 sample_exec 130 0 vm_ctx 16 vm_start = Some (err, res, s) \<and>
     (\<forall>va f fl. vm_child (kern (ld_m s)) va = Some (f, fl) \<longrightarrow> fl \<noteq> 7)"
proof -
  let ?P = "\<lambda>m. \<forall>va f fl. vm_child (kern m) va = Some (f, fl) \<longrightarrow> fl \<noteq> 7"
  have "elf_closed vm_kernel vm_poke vm_ctx ?P"
    unfolding elf_closed_def
    by (auto simp: vm_laws vm_poke_at child_flags_eq vm_ctx_fields split: if_splits option.splits)
  moreover have "?P vm_start" by (simp add: vm_start_def)
  moreover have "elf_load vm_kernel vm_poke X86_64 sample_exec 130 0 vm_ctx 16 vm_start \<noteq> None"
    by (rule elf_load_defined [OF sample_exec_image(2)])
      (simp_all add: sample_exec_image load_segments_def, simp_all add: plain_ehdr_def plain_phdr_def)
  then obtain err res s where "elf_load vm_kernel vm_poke X86_64 sample_exec 130 0 vm_ctx 16 vm_start = Some (err, res, s)"
    by auto
  ultimately show ?thesis using elf_load_confined [of vm_kernel vm_poke vm_ctx ?P] by blast
qed

text \<open>C8: A load always returns, with and without relocations and on any kernel: the loops over headers,
  segments, pages, untyped capabilities, the dynamic section and the relocations end, and every byte that is read
  lies inside the image, for an image of fewer than \<open>2 ^ 62\<close> bytes in which the header table,
  the file ranges of the loadable segments and the first dynamic entry do not wrap.
\<close>

theorem elf_load_returns:
  assumes "image_ok data n" "unat n < 2 ^ 62"
    and "\<forall>ph\<in>set (phdr_table data n (ehdr data)). p_type ph = PT_DYNAMIC \<longrightarrow> unat (p_offset ph) + 16 < 2 ^ 64"
    and "\<forall>ph\<in>set (load_segments data n). p_offset ph \<le> p_offset ph + p_filesz ph"
  shows "\<exists>err res s. elf_load K poke arch data n base ctx hint m = Some (err, res, s)"
  using elf_load_defined [OF assms] by auto

theorem elf_load_returns_witness:
  "elf_check_header X86_64 (ehdr sample_pie) = ELF_OK \<and>
   (\<exists>err res s. elf_load vm_kernel vm_poke X86_64 sample_pie 272 0x400000 vm_ctx 16 vm_start = Some (err, res, s))"
proof
  show "elf_check_header X86_64 (ehdr sample_pie) = ELF_OK"
    by (simp add: sample_pie_image elf_check_header_def is_elf_def elf_machine_def plain_ehdr_def)
  show "\<exists>err res s. elf_load vm_kernel vm_poke X86_64 sample_pie 272 0x400000 vm_ctx 16 vm_start = Some (err, res, s)"
    by (rule elf_load_returns)
      (simp_all add: sample_pie_image load_segments_def, simp_all add: plain_ehdr_def plain_phdr_def)
qed

end
