(* ===== verification/Elf_Contents.thy ===== *)
theory Elf_Contents
  imports Elf_Loader
begin

text \<open>
  What \<open>elf_load\<close> leaves in the child: on a kernel that grants its requests,
  every page of the loadable segments is mapped, with the merged permissions of
  the segments that touch it, to a frame of its own whose bytes are the bytes of
  the file, zero outside the file part of every segment.
\<close>

section \<open>Specification\<close>

text \<open>
  \<open>elf_kernel\<close>: a kernel that grants every request of the loader, seen through
  the contents \<open>V\<close> of the frames, the frame \<open>S\<close> that is mapped at the scratch
  address and the mappings \<open>C\<close> of the child.  A store through the scratch
  mapping changes one byte of the frame that is mapped there; retyping and
  mapping change the contents of no other frame.
\<close>

definition elf_kernel ::
  "'k kernel \<Rightarrow> 'k poke \<Rightarrow> 'k ElfLoaderCtx \<Rightarrow> ('k machine \<Rightarrow> cap \<Rightarrow> nat \<Rightarrow> u8) \<Rightarrow>
   ('k machine \<Rightarrow> cap option) \<Rightarrow> ('k machine \<Rightarrow> u64 \<Rightarrow> (cap \<times> u64) option) \<Rightarrow> bool" where
  "elf_kernel K poke ctx V S C \<longleftrightarrow>
     (\<forall>f m. \<exists>m'. map_scratch K ctx f m = (0, m') \<and> S m' = Some f \<and> V m' = V m \<and> C m' = C m) \<and>
     (\<forall>m. V (unmap_scratch K ctx m) = V m \<and> C (unmap_scratch K ctx m) = C m) \<and>
     (\<forall>f k b m. S m = Some f \<and> k < 4096 \<longrightarrow>
        S (poke (ec_scratch_vaddr ctx + of_nat k) b m) = Some f \<and>
        V (poke (ec_scratch_vaddr ctx + of_nat k) b m) = (V m)(f := (V m f)(k := b)) \<and>
        C (poke (ec_scratch_vaddr ctx + of_nat k) b m) = C m) \<and>
     (\<forall>f va fl m. \<exists>m'. vspace_map K (ec_child_vspace ctx) f va fl m = (0, m') \<and>
        V m' = V m \<and> C m' = (C m)(va \<mapsto> (f, fl))) \<and>
     (\<forall>va m. V (snd (vspace_unmap K (ec_child_vspace ctx) va m)) = V m \<and>
        C (snd (vspace_unmap K (ec_child_vspace ctx) va m)) = (C m)(va := None)) \<and>
     (\<forall>slot m. \<exists>m'. untyped_retype K (ec_untyped ctx) OBJ_FRAME 0 slot m = (0, m') \<and>
        (\<forall>f. f \<noteq> slot \<longrightarrow> V m' f = V m f) \<and> C m' = C m)"

text \<open>What a load is given: such a kernel, no callbacks, and room for the frames.\<close>

definition load_env ::
  "'k kernel \<Rightarrow> 'k poke \<Rightarrow> 'k ElfLoaderCtx \<Rightarrow> ('k machine \<Rightarrow> cap \<Rightarrow> nat \<Rightarrow> u8) \<Rightarrow>
   ('k machine \<Rightarrow> cap option) \<Rightarrow> ('k machine \<Rightarrow> u64 \<Rightarrow> (cap \<times> u64) option) \<Rightarrow> bool" where
  "load_env K poke ctx V S C \<longleftrightarrow>
     elf_kernel K poke ctx V S C \<and> ec_record_page ctx = None \<and> ec_alloc_frame_slot ctx = None \<and>
     ec_next_frame_slot ctx \<noteq> 0 \<and> ec_next_frame_slot ctx < - 256"

text \<open>
  What the image asks for: the pages of a segment, the byte at an address, a
  later segment over an earlier one, and the flags of a page.
\<close>

definition seg_lo :: "u64 \<Rightarrow> Elf64Phdr \<Rightarrow> nat" where
  "seg_lo delta ph = unat (p_vaddr ph + delta)"

definition in_seg :: "u64 \<Rightarrow> Elf64Phdr \<Rightarrow> u64 \<Rightarrow> bool" where
  "in_seg delta ph pv \<longleftrightarrow>
     4096 dvd unat pv \<and> seg_lo delta ph div 4096 * 4096 \<le> unat pv \<and>
     unat pv < (seg_lo delta ph + unat (p_memsz ph) + 4095) div 4096 * 4096"

definition seg_byte :: "mem \<Rightarrow> u64 \<Rightarrow> Elf64Phdr \<Rightarrow> nat \<Rightarrow> u8 \<Rightarrow> u8" where
  "seg_byte data delta ph a prev =
     (if seg_lo delta ph \<le> a \<and> a < seg_lo delta ph + unat (p_filesz ph)
      then data ! (unat (p_offset ph) + (a - seg_lo delta ph)) else prev)"

definition image_byte :: "mem \<Rightarrow> u64 \<Rightarrow> Elf64Phdr list \<Rightarrow> nat \<Rightarrow> u8" where
  "image_byte data delta segs a = fold (\<lambda>ph. seg_byte data delta ph a) segs 0"

definition add_flags :: "Elf64Phdr \<Rightarrow> u64 option \<Rightarrow> u64 option" where
  "add_flags ph fl =
     Some (case fl of None \<Rightarrow> phdr_to_flags (p_flags ph) | Some old \<Rightarrow> merge_flags old (phdr_to_flags (p_flags ph)))"

definition page_flags :: "u64 \<Rightarrow> Elf64Phdr list \<Rightarrow> u64 \<Rightarrow> u64 option" where
  "page_flags delta segs pv = fold (\<lambda>ph fl. if in_seg delta ph pv then add_flags ph fl else fl) segs None"

definition seg_page_count :: "u64 \<Rightarrow> Elf64Phdr \<Rightarrow> nat" where
  "seg_page_count delta ph =
     ((seg_lo delta ph + unat (p_memsz ph) + 4095) div 4096 - seg_lo delta ph div 4096)"

text \<open>A segment that fits in the address space and in the file.\<close>

definition load_ok :: "u64 \<Rightarrow> u64 \<Rightarrow> Elf64Phdr \<Rightarrow> bool" where
  "load_ok n delta ph \<longleftrightarrow>
     p_vaddr ph + delta \<le> p_vaddr ph + delta + p_memsz ph \<and> p_vaddr ph + delta + p_memsz ph \<le> - 4096 \<and>
     p_filesz ph \<le> p_memsz ph \<and> p_offset ph \<le> p_offset ph + p_filesz ph \<and> p_offset ph + p_filesz ph \<le> n"

text \<open>
  The loader visits the pages of the segments in order; \<open>visits\<close> lists them and
  \<open>vis_inv\<close> relates the state after some visits to what they asked for.
\<close>

type_synonym visit = "Elf64Phdr \<times> u64"

definition seg_visits :: "u64 \<Rightarrow> Elf64Phdr \<Rightarrow> visit list" where
  "seg_visits delta ph =
     map (\<lambda>i. (ph, elf_page_align_down (p_vaddr ph + delta) + of_nat i * 4096)) [0..<seg_page_count delta ph]"

definition vis_byte :: "mem \<Rightarrow> u64 \<Rightarrow> visit list \<Rightarrow> u64 \<Rightarrow> nat \<Rightarrow> u8" where
  "vis_byte data delta vs pv k =
     fold (\<lambda>ph. seg_byte data delta ph (unat pv + k)) (map fst (filter (\<lambda>v. snd v = pv) vs)) 0"

definition vis_flags :: "visit list \<Rightarrow> u64 \<Rightarrow> u64 option" where
  "vis_flags vs pv = fold add_flags (map fst (filter (\<lambda>v. snd v = pv) vs)) None"

definition vis_inv ::
  "'k ElfLoaderCtx \<Rightarrow> (u64 \<Rightarrow> (cap \<times> u64) option) \<Rightarrow> ('k machine \<Rightarrow> cap \<Rightarrow> nat \<Rightarrow> u8) \<Rightarrow>
   ('k machine \<Rightarrow> u64 \<Rightarrow> (cap \<times> u64) option) \<Rightarrow> mem \<Rightarrow> u64 \<Rightarrow> visit list \<Rightarrow> 'k loader \<Rightarrow> bool" where
  "vis_inv ctx c0 V C data delta vs s \<longleftrightarrow>
     ld_ctx s = ctx\<lparr>ec_next_frame_slot := ec_next_frame_slot ctx + of_nat (length (ld_pages s))\<rparr> \<and>
     length (ld_pages s) \<le> length vs \<and>
     distinct (map pe_vaddr (ld_pages s)) \<and> pe_vaddr ` set (ld_pages s) = snd ` set vs \<and>
     (\<forall>i<length (ld_pages s). pe_frame_cap (ld_pages s ! i) = ec_next_frame_slot ctx + of_nat i) \<and>
     (\<forall>p\<in>set (ld_pages s). C (ld_m s) (pe_vaddr p) = Some (pe_frame_cap p, pe_flags p) \<and>
        vis_flags vs (pe_vaddr p) = Some (pe_flags p) \<and>
        (\<forall>k<4096. V (ld_m s) (pe_frame_cap p) k = vis_byte data delta vs (pe_vaddr p) k)) \<and>
     (\<forall>va. va \<notin> snd ` set vs \<longrightarrow> C (ld_m s) va = c0 va)"


definition visits :: "u64 \<Rightarrow> Elf64Phdr list \<Rightarrow> visit list" where
  "visits delta segs = concat (map (seg_visits delta) segs)"

text \<open>The displacement of a load, and the break after it.\<close>

definition load_delta :: "mem \<Rightarrow> u64 \<Rightarrow> u64 \<Rightarrow> u64" where
  "load_delta data n load_base =
     (if e_type (ehdr data) = ET_DYN then load_base - Min (set (map p_vaddr (load_segments data n))) else 0)"

definition image_brk :: "u64 \<Rightarrow> Elf64Phdr list \<Rightarrow> u64 \<Rightarrow> u64" where
  "image_brk delta segs b = fold (\<lambda>ph b. max b (elf_page_align_up (p_vaddr ph + delta + p_memsz ph))) segs b"

section \<open>Laws of the kernel\<close>

lemma elf_kernelE:
  assumes "elf_kernel K poke ctx V S C"
  shows "\<exists>m'. map_scratch K ctx f m = (0, m') \<and> S m' = Some f \<and> V m' = V m \<and> C m' = C m"
    "V (unmap_scratch K ctx m) = V m" "C (unmap_scratch K ctx m) = C m"
    "S m = Some f \<Longrightarrow> k < 4096 \<Longrightarrow> S (poke (ec_scratch_vaddr ctx + of_nat k) b m) = Some f"
    "S m = Some f \<Longrightarrow> k < 4096 \<Longrightarrow>
       V (poke (ec_scratch_vaddr ctx + of_nat k) b m) = (V m)(f := (V m f)(k := b))"
    "S m = Some f \<Longrightarrow> k < 4096 \<Longrightarrow> C (poke (ec_scratch_vaddr ctx + of_nat k) b m) = C m"
    "\<exists>m'. vspace_map K (ec_child_vspace ctx) f va fl m = (0, m') \<and> V m' = V m \<and> C m' = (C m)(va \<mapsto> (f, fl))"
    "V (snd (vspace_unmap K (ec_child_vspace ctx) va m)) = V m"
    "C (snd (vspace_unmap K (ec_child_vspace ctx) va m)) = (C m)(va := None)"
    "\<exists>m'. untyped_retype K (ec_untyped ctx) OBJ_FRAME 0 slot m = (0, m') \<and>
       (\<forall>f. f \<noteq> slot \<longrightarrow> V m' f = V m f) \<and> C m' = C m"
  using assms unfolding elf_kernel_def by simp_all

lemma elf_kernel_ctx [simp]:
  "elf_kernel K poke (ctx\<lparr>ec_next_frame_slot := x\<rparr>) V S C = elf_kernel K poke ctx V S C"
  by (simp add: elf_kernel_def map_scratch_def unmap_scratch_def)

lemma pokes_contents:
  assumes "elf_kernel K poke ctx V S C" "S m = Some f" "k + length bs \<le> 4096"
  shows "V (pokes poke (ec_scratch_vaddr ctx + of_nat k) bs m) =
      (V m)(f := \<lambda>j. if k \<le> j \<and> j < k + length bs then bs ! (j - k) else V m f j) \<and>
    C (pokes poke (ec_scratch_vaddr ctx + of_nat k) bs m) = C m \<and>
    S (pokes poke (ec_scratch_vaddr ctx + of_nat k) bs m) = Some f"
  using assms(2,3)
proof (induction bs arbitrary: k m)
  case Nil
  then show ?case by (auto simp: fun_eq_iff)
next
  case (Cons b bs)
  let ?m = "poke (ec_scratch_vaddr ctx + of_nat k) b m"
  have k: "k < 4096" using Cons.prems by simp
  note p = elf_kernelE(4,5,6) [OF assms(1) Cons.prems(1) k, of b]
  define M where "M = pokes poke (ec_scratch_vaddr ctx + of_nat (Suc k)) bs ?m"
  have IH: "V M = (V ?m)(f := \<lambda>j. if Suc k \<le> j \<and> j < Suc k + length bs then bs ! (j - Suc k) else V ?m f j) \<and>
    C M = C ?m \<and> S M = Some f"
    unfolding M_def by (rule Cons.IH) (use p(1) Cons.prems in simp_all)
  have eq: "pokes poke (ec_scratch_vaddr ctx + of_nat k) (b # bs) m = M"
    by (simp add: M_def ac_simps)
  have "(if Suc k \<le> j \<and> j < Suc k + length bs then bs ! (j - Suc k) else ((V m f)(k := b)) j) =
      (if k \<le> j \<and> j < k + length (b # bs) then (b # bs) ! (j - k) else V m f j)" for j
    by (cases "j = k") (auto simp: nth_Cons')
  then show ?case unfolding eq using IH [unfolded p fun_upd_same fun_upd_upd] by (simp del: length_Cons)
qed

section \<open>One page\<close>

lemma load_okD:
  assumes "load_ok n delta ph"
  shows "seg_lo delta ph + unat (p_memsz ph) + 4096 \<le> 2 ^ 64"
    "unat (p_filesz ph) \<le> unat (p_memsz ph)" "unat (p_offset ph) + unat (p_filesz ph) \<le> unat n"
    "p_offset ph \<le> p_offset ph + p_filesz ph"
proof -
  show "p_offset ph \<le> p_offset ph + p_filesz ph" using assms by (simp add: load_ok_def)
  then have "unat (p_offset ph) + unat (p_filesz ph) < 2 ^ 64" by (simp add: word_le_add_iff)
  then have "unat (p_offset ph + p_filesz ph) = unat (p_offset ph) + unat (p_filesz ph)" by (simp add: unat_add_le)
  then show "unat (p_offset ph) + unat (p_filesz ph) \<le> unat n"
    using assms by (simp add: load_ok_def word_le_nat_alt)
  show "unat (p_filesz ph) \<le> unat (p_memsz ph)" using assms by (simp add: load_ok_def word_le_nat_alt)
  have "seg_lo delta ph + unat (p_memsz ph) < 2 ^ 64"
    using assms by (simp add: load_ok_def word_le_add_iff seg_lo_def)
  then have "unat (p_vaddr ph + delta + p_memsz ph) = seg_lo delta ph + unat (p_memsz ph)"
    by (simp add: unat_add_le seg_lo_def)
  then show "seg_lo delta ph + unat (p_memsz ph) + 4096 \<le> 2 ^ 64"
    using assms by (simp add: load_ok_def word_le_nat_alt unat_page_limit)
qed

lemma copy_file_contents:
  assumes K: "elf_kernel K poke ctx V S C" and n: "unat n \<le> length data" and ok: "load_ok n delta ph"
    and pv: "unat pv + 4096 < 2 ^ 64" and S: "S m = Some f"
  shows "\<exists>m'. copy_file poke data n ctx (page_copy delta (p_vaddr ph + delta) ph pv) m = Some m' \<and>
    C m' = C m \<and> (\<forall>g. g \<noteq> f \<longrightarrow> V m' g = V m g) \<and>
    (\<forall>k<4096. V m' f k = seg_byte data delta ph (unat pv + k) (V m f k))"
proof -
  let ?sv = "p_vaddr ph + delta"
  note d = load_okD [OF ok]
  obtain src dst len where c: "page_copy delta ?sv ph pv = (src, dst, len)" by (cases "page_copy delta ?sv ph pv")
  have w: "unat ?sv + unat (p_filesz ph) < 2 ^ 64" using d(1,2) by (simp add: seg_lo_def)
  show ?thesis
  proof (cases "len = 0")
    case True
    have "\<not> max (unat pv) (unat ?sv) < min (unat pv + 4096) (unat ?sv + unat (p_filesz ph))"
    proof
      assume "max (unat pv) (unat ?sv) < min (unat pv + 4096) (unat ?sv + unat (p_filesz ph))"
      moreover have "unat (pv + 4096) = unat pv + 4096" "unat (?sv + p_filesz ph) = unat ?sv + unat (p_filesz ph)"
        using pv w by (simp_all add: unat_add_le)
      ultimately show False using c True
        by (auto simp: page_copy_def Let_def word_less_nat_alt split: if_splits)
    qed
    then have "seg_byte data delta ph (unat pv + k) x = x" if "k < 4096" for k x
      using that by (auto simp: seg_byte_def seg_lo_def)
    with True show ?thesis by (simp add: copy_file_def c)
  next
    case False
    note p = page_copy_cases [OF pv refl d(4) c False]
    have le: "src + len \<le> n" using p(6,7) d(3) by (simp add: word_le_nat_alt)
    define bs where "bs = take (unat len) (drop (unat src) data)"
    have in_data: "unat src + unat len \<le> length data" using p(7) d(3) n by linarith
    then have bl: "length bs = unat len" by (simp add: bs_def)
    have "0 < len" using False by (simp add: word_gt_0)
    then have cf: "copy_file poke data n ctx (page_copy delta ?sv ph pv) m =
        Some (pokes poke (ec_scratch_vaddr ctx + of_nat (unat dst)) bs m)"
      using le in_data by (simp add: copy_file_def c read_bytes_def bs_def)
    have fit: "unat dst + length bs \<le> 4096" using page_copy_fits [OF pv c] bl by simp
    note q = pokes_contents [OF K S fit]
    have "(if unat dst \<le> k \<and> k < unat dst + length bs then bs ! (k - unat dst) else V m f k) =
        seg_byte data delta ph (unat pv + k) (V m f k)" if k: "k < 4096" for k
    proof (cases "unat dst \<le> k \<and> k < unat dst + length bs")
      case True
      then have "k - unat dst < unat len" using bl by auto
      then have "bs ! (k - unat dst) = data ! (unat src + (k - unat dst))" using in_data by (simp add: bs_def)
      moreover have "unat src + (k - unat dst) = unat (p_offset ph) + (unat pv + k - unat ?sv)"
        using True p(2,5) by (auto simp: max_def split: if_splits)
      moreover have "unat ?sv \<le> unat pv + k" "unat pv + k < unat ?sv + unat (p_filesz ph)"
        using True p(2,3) bl by (auto simp: max_def min_def split: if_splits)
      ultimately show ?thesis using True by (simp add: seg_byte_def seg_lo_def)
    next
      case f: False
      then have "\<not> (unat ?sv \<le> unat pv + k \<and> unat pv + k < unat ?sv + unat (p_filesz ph))"
        using p(2,3,4) bl k by (auto simp: max_def min_def split: if_splits)
      with f show ?thesis by (auto simp: seg_byte_def seg_lo_def)
    qed
    with cf q show ?thesis by simp
  qed
qed

lemma load_existing_effect:
  assumes K: "elf_kernel K poke (ld_ctx s) V S C" and rec: "ec_record_page (ld_ctx s) = None"
    and n: "unat n \<le> length data" and ok: "load_ok n delta ph" and pv: "unat pv + 4096 < 2 ^ 64"
    and p: "p = ld_pages s ! idx" and fl: "merged = merge_flags (pe_flags p) (phdr_to_flags (p_flags ph))"
    and idx: "idx < length (ld_pages s)" "C (ld_m s) pv = Some (pe_frame_cap p, pe_flags p)"
  shows "\<exists>m'. load_existing K poke data n (phdr_to_flags (p_flags ph))
      (page_copy delta (p_vaddr ph + delta) ph pv) idx pv s =
      Some (Inl (s\<lparr>ld_m := m', ld_pages := (ld_pages s)[idx := p\<lparr>pe_flags := merged\<rparr>]\<rparr>)) \<and>
    C m' = (C (ld_m s))(pv \<mapsto> (pe_frame_cap p, merged)) \<and>
    (\<forall>g. g \<noteq> pe_frame_cap p \<longrightarrow> V m' g = V (ld_m s) g) \<and>
    (\<forall>k<4096. V m' (pe_frame_cap p) k =
       seg_byte data delta ph (unat pv + k) (V (ld_m s) (pe_frame_cap p) k))"
proof -
  let ?ctx = "ld_ctx s" and ?f = "pe_frame_cap p" and ?c = "page_copy delta (p_vaddr ph + delta) ph pv"
  obtain src dst len where c: "?c = (src, dst, len)" by (cases ?c)
  obtain m1 where m1: "map_scratch K ?ctx ?f (ld_m s) = (0, m1)" "S m1 = Some ?f" "V m1 = V (ld_m s)" "C m1 = C (ld_m s)"
    using elf_kernelE(1) [OF K] by blast
  obtain m2 where m2: "copy_file poke data n ?ctx ?c m1 = Some m2" "C m2 = C m1"
      "\<forall>g. g \<noteq> ?f \<longrightarrow> V m2 g = V m1 g" "\<forall>k<4096. V m2 ?f k = seg_byte data delta ph (unat pv + k) (V m1 ?f k)"
    using copy_file_contents [OF K n ok pv m1(2)] by blast
  define m3 where "m3 = (if 0 < len \<and> src + len \<le> n then unmap_scratch K ?ctx m2 else ld_m s)"
  have m3: "C m3 = C (ld_m s)" "\<forall>g. g \<noteq> ?f \<longrightarrow> V m3 g = V (ld_m s) g"
      "\<forall>k<4096. V m3 ?f k = seg_byte data delta ph (unat pv + k) (V (ld_m s) ?f k)"
    using m1 m2 elf_kernelE(2,3) [OF K, of m2] by (auto simp: m3_def copy_file_def c)
  obtain m4 where m4: "vspace_map K (ec_child_vspace ?ctx) ?f pv merged (snd (vspace_unmap K (ec_child_vspace ?ctx) pv m3)) = (0, m4)"
      "V m4 = V m3" "C m4 = (C m3)(pv \<mapsto> (?f, merged))"
    using elf_kernelE(7) [OF K, of ?f pv merged "snd (vspace_unmap K (ec_child_vspace ?ctx) pv m3)"]
      elf_kernelE(8,9) [OF K, of pv m3] by auto
  have same: "(ld_pages s)[idx := p] = ld_pages s" by (simp add: p)
  have "load_existing K poke data n (phdr_to_flags (p_flags ph)) ?c idx pv s =
      Some (Inl (s\<lparr>ld_m := if merged \<noteq> pe_flags p then m4 else m3,
        ld_pages := (ld_pages s)[idx := p\<lparr>pe_flags := merged\<rparr>]\<rparr>))"
    using m1(1) m2(1) m4(1) idx(1)
    by (auto simp: load_existing_def Let_def c p [symmetric] fl [symmetric] m3_def record_page_map_def rec same)
  moreover have "C (if merged \<noteq> pe_flags p then m4 else m3) = (C (ld_m s))(pv \<mapsto> (?f, merged))"
    using m3(1) m4(3) idx(2) by (simp add: fun_upd_idem)
  moreover have "V (if merged \<noteq> pe_flags p then m4 else m3) = V m3" using m4(2) by simp
  ultimately show ?thesis using m3(2,3) by metis
qed

lemma fill_new_effect:
  assumes K: "elf_kernel K poke (ld_ctx s) V S C" and rec: "ec_record_page (ld_ctx s) = None"
    and n: "unat n \<le> length data" and ok: "load_ok n delta ph" and pv: "unat pv + 4096 < 2 ^ 64"
  shows "\<exists>m'. fill_new K poke data n flags (page_copy delta (p_vaddr ph + delta) ph pv) f pv s =
      Some (Inl (s\<lparr>ld_m := m', ld_pages := ld_pages s @ [\<lparr>pe_vaddr = pv, pe_frame_cap = f, pe_flags = flags\<rparr>]\<rparr>)) \<and>
    C m' = (C (ld_m s))(pv \<mapsto> (f, flags)) \<and> (\<forall>g. g \<noteq> f \<longrightarrow> V m' g = V (ld_m s) g) \<and>
    (\<forall>k<4096. V m' f k = seg_byte data delta ph (unat pv + k) 0)"
proof -
  let ?ctx = "ld_ctx s" and ?c = "page_copy delta (p_vaddr ph + delta) ph pv"
  obtain m1 where m1: "map_scratch K ?ctx f (ld_m s) = (0, m1)" "S m1 = Some f" "V m1 = V (ld_m s)" "C m1 = C (ld_m s)"
    using elf_kernelE(1) [OF K] by blast
  let ?z = "pokes poke (ec_scratch_vaddr ?ctx) (replicate 4096 0) m1"
  have z: "C ?z = C m1" "S ?z = Some f" "\<forall>g. g \<noteq> f \<longrightarrow> V ?z g = V m1 g" "\<forall>k<4096. V ?z f k = 0"
    using pokes_contents [OF K m1(2), of 0 "replicate 4096 0"] by simp_all
  obtain m2 where m2: "copy_file poke data n ?ctx ?c ?z = Some m2" "C m2 = C ?z"
      "\<forall>g. g \<noteq> f \<longrightarrow> V m2 g = V ?z g" "\<forall>k<4096. V m2 f k = seg_byte data delta ph (unat pv + k) (V ?z f k)"
    using copy_file_contents [OF K n ok pv z(2)] by blast
  obtain m4 where m4: "vspace_map K (ec_child_vspace ?ctx) f pv flags (unmap_scratch K ?ctx m2) = (0, m4)"
      "V m4 = V m2" "C m4 = (C m2)(pv \<mapsto> (f, flags))"
    using elf_kernelE(7) [OF K, of f pv flags "unmap_scratch K ?ctx m2"] elf_kernelE(2,3) [OF K, of m2] by auto
  have "fill_new K poke data n flags ?c f pv s =
      Some (Inl (s\<lparr>ld_m := m4, ld_pages := ld_pages s @ [\<lparr>pe_vaddr = pv, pe_frame_cap = f, pe_flags = flags\<rparr>]\<rparr>))"
    using m1(1) m2(1) m4(1) by (simp add: fill_new_def Let_def record_page_map_def rec)
  then show ?thesis using m1 z m2 m4 by auto
qed

lemma load_new_effect:
  assumes K: "elf_kernel K poke (ld_ctx s) V S C"
    and cb: "ec_record_page (ld_ctx s) = None" "ec_alloc_frame_slot (ld_ctx s) = None"
    and n: "unat n \<le> length data" and ok: "load_ok n delta ph" and pv: "unat pv + 4096 < 2 ^ 64"
    and room: "length (ld_pages s) < unat cap" and f: "f = ec_next_frame_slot (ld_ctx s)" "f \<noteq> 0" "f \<noteq> - 1"
  shows "\<exists>m' h. load_new K poke data n cap flags (page_copy delta (p_vaddr ph + delta) ph pv) pv s =
      Some (Inl (s\<lparr>ld_ctx := (ld_ctx s)\<lparr>ec_next_frame_slot := f + 1\<rparr>, ld_hint := h, ld_m := m',
        ld_pages := ld_pages s @ [\<lparr>pe_vaddr = pv, pe_frame_cap = f, pe_flags = flags\<rparr>]\<rparr>)) \<and>
    C m' = (C (ld_m s))(pv \<mapsto> (f, flags)) \<and> (\<forall>g. g \<noteq> f \<longrightarrow> V m' g = V (ld_m s) g) \<and>
    (\<forall>k<4096. V m' f k = seg_byte data delta ph (unat pv + k) 0)"
proof -
  let ?s1 = "s\<lparr>ld_ctx := (ld_ctx s)\<lparr>ec_next_frame_slot := f + 1\<rparr>\<rparr>"
  obtain m1 where m1: "untyped_retype K (ec_untyped (ld_ctx s)) OBJ_FRAME 0 f (ld_m s) = (0, m1)"
      "\<forall>g. g \<noteq> f \<longrightarrow> V m1 g = V (ld_m s) g" "C m1 = C (ld_m s)"
    using elf_kernelE(10) [OF K] by blast
  define s2 where "s2 = (if ec_untyped (ld_ctx s) \<noteq> 0 then ?s1\<lparr>ld_m := m1, ld_hint := ec_untyped (ld_ctx s)\<rparr> else ?s1)"
  have s2: "ld_ctx s2 = (ld_ctx s)\<lparr>ec_next_frame_slot := f + 1\<rparr>" "ld_pages s2 = ld_pages s"
      "C (ld_m s2) = C (ld_m s)" "\<forall>g. g \<noteq> f \<longrightarrow> V (ld_m s2) g = V (ld_m s) g"
      "s2 = s\<lparr>ld_ctx := ld_ctx s2, ld_hint := ld_hint s2, ld_m := ld_m s2\<rparr>"
    using m1 by (simp_all add: s2_def)
  have "load_new K poke data n cap flags (page_copy delta (p_vaddr ph + delta) ph pv) pv s =
      fill_new K poke data n flags (page_copy delta (p_vaddr ph + delta) ph pv) f pv s2"
    using room f cb m1(1)
    by (simp add: load_new_def next_frame_slot_def Let_def s2_def try_retype_frame_any_untyped_def)
  moreover obtain m' where m': "fill_new K poke data n flags (page_copy delta (p_vaddr ph + delta) ph pv) f pv s2 =
        Some (Inl (s2\<lparr>ld_m := m', ld_pages := ld_pages s2 @ [\<lparr>pe_vaddr = pv, pe_frame_cap = f, pe_flags = flags\<rparr>]\<rparr>))"
      "C m' = (C (ld_m s2))(pv \<mapsto> (f, flags))" "\<forall>g. g \<noteq> f \<longrightarrow> V m' g = V (ld_m s2) g"
      "\<forall>k<4096. V m' f k = seg_byte data delta ph (unat pv + k) 0"
  proof -
    have "elf_kernel K poke (ld_ctx s2) V S C" "ec_record_page (ld_ctx s2) = None" using K cb by (simp_all add: s2(1))
    from fill_new_effect [OF this n ok pv] that show thesis by blast
  qed
  moreover have "s2\<lparr>ld_m := m', ld_pages := ld_pages s2 @ [\<lparr>pe_vaddr = pv, pe_frame_cap = f, pe_flags = flags\<rparr>]\<rparr> =
      s\<lparr>ld_ctx := (ld_ctx s)\<lparr>ec_next_frame_slot := f + 1\<rparr>, ld_hint := ld_hint s2, ld_m := m',
        ld_pages := ld_pages s @ [\<lparr>pe_vaddr = pv, pe_frame_cap = f, pe_flags = flags\<rparr>]\<rparr>"
    by (simp add: s2_def)
  ultimately show ?thesis using s2(3,4) m'(2,3,4)
    by (intro exI [of _ m'] exI [of _ "ld_hint s2"]) simp
qed

section \<open>A sequence of visits\<close>

lemma vis_snoc:
  "vis_byte data delta (vs @ [(ph, pv)]) va k =
     (if va = pv then seg_byte data delta ph (unat va + k) (vis_byte data delta vs va k) else vis_byte data delta vs va k)"
  "vis_flags (vs @ [(ph, pv)]) va = (if va = pv then add_flags ph (vis_flags vs va) else vis_flags vs va)"
  by (simp_all add: vis_byte_def vis_flags_def)

lemma vis_unseen:
  assumes "pv \<notin> snd ` set vs"
  shows "vis_byte data delta vs pv k = 0" "vis_flags vs pv = None"
proof -
  have "filter (\<lambda>v. snd v = pv) vs = []" using assms by (auto simp: filter_empty_conv)
  then show "vis_byte data delta vs pv k = 0" "vis_flags vs pv = None" by (simp_all add: vis_byte_def vis_flags_def)
qed

lemma find_page_None: "find_page pv pages = None \<longleftrightarrow> pv \<notin> pe_vaddr ` set pages"
  by (simp add: find_page_def find_None_iff image_iff all_set_conv_all_nth) blast

lemma unat_slot_limit: "unat (- 256 :: u64) = 18446744073709551360"
proof -
  have "(- 256 :: u64) = 18446744073709551360" by simp
  then show ?thesis by (simp only: unat_numeral) simp
qed

lemma slot_eq_iff:
  assumes "unat (b :: cap) + 256 < 2 ^ 64" "i < 256" "j < 256"
  shows "b + of_nat i = b + of_nat j \<longleftrightarrow> i = j"
proof -
  have "unat (of_nat i :: cap) = i" "unat (of_nat j :: cap) = j" using assms(2,3) by (simp_all add: unat_of_nat_lt64)
  then show ?thesis by (metis add_left_imp_eq)
qed

lemma vis_invD:
  assumes "vis_inv ctx c0 V C data delta vs s"
  shows "ld_ctx s = ctx\<lparr>ec_next_frame_slot := ec_next_frame_slot ctx + of_nat (length (ld_pages s))\<rparr>"
    "length (ld_pages s) \<le> length vs" "distinct (map pe_vaddr (ld_pages s))"
    "pe_vaddr ` set (ld_pages s) = snd ` set vs"
    "\<And>i. i < length (ld_pages s) \<Longrightarrow> pe_frame_cap (ld_pages s ! i) = ec_next_frame_slot ctx + of_nat i"
    "\<And>p. p \<in> set (ld_pages s) \<Longrightarrow> C (ld_m s) (pe_vaddr p) = Some (pe_frame_cap p, pe_flags p) \<and>
        vis_flags vs (pe_vaddr p) = Some (pe_flags p) \<and>
        (\<forall>k<4096. V (ld_m s) (pe_frame_cap p) k = vis_byte data delta vs (pe_vaddr p) k)"
    "\<And>va. va \<notin> snd ` set vs \<Longrightarrow> C (ld_m s) va = c0 va"
  using assms unfolding vis_inv_def by simp_all

lemma vis_inv_slots:
  assumes inv: "vis_inv ctx c0 V C data delta vs s" and b: "unat (ec_next_frame_slot ctx) + 256 < 2 ^ 64"
    and vs: "length vs < 256" and ij: "i < length (ld_pages s)" "j < length (ld_pages s)"
  shows "pe_frame_cap (ld_pages s ! i) = pe_frame_cap (ld_pages s ! j) \<longleftrightarrow> i = j"
    "pe_vaddr (ld_pages s ! i) = pe_vaddr (ld_pages s ! j) \<longleftrightarrow> i = j"
    "pe_frame_cap (ld_pages s ! i) \<noteq> ec_next_frame_slot ctx + of_nat (length (ld_pages s))"
proof -
  note I = vis_invD [OF inv]
  have "length (ld_pages s) < 256" using I(2) vs by simp
  then show "pe_frame_cap (ld_pages s ! i) = pe_frame_cap (ld_pages s ! j) \<longleftrightarrow> i = j"
    "pe_frame_cap (ld_pages s ! i) \<noteq> ec_next_frame_slot ctx + of_nat (length (ld_pages s))"
    using I(5) [OF ij(1)] I(5) [OF ij(2)] ij slot_eq_iff [OF b, of i j] slot_eq_iff [OF b, of i "length (ld_pages s)"]
    by simp_all
  show "pe_vaddr (ld_pages s ! i) = pe_vaddr (ld_pages s ! j) \<longleftrightarrow> i = j"
    using I(3) ij by (simp add: distinct_conv_nth) metis
qed

lemma vis_inv_new:
  assumes inv: "vis_inv ctx c0 V C data delta vs s" and b: "unat (ec_next_frame_slot ctx) + 256 < 2 ^ 64"
    and vs: "length vs < 256" and new: "pv \<notin> snd ` set vs"
    and f: "f = ec_next_frame_slot ctx + of_nat (length (ld_pages s))" and fl: "fl = phdr_to_flags (p_flags ph)"
    and m: "C m' = (C (ld_m s))(pv \<mapsto> (f, fl))" "\<forall>g. g \<noteq> f \<longrightarrow> V m' g = V (ld_m s) g"
      "\<forall>k<4096. V m' f k = seg_byte data delta ph (unat pv + k) 0"
  shows "vis_inv ctx c0 V C data delta (vs @ [(ph, pv)])
    (s\<lparr>ld_ctx := (ld_ctx s)\<lparr>ec_next_frame_slot := f + 1\<rparr>, ld_hint := h, ld_m := m',
       ld_pages := ld_pages s @ [\<lparr>pe_vaddr = pv, pe_frame_cap = f, pe_flags = fl\<rparr>]\<rparr>)" (is "vis_inv _ _ _ _ _ _ _ ?s'")
  unfolding vis_inv_def
proof (intro conjI)
  note I = vis_invD [OF inv]
  have old: "pe_vaddr p \<noteq> pv" "pe_frame_cap p \<noteq> f" if "p \<in> set (ld_pages s)" for p
  proof -
    show "pe_vaddr p \<noteq> pv" using that new I(4) by auto
    obtain i where "i < length (ld_pages s)" "p = ld_pages s ! i" using \<open>p \<in> set (ld_pages s)\<close> by (auto simp: in_set_conv_nth)
    then show "pe_frame_cap p \<noteq> f" using vis_inv_slots(3) [OF inv b vs] f by simp
  qed
  show "\<forall>p\<in>set (ld_pages ?s'). C (ld_m ?s') (pe_vaddr p) = Some (pe_frame_cap p, pe_flags p) \<and>
      vis_flags (vs @ [(ph, pv)]) (pe_vaddr p) = Some (pe_flags p) \<and>
      (\<forall>k<4096. V (ld_m ?s') (pe_frame_cap p) k = vis_byte data delta (vs @ [(ph, pv)]) (pe_vaddr p) k)"
    using I(6) old m vis_unseen [OF new] fl by (simp add: vis_snoc add_flags_def)
  show "\<forall>va. va \<notin> snd ` set (vs @ [(ph, pv)]) \<longrightarrow> C (ld_m ?s') va = c0 va" using I(7) m(1) by simp
  show "\<forall>i<length (ld_pages ?s'). pe_frame_cap (ld_pages ?s' ! i) = ec_next_frame_slot ctx + of_nat i"
    using I(5) f by (simp add: nth_append less_Suc_eq)
qed (use vis_invD(1-4) [OF inv] new f in \<open>simp_all add: ac_simps\<close>)

lemma vis_inv_again:
  assumes inv: "vis_inv ctx c0 V C data delta vs s" and b: "unat (ec_next_frame_slot ctx) + 256 < 2 ^ 64"
    and vs: "length vs < 256" and idx: "idx < length (ld_pages s)" "pe_vaddr p = pv" and p: "p = ld_pages s ! idx"
    and fl: "fl = merge_flags (pe_flags p) (phdr_to_flags (p_flags ph))"
    and m: "C m' = (C (ld_m s))(pv \<mapsto> (pe_frame_cap p, fl))" "\<forall>g. g \<noteq> pe_frame_cap p \<longrightarrow> V m' g = V (ld_m s) g"
      "\<forall>k<4096. V m' (pe_frame_cap p) k = seg_byte data delta ph (unat pv + k) (V (ld_m s) (pe_frame_cap p) k)"
  shows "vis_inv ctx c0 V C data delta (vs @ [(ph, pv)])
    (s\<lparr>ld_m := m', ld_pages := (ld_pages s)[idx := p\<lparr>pe_flags := fl\<rparr>]\<rparr>)" (is "vis_inv _ _ _ _ _ _ _ ?s'")
  unfolding vis_inv_def
proof (intro conjI ballI)
  note I = vis_invD [OF inv]
  have mem: "p \<in> set (ld_pages s)" using idx p by simp
  have vad: "map pe_vaddr ((ld_pages s)[idx := p\<lparr>pe_flags := fl\<rparr>]) = map pe_vaddr (ld_pages s)"
    using idx by (simp add: map_update p list_update_same_conv)
  fix q assume "q \<in> set (ld_pages ?s')"
  then obtain i where i: "i < length (ld_pages s)" "q = (ld_pages s)[idx := p\<lparr>pe_flags := fl\<rparr>] ! i"
    by (auto simp: in_set_conv_nth)
  have "q = p\<lparr>pe_flags := fl\<rparr> \<and> i = idx \<or>
      q \<in> set (ld_pages s) \<and> pe_vaddr q \<noteq> pv \<and> pe_frame_cap q \<noteq> pe_frame_cap p"
    using i vis_inv_slots(1,2) [OF inv b vs i(1) idx(1)] idx by (auto simp: nth_list_update p)
  then show "C (ld_m ?s') (pe_vaddr q) = Some (pe_frame_cap q, pe_flags q)"
      "vis_flags (vs @ [(ph, pv)]) (pe_vaddr q) = Some (pe_flags q)"
      "\<forall>k<4096. V (ld_m ?s') (pe_frame_cap q) k = vis_byte data delta (vs @ [(ph, pv)]) (pe_vaddr q) k"
    using I(6) mem idx(2) fl m by (auto simp: vis_snoc add_flags_def)
next
  note I = vis_invD [OF inv]
  have vad: "map pe_vaddr ((ld_pages s)[idx := p\<lparr>pe_flags := fl\<rparr>]) = map pe_vaddr (ld_pages s)"
    using idx by (simp add: map_update p list_update_same_conv)
  show "\<forall>va. va \<notin> snd ` set (vs @ [(ph, pv)]) \<longrightarrow> C (ld_m ?s') va = c0 va" using I(7) m(1) by simp
  show "\<forall>i<length (ld_pages ?s'). pe_frame_cap (ld_pages ?s' ! i) = ec_next_frame_slot ctx + of_nat i"
    using I(5) idx by (simp add: nth_list_update p)
  show "distinct (map pe_vaddr (ld_pages ?s'))" using vad I(3) by simp
  show "pe_vaddr ` set (ld_pages ?s') = snd ` set (vs @ [(ph, pv)])"
  proof -
    have "pv \<in> pe_vaddr ` set (ld_pages s)" using idx p by auto
    then show ?thesis using arg_cong [OF vad, of set] I(4) by (simp add: insert_absorb)
  qed
qed (use vis_invD(1,2) [OF inv] in simp_all)

lemma load_page_step:
  assumes env: "load_env K poke ctx V S C"
    and n: "unat n \<le> length data" and ok: "load_ok n delta ph" and pv: "unat pv + 4096 < 2 ^ 64"
    and cap: "unat cap \<le> 256"
    and inv: "vis_inv ctx c0 V C data delta vs s" and room: "length vs < unat cap"
  shows "\<exists>s'. load_page K poke data n cap delta ph pv s = Some (Inl s') \<and>
    vis_inv ctx c0 V C data delta (vs @ [(ph, pv)]) s' \<and> ld_brk s' = ld_brk s"
proof -
  have b: "ec_next_frame_slot ctx \<noteq> 0" "unat (ec_next_frame_slot ctx) + 256 < 2 ^ 64"
    using env by (simp_all add: load_env_def word_less_nat_alt unat_slot_limit)
  note I = vis_invD [OF inv]
  have K: "elf_kernel K poke (ld_ctx s) V S C" and cb: "ec_record_page (ld_ctx s) = None" "ec_alloc_frame_slot (ld_ctx s) = None"
    using env by (simp_all add: load_env_def I(1))
  have lt: "length (ld_pages s) < 256" "length (ld_pages s) < unat cap" "length vs < 256" using I(2) room cap by simp_all
  show ?thesis
  proof (cases "find_page pv (ld_pages s)")
    case None
    define f where "f = ec_next_frame_slot ctx + of_nat (length (ld_pages s))"
    have "unat f = unat (ec_next_frame_slot ctx) + length (ld_pages s)"
      using lt b(2) unfolding f_def by (subst unat_add_le) (simp_all add: unat_of_nat_lt64)
    then have f: "f \<noteq> 0" "f \<noteq> - 1" using b lt
      by (auto simp: unsigned_minus_1_eq_mask mask_eq_exp_minus_1 word_unat_eq_iff)
    have "f = ec_next_frame_slot (ld_ctx s)" by (simp add: I(1) f_def)
    from load_new_effect [OF K cb n ok pv lt(2) this f, of "phdr_to_flags (p_flags ph)"]
    obtain m' h where r: "load_new K poke data n cap (phdr_to_flags (p_flags ph))
          (page_copy delta (p_vaddr ph + delta) ph pv) pv s =
        Some (Inl (s\<lparr>ld_ctx := (ld_ctx s)\<lparr>ec_next_frame_slot := f + 1\<rparr>, ld_hint := h, ld_m := m',
          ld_pages := ld_pages s @ [\<lparr>pe_vaddr = pv, pe_frame_cap = f, pe_flags = phdr_to_flags (p_flags ph)\<rparr>]\<rparr>))"
        (is "_ = Some (Inl ?s')")
      and m: "C m' = (C (ld_m s))(pv \<mapsto> (f, phdr_to_flags (p_flags ph)))"
        "\<forall>g. g \<noteq> f \<longrightarrow> V m' g = V (ld_m s) g" "\<forall>k<4096. V m' f k = seg_byte data delta ph (unat pv + k) 0"
      by blast
    have "pv \<notin> snd ` set vs" using None I(4) by (simp add: find_page_None)
    from vis_inv_new [OF inv b(2) lt(3) this f_def refl m] None r show ?thesis
      by (intro exI [of _ ?s']) (simp add: load_page_def Let_def)
  next
    case (Some idx)
    then have idx: "idx < length (ld_pages s)" "pe_vaddr (ld_pages s ! idx) = pv" by (simp_all add: find_page_Some)
    then have "C (ld_m s) pv = Some (pe_frame_cap (ld_pages s ! idx), pe_flags (ld_pages s ! idx))"
      using I(6) [OF nth_mem [OF idx(1)]] by simp
    from load_existing_effect [OF K cb(1) n ok pv refl refl idx(1) this] obtain m' where
      r: "load_existing K poke data n (phdr_to_flags (p_flags ph)) (page_copy delta (p_vaddr ph + delta) ph pv) idx pv s =
        Some (Inl (s\<lparr>ld_m := m', ld_pages := (ld_pages s)[idx := (ld_pages s ! idx)\<lparr>pe_flags :=
          merge_flags (pe_flags (ld_pages s ! idx)) (phdr_to_flags (p_flags ph))\<rparr>]\<rparr>))" (is "_ = Some (Inl ?s')")
      and m: "C m' = (C (ld_m s))(pv \<mapsto> (pe_frame_cap (ld_pages s ! idx),
          merge_flags (pe_flags (ld_pages s ! idx)) (phdr_to_flags (p_flags ph))))"
        "\<forall>g. g \<noteq> pe_frame_cap (ld_pages s ! idx) \<longrightarrow> V m' g = V (ld_m s) g"
        "\<forall>k<4096. V m' (pe_frame_cap (ld_pages s ! idx)) k =
          seg_byte data delta ph (unat pv + k) (V (ld_m s) (pe_frame_cap (ld_pages s ! idx)) k)"
      by blast
    from vis_inv_again [OF inv b(2) lt(3) idx refl refl m] Some r show ?thesis
      by (intro exI [of _ ?s']) (simp add: load_page_def Let_def)
  qed
qed

section \<open>The pages of a segment\<close>

lemma seg_bounds:
  assumes "load_ok n delta ph"
  shows "unat (elf_page_align_down (p_vaddr ph + delta)) = seg_lo delta ph div 4096 * 4096"
    "unat (elf_page_align_up (p_vaddr ph + delta + p_memsz ph)) =
       (seg_lo delta ph div 4096 + seg_page_count delta ph) * 4096"
    "(seg_lo delta ph div 4096 + seg_page_count delta ph) * 4096 < 2 ^ 64"
    "(seg_lo delta ph + unat (p_memsz ph) + 4095) div 4096 = seg_lo delta ph div 4096 + seg_page_count delta ph"
proof -
  note d = load_okD [OF assms]
  have u: "unat (p_vaddr ph + delta + p_memsz ph) = seg_lo delta ph + unat (p_memsz ph)"
    using d(1) by (simp add: seg_lo_def unat_add_le)
  have "seg_lo delta ph div 4096 \<le> (seg_lo delta ph + unat (p_memsz ph) + 4095) div 4096"
    by (rule div_le_mono) simp
  then show e: "(seg_lo delta ph + unat (p_memsz ph) + 4095) div 4096 = seg_lo delta ph div 4096 + seg_page_count delta ph"
    by (simp add: seg_page_count_def)
  show "unat (elf_page_align_down (p_vaddr ph + delta)) = seg_lo delta ph div 4096 * 4096"
    by (simp add: unat_elf_page_align_down seg_lo_def)
  show up: "unat (elf_page_align_up (p_vaddr ph + delta + p_memsz ph)) =
      (seg_lo delta ph div 4096 + seg_page_count delta ph) * 4096"
  proof -
    have "unat (p_vaddr ph + delta + p_memsz ph) + 4096 \<le> 2 ^ 64" using d(1) by (simp add: u)
    from unat_elf_page_align_up [OF this] show ?thesis by (simp add: u e)
  qed
  show "(seg_lo delta ph div 4096 + seg_page_count delta ph) * 4096 < 2 ^ 64"
    unfolding up [symmetric] by simp
qed

lemma seg_page_addr:
  assumes "load_ok n delta ph" "i \<le> seg_page_count delta ph"
  shows "unat (elf_page_align_down (p_vaddr ph + delta) + of_nat i * 4096) = (seg_lo delta ph div 4096 + i) * 4096"
proof -
  note b = seg_bounds [OF assms(1)]
  have "(seg_lo delta ph div 4096 + i) * 4096 \<le> (seg_lo delta ph div 4096 + seg_page_count delta ph) * 4096"
    using assms(2) by (intro mult_le_mono1) simp
  with b(3) have lt: "seg_lo delta ph div 4096 * 4096 + i * 4096 < 2 ^ 64" by (simp add: add_mult_distrib)
  then have "unat (of_nat i * 4096 :: u64) = i * 4096" by (simp add: unat_word_ariths unat_of_nat take_bit_nat_eq_self)
  with lt b(1) show ?thesis by (subst unat_add_le) (simp_all add: add_mult_distrib)
qed

lemma seg_page_less:
  assumes "load_ok n delta ph" "i \<le> seg_page_count delta ph"
  shows "elf_page_align_down (p_vaddr ph + delta) + of_nat i * 4096 <
      elf_page_align_up (p_vaddr ph + delta + p_memsz ph) \<longleftrightarrow> i < seg_page_count delta ph"
  by (simp add: word_less_nat_alt seg_page_addr [OF assms] seg_bounds(2) [OF assms(1)])

lemma load_pages_run:
  assumes env: "load_env K poke ctx V S C" and n: "unat n \<le> length data" and ok: "load_ok n delta ph"
    and cap: "unat cap \<le> 256" "length vs + seg_page_count delta ph \<le> unat cap"
    and i: "i \<le> seg_page_count delta ph"
    and inv: "vis_inv ctx c0 V C data delta (vs @ take i (seg_visits delta ph)) s"
  shows "\<exists>s'. load_pages K poke data n cap delta ph (elf_page_align_up (p_vaddr ph + delta + p_memsz ph))
      (elf_page_align_down (p_vaddr ph + delta) + of_nat i * 4096) s = Some (Inl s') \<and>
    vis_inv ctx c0 V C data delta (vs @ seg_visits delta ph) s' \<and> ld_brk s' = ld_brk s"
  using i inv
proof (induction "seg_page_count delta ph - i" arbitrary: i s)
  case 0
  then have "i = seg_page_count delta ph" by simp
  with 0 seg_page_less [OF ok, of i] show ?case
    by (subst load_pages.simps) (simp add: seg_visits_def)
next
  case (Suc j)
  let ?hi = "elf_page_align_up (p_vaddr ph + delta + p_memsz ph)"
  let ?pv = "elf_page_align_down (p_vaddr ph + delta) + of_nat i * 4096"
  have lt: "i < seg_page_count delta ph" using Suc by simp
  have pv: "unat ?pv + 4096 < 2 ^ 64"
  proof -
    have "(seg_lo delta ph div 4096 + Suc i) * 4096 \<le> (seg_lo delta ph div 4096 + seg_page_count delta ph) * 4096"
      using lt by (intro mult_le_mono1) simp
    with seg_bounds(3) [OF ok] seg_page_addr [OF ok Suc.prems(1)] show ?thesis by simp
  qed
  have vs: "(vs @ take i (seg_visits delta ph)) @ [(ph, ?pv)] = vs @ take (Suc i) (seg_visits delta ph)"
    using lt by (simp add: seg_visits_def take_Suc_conv_app_nth)
  have "length (vs @ take i (seg_visits delta ph)) < unat cap" using lt cap(2) by (simp add: seg_visits_def)
  from load_page_step [OF env n ok pv cap(1) Suc.prems(2) this]
  obtain s1 where s1: "load_page K poke data n cap delta ph ?pv s = Some (Inl s1)"
      "vis_inv ctx c0 V C data delta (vs @ take (Suc i) (seg_visits delta ph)) s1" "ld_brk s1 = ld_brk s"
    unfolding vs by blast
  have "?pv + 4096 = elf_page_align_down (p_vaddr ph + delta) + of_nat (Suc i) * 4096"
    by (simp add: algebra_simps)
  moreover have "j = seg_page_count delta ph - Suc i" "Suc i \<le> seg_page_count delta ph" using Suc by simp_all
  ultimately obtain s' where "load_pages K poke data n cap delta ph ?hi (?pv + 4096) s1 = Some (Inl s')"
      "vis_inv ctx c0 V C data delta (vs @ seg_visits delta ph) s'" "ld_brk s' = ld_brk s1"
    using Suc.hyps(1) [of "Suc i" s1] s1(2) by metis
  with s1 lt seg_page_less [OF ok Suc.prems(1)] show ?case by (subst load_pages.simps) simp
qed

lemma vis_inv_brk [simp]: "vis_inv ctx c0 V C data delta vs (s\<lparr>ld_brk := b\<rparr>) = vis_inv ctx c0 V C data delta vs s"
  by (simp add: vis_inv_def)

lemma load_segment_run:
  assumes env: "load_env K poke ctx V S C" and n: "unat n \<le> length data"
    and load: "p_type ph = PT_LOAD" and ok: "load_ok n delta ph"
    and cap: "unat cap \<le> 256" "length vs + seg_page_count delta ph \<le> unat cap"
    and inv: "vis_inv ctx c0 V C data delta vs s"
  shows "\<exists>s'. load_segment K poke data n cap delta ph s = Some (Inl s') \<and>
    vis_inv ctx c0 V C data delta (vs @ seg_visits delta ph) s' \<and>
    ld_brk s' = max (ld_brk s) (elf_page_align_up (p_vaddr ph + delta + p_memsz ph))"
proof -
  let ?e = "elf_page_align_up (p_vaddr ph + delta + p_memsz ph)"
  let ?s = "if ld_brk s < ?e then s\<lparr>ld_brk := ?e\<rparr> else s"
  have "vis_inv ctx c0 V C data delta (vs @ take 0 (seg_visits delta ph)) ?s" using inv by simp
  from load_pages_run [OF env n ok cap _ this] load show ?thesis
    by (auto simp: load_segment_def Let_def max_def split: if_splits)
qed

lemma load_segments_run:
  assumes env: "load_env K poke ctx V S C" and n: "unat n \<le> length data"
    and ok: "\<forall>ph\<in>set phs. p_type ph = PT_LOAD \<longrightarrow> load_ok n delta ph"
    and cap: "unat cap \<le> 256"
      "length vs + (\<Sum>ph\<leftarrow>filter (\<lambda>ph. p_type ph = PT_LOAD) phs. seg_page_count delta ph) \<le> unat cap"
    and inv: "vis_inv ctx c0 V C data delta vs s"
  shows "\<exists>s'. loop_over (load_segment K poke data n cap delta) phs s = Some (Inl s') \<and>
    vis_inv ctx c0 V C data delta (vs @ visits delta (filter (\<lambda>ph. p_type ph = PT_LOAD) phs)) s' \<and>
    ld_brk s' = image_brk delta (filter (\<lambda>ph. p_type ph = PT_LOAD) phs) (ld_brk s)"
  using ok cap(2) inv
proof (induction phs arbitrary: vs s)
  case Nil
  then show ?case by (simp add: visits_def image_brk_def)
next
  case (Cons ph phs)
  show ?case
  proof (cases "p_type ph = PT_LOAD")
    case False
    with Cons show ?thesis by (simp add: load_segment_def)
  next
    case True
    obtain s1 where s1: "load_segment K poke data n cap delta ph s = Some (Inl s1)"
        "vis_inv ctx c0 V C data delta (vs @ seg_visits delta ph) s1"
        "ld_brk s1 = max (ld_brk s) (elf_page_align_up (p_vaddr ph + delta + p_memsz ph))"
      using load_segment_run [OF env n True _ cap(1) _ Cons.prems(3)] Cons.prems True by auto
    have "length (vs @ seg_visits delta ph) +
        (\<Sum>ph\<leftarrow>filter (\<lambda>ph. p_type ph = PT_LOAD) phs. seg_page_count delta ph) \<le> unat cap"
      using Cons.prems(2) True by (simp add: seg_visits_def)
    from Cons.IH [OF _ this s1(2)] Cons.prems(1) s1 True show ?thesis
      by (auto simp: visits_def image_brk_def)
  qed
qed

section \<open>Visits and segments\<close>

lemma filter_upt_inj:
  assumes "\<And>i j. i < c \<Longrightarrow> j < c \<Longrightarrow> a i = a j \<Longrightarrow> i = j" "i < c"
  shows "filter (\<lambda>j. a j = a i) [0..<c] = [i]"
proof -
  have "[0..<c] = [0..<i] @ i # [Suc i..<c]" using assms(2) upt_add_eq_append [of 0 i "c - i"] by (simp add: upt_conv_Cons)
  moreover have "a j \<noteq> a i" if "j < c" "j \<noteq> i" for j using assms that by blast
  then have "filter (\<lambda>j. a j = a i) [0..<i] = []" "filter (\<lambda>j. a j = a i) [Suc i..<c] = []"
    using assms(2) by (simp_all add: filter_empty_conv)
  ultimately show ?thesis by simp
qed

lemma seg_visits_at:
  assumes ok: "load_ok n delta ph"
  shows "map fst (filter (\<lambda>v. snd v = pv) (seg_visits delta ph)) = (if in_seg delta ph pv then [ph] else [])"
proof -
  define a where "a i = elf_page_align_down (p_vaddr ph + delta) + of_nat i * 4096" for i
  define l where "l = seg_lo delta ph div 4096"
  let ?c = "seg_page_count delta ph"
  have u: "unat (a i) = (l + i) * 4096" if "i < ?c" for i
    using seg_page_addr [OF ok less_imp_le [OF that]] by (simp only: a_def l_def)
  have inj: "i = j" if "i < ?c" "j < ?c" "a i = a j" for i j
  proof -
    have "(l + i) * 4096 = (l + j) * 4096" using u [OF that(1)] u [OF that(2)] that(3) by (simp only:)
    then show ?thesis by simp
  qed
  have seg: "in_seg delta ph pv \<longleftrightarrow> 4096 dvd unat pv \<and> l * 4096 \<le> unat pv \<and> unat pv < (l + ?c) * 4096"
    unfolding in_seg_def seg_bounds(4) [OF ok] l_def ..
  have mem: "in_seg delta ph pv \<longleftrightarrow> (\<exists>i<?c. a i = pv)"
  proof
    assume s: "in_seg delta ph pv"
    then have "4096 dvd unat pv" unfolding seg by (rule conjunct1)
    then obtain q where "unat pv = 4096 * q" ..
    then have q: "unat pv = q * 4096" by (simp only: mult.commute)
    have r: "l \<le> q" "q < l + ?c" using s unfolding seg q by simp_all
    then have "q - l < ?c" "l + (q - l) = q" by linarith+
    then have "unat (a (q - l)) = unat pv" using u [of "q - l"] q by simp
    then have "a (q - l) = pv" by (simp only: word_unat_eq_iff)
    with \<open>q - l < ?c\<close> show "\<exists>i<?c. a i = pv" by blast
  next
    assume "\<exists>i<?c. a i = pv"
    then obtain i where "i < ?c" "a i = pv" by blast
    with u [of i] have "unat pv = (l + i) * 4096" by simp
    with \<open>i < ?c\<close> show "in_seg delta ph pv" unfolding seg by (intro conjI) (simp_all only: dvd_triv_right mult_le_mono1 le_add1 mult_less_cancel2 add_less_cancel_left zero_less_numeral simp_thms)
  qed
  have v: "map fst (filter (\<lambda>v. snd v = pv) (seg_visits delta ph)) = map (\<lambda>_. ph) (filter (\<lambda>i. a i = pv) [0..<?c])"
    by (simp add: seg_visits_def filter_map comp_def a_def)
  show ?thesis
  proof (cases "in_seg delta ph pv")
    case True
    then obtain i where i: "i < ?c" "a i = pv" using mem by blast
    have "filter (\<lambda>j. a j = a i) [0..<?c] = [i]" using inj i(1) by (rule filter_upt_inj)
    then have "filter (\<lambda>j. a j = pv) [0..<?c] = [i]" unfolding i(2) .
    with True v show ?thesis by simp
  next
    case False
    with mem have "\<forall>i\<in>set [0..<?c]. a i \<noteq> pv" by simp
    then have "filter (\<lambda>i. a i = pv) [0..<?c] = []" by (simp only: filter_empty_conv)
    with False v show ?thesis by simp
  qed
qed

lemma visits_at:
  assumes "\<forall>ph\<in>set segs. load_ok n delta ph"
  shows "map fst (filter (\<lambda>v. snd v = pv) (visits delta segs)) = filter (\<lambda>ph. in_seg delta ph pv) segs"
  using assms
proof (induction segs)
  case (Cons ph segs)
  then show ?case using seg_visits_at [of n delta ph pv] by (simp add: visits_def)
qed (simp add: visits_def)

lemma vis_flags_visits:
  "\<forall>ph\<in>set segs. load_ok n delta ph \<Longrightarrow> vis_flags (visits delta segs) pv = page_flags delta segs pv"
  by (simp add: vis_flags_def visits_at page_flags_def fold_filter_if)

lemma seg_byte_outside:
  assumes ok: "load_ok n delta ph" and pv: "4096 dvd unat pv" "k < 4096" and out: "\<not> in_seg delta ph pv"
  shows "seg_byte data delta ph (unat pv + k) x = x"
proof -
  let ?lo = "seg_lo delta ph"
  from pv obtain q where q: "unat pv = 4096 * q" by (auto elim: dvdE)
  have "\<not> (?lo \<le> unat pv + k \<and> unat pv + k < ?lo + unat (p_filesz ph))"
  proof
    assume a: "?lo \<le> unat pv + k \<and> unat pv + k < ?lo + unat (p_filesz ph)"
    have "?lo div 4096 \<le> (unat pv + k) div 4096" using a by (intro div_le_mono) simp
    also have "\<dots> = q" using pv(2) by (simp add: q)
    finally have "?lo div 4096 * 4096 \<le> unat pv" by (simp add: q)
    moreover have "(unat pv + 4096) div 4096 \<le> (?lo + unat (p_memsz ph) + 4095) div 4096"
      using a load_okD(2) [OF ok] by (intro div_le_mono) simp
    then have "unat pv < (?lo + unat (p_memsz ph) + 4095) div 4096 * 4096" by (simp add: q)
    ultimately show False using out pv(1) by (simp add: in_seg_def)
  qed
  then show ?thesis by (auto simp: seg_byte_def)
qed

lemma vis_byte_visits:
  assumes "\<forall>ph\<in>set segs. load_ok n delta ph" "4096 dvd unat pv" "k < 4096"
  shows "vis_byte data delta (visits delta segs) pv k = image_byte data delta segs (unat pv + k)"
proof -
  have "fold (\<lambda>ph. seg_byte data delta ph (unat pv + k)) (filter (\<lambda>ph. in_seg delta ph pv) segs) x =
      fold (\<lambda>ph. seg_byte data delta ph (unat pv + k)) segs x" for x
    using assms(1)
  proof (induction segs arbitrary: x)
    case (Cons ph segs)
    then show ?case using seg_byte_outside [OF _ assms(2,3), of n delta ph] by simp
  qed simp
  then show ?thesis using assms(1) by (simp add: vis_byte_def visits_at image_byte_def)
qed

section \<open>The whole load\<close>

lemma fold_min_vaddr:
  "fold (\<lambda>ph (a, h). (if p_vaddr ph < a then p_vaddr ph else a, True)) segs (a, h) =
     (Min (insert a (p_vaddr ` set segs)), h \<or> segs \<noteq> [])"
proof (induction segs arbitrary: a h)
  case (Cons ph segs)
  have "Min (insert (if p_vaddr ph < a then p_vaddr ph else a) (p_vaddr ` set segs)) =
      Min (insert a (p_vaddr ` set (ph # segs)))"
    by (cases "segs = []") (auto simp: min_def not_less intro: antisym)
  with Cons show ?case by simp
qed simp

lemma min_load_vaddr_eq:
  assumes "image_ok data n" "load_segments data n \<noteq> []"
  shows "min_load_vaddr data n (ehdr data) = Some (Min (set (map p_vaddr (load_segments data n))), True)"
proof -
  let ?g = "\<lambda>ph (a, h). (if p_vaddr ph < a then p_vaddr ph else a, True)"
  have eq: "(\<lambda>ph (min_vaddr, has_load). if p_type ph = PT_LOAD
      then (if p_vaddr ph < min_vaddr then p_vaddr ph else min_vaddr, True) else (min_vaddr, has_load)) =
    (\<lambda>ph s. if p_type ph = PT_LOAD then ?g ph s else s)"
    by (auto simp: fun_eq_iff)
  have "min_load_vaddr data n (ehdr data) =
      Some (Min (insert (- 1) (p_vaddr ` set (load_segments data n))), True)"
    using assms(2) unfolding min_load_vaddr_def phdr_fold_table [OF assms(1)] eq fold_filter_if fold_min_vaddr load_segments_def
    by simp
  moreover have "Min (insert (- 1) (p_vaddr ` set (load_segments data n))) = Min (p_vaddr ` set (load_segments data n))"
    using assms(2) by (simp add: min_absorb2)
  ultimately show ?thesis by simp
qed

lemma seg_pages_eq:
  assumes "load_ok n delta ph"
  shows "seg_pages (p_vaddr ph + delta) (p_memsz ph) tot = tot + of_nat (seg_page_count delta ph)"
proof -
  let ?st = "elf_page_align_down (p_vaddr ph + delta)" and ?en = "elf_page_align_up (p_vaddr ph + delta + p_memsz ph)"
  define l c where "l = seg_lo delta ph div 4096" and "c = seg_page_count delta ph"
  have u: "unat ?st = l * 4096" "unat ?en = (l + c) * 4096" and b: "(l + c) * 4096 < 2 ^ 64"
    using seg_bounds [OF assms] by (simp_all only: l_def c_def)
  show ?thesis
  proof (cases "c = 0")
    case True
    then show ?thesis using u by (simp add: seg_pages_def Let_def word_less_nat_alt c_def)
  next
    case False
    then have "?st < ?en" using u by (simp add: word_less_nat_alt)
    moreover from this have "unat ((?en - ?st) div 4096) = c"
      using u by (simp add: unat_div unat_sub_le less_imp_le add_mult_distrib)
    then have "(?en - ?st) div 4096 = of_nat c" by (metis of_nat_unat ucast_id)
    ultimately show ?thesis by (simp add: seg_pages_def Let_def c_def)
  qed
qed

lemma load_capacity_eq:
  assumes "image_ok data n" "\<forall>ph\<in>set (load_segments data n). load_ok n delta ph"
  shows "load_capacity data n (ehdr data) delta =
    Some (of_nat (\<Sum>ph\<leftarrow>load_segments data n. seg_page_count delta ph))"
proof -
  have "fold (\<lambda>ph tot. seg_pages (p_vaddr ph + delta) (p_memsz ph) tot) segs t =
      t + of_nat (\<Sum>ph\<leftarrow>segs. seg_page_count delta ph)" if "\<forall>ph\<in>set segs. load_ok n delta ph" for segs t
    using that
  proof (induction segs arbitrary: t)
    case (Cons ph segs)
    then show ?case using seg_pages_eq [of n delta ph] by (simp add: add.assoc)
  qed simp
  note sum = this [OF assms(2), of 0]
  have eq: "(\<lambda>ph tot. if p_type ph \<noteq> PT_LOAD then tot else seg_pages (p_vaddr ph + delta) (p_memsz ph) tot) =
    (\<lambda>ph tot. if p_type ph = PT_LOAD then seg_pages (p_vaddr ph + delta) (p_memsz ph) tot else tot)"
    by (simp add: fun_eq_iff)
  show ?thesis
    unfolding load_capacity_def phdr_fold_table [OF assms(1)] eq fold_filter_if
    unfolding load_segments_def [symmetric] using sum by simp
qed

lemma elf_load_run:
  assumes img: "image_ok data n" "64 \<le> n" "elf_check_header arch (ehdr data) = ELF_OK"
    and dyn: "\<forall>ph\<in>set (phdr_table data n (ehdr data)). p_type ph \<noteq> PT_DYNAMIC"
    and segs: "segs = load_segments data n" "delta = load_delta data n base"
      "\<forall>ph\<in>set segs. load_ok n delta ph"
      "0 < (\<Sum>ph\<leftarrow>segs. seg_page_count delta ph)" "(\<Sum>ph\<leftarrow>segs. seg_page_count delta ph) \<le> 256"
    and env: "load_env K poke ctx V S C"
  shows "\<exists>s. elf_load K poke arch data n base ctx hint m =
      Some (ELF_OK, Some \<lparr>lr_entry = e_entry (ehdr data) + delta, lr_base = base, lr_brk = image_brk delta segs 0\<rparr>, s) \<and>
    vis_inv ctx (C m) V C data delta (visits delta segs) s"
proof -
  let ?e = "ehdr data" and ?sum = "\<Sum>ph\<leftarrow>segs. seg_page_count delta ph"
  let ?s0 = "\<lparr>ld_ctx = ctx, ld_hint = hint, ld_m = m, ld_pages = [], ld_brk = 0\<rparr>"
  have n: "unat n \<le> length data" using img(1) by (simp add: image_ok_def)
  have e: "read_ehdr data 0 = Some ?e" "\<not> n < 64"
    using n img(2) by (auto intro!: read_ehdr_0 simp: word_le_nat_alt word_less_nat_alt)
  have ne: "load_segments data n \<noteq> []" using segs(1,4) by auto
  note mv = min_load_vaddr_eq [OF img(1) ne]
  have delta: "(if e_type ?e = ET_DYN then base - Min (set (map p_vaddr (load_segments data n))) else 0) = delta"
    by (simp add: segs(2) load_delta_def)
  define cap where "cap = (of_nat ?sum :: u64)"
  have cap: "load_capacity data n ?e delta = Some cap"
    using load_capacity_eq [OF img(1), of delta] segs(1,3) by (simp add: cap_def)
  have capu: "unat cap = ?sum" using segs(5) by (simp add: cap_def unat_of_nat_lt64)
  have capb: "cap \<noteq> 0" "\<not> MAX_PAGES < cap"
  proof -
    show "cap \<noteq> 0" using segs(4) by (metis capu less_irrefl unat_0)
    show "\<not> MAX_PAGES < cap" using segs(5) by (simp only: word_less_nat_alt capu) simp
  qed
  have inv0: "vis_inv ctx (C m) V C data delta [] ?s0" by (simp add: vis_inv_def)
  have "\<exists>s. loop_over (load_segment K poke data n cap delta) (phdr_table data n ?e) ?s0 = Some (Inl s) \<and>
      vis_inv ctx (C m) V C data delta ([] @ visits delta (filter (\<lambda>ph. p_type ph = PT_LOAD) (phdr_table data n ?e))) s \<and>
      ld_brk s = image_brk delta (filter (\<lambda>ph. p_type ph = PT_LOAD) (phdr_table data n ?e)) (ld_brk ?s0)"
    by (rule load_segments_run [OF env n _ _ _ inv0])
      (use segs(1,3,5) capu in \<open>auto simp: load_segments_def\<close>)
  then obtain s where s: "loop_over (load_segment K poke data n cap delta) (phdr_table data n ?e) ?s0 = Some (Inl s)"
      "vis_inv ctx (C m) V C data delta (visits delta segs) s" "ld_brk s = image_brk delta segs 0"
    by (auto simp: segs(1) load_segments_def)
  have "elf_load K poke arch data n base ctx hint m =
      Some (ELF_OK, Some \<lparr>lr_entry = e_entry ?e + delta, lr_base = base, lr_brk = image_brk delta segs 0\<rparr>, s)"
    using e img(3) mv delta cap capb s(1,3)
    by (cases "e_type ?e = ET_DYN")
      (simp_all add: elf_load_def Let_def phdr_for_table [OF img(1)] no_relocations [OF img(1,2) dyn])
  with s(2) show ?thesis by blast
qed

lemma page_flags_aligned:
  assumes "page_flags delta segs va = Some fl"
  shows "4096 dvd unat va"
proof (rule ccontr)
  assume "\<not> 4096 dvd unat va"
  then have "fold (\<lambda>ph fl. if in_seg delta ph va then add_flags ph fl else fl) segs x = x" for x
    by (induction segs arbitrary: x) (simp_all add: in_seg_def)
  with assms show False by (simp add: page_flags_def)
qed

lemma visits_length: "length (visits delta segs) = (\<Sum>ph\<leftarrow>segs. seg_page_count delta ph)"
  by (simp add: visits_def length_concat seg_visits_def comp_def)

lemma frames_inj:
  assumes inv: "vis_inv ctx c0 V C data delta vs s" and env: "load_env K poke ctx V S C" and len: "length vs \<le> 256"
    and fr: "\<And>va. va \<in> A \<Longrightarrow> \<exists>i<length (ld_pages s). pe_vaddr (ld_pages s ! i) = va \<and> frame va = pe_frame_cap (ld_pages s ! i)"
  shows "inj_on frame A"
proof (rule inj_onI)
  fix x y assume xy: "x \<in> A" "y \<in> A" "frame x = frame y"
  obtain i j where ij: "i < length (ld_pages s)" "pe_vaddr (ld_pages s ! i) = x" "frame x = pe_frame_cap (ld_pages s ! i)"
      "j < length (ld_pages s)" "pe_vaddr (ld_pages s ! j) = y" "frame y = pe_frame_cap (ld_pages s ! j)"
    using fr xy(1,2) by meson
  have "unat (ec_next_frame_slot ctx) + 256 < 2 ^ 64"
    using env by (simp add: load_env_def word_less_nat_alt unat_slot_limit)
  moreover have "ec_next_frame_slot ctx + of_nat i = ec_next_frame_slot ctx + of_nat j"
    using inv ij xy(3) by (simp add: vis_inv_def)
  moreover have "i < 256" "j < 256" using inv ij(1,4) len by (simp_all add: vis_inv_def)
  ultimately have "i = j" using slot_eq_iff by blast
  with ij show "x = y" by simp
qed

lemma visits_seen:
  assumes inv: "vis_inv ctx C0 V C data delta (visits delta segs) s"
    and ok: "\<forall>ph\<in>set segs. load_ok n delta ph"
  shows "page_flags delta segs va \<noteq> None \<longleftrightarrow> va \<in> pe_vaddr ` set (ld_pages s)"
proof -
  have seen: "pe_vaddr ` set (ld_pages s) = snd ` set (visits delta segs)"
    and pages: "\<And>p. p \<in> set (ld_pages s) \<Longrightarrow> vis_flags (visits delta segs) (pe_vaddr p) = Some (pe_flags p)"
    using inv by (simp_all add: vis_inv_def)
  have flags: "vis_flags (visits delta segs) va = page_flags delta segs va" for va
    by (rule vis_flags_visits [OF ok])
  have "va \<in> pe_vaddr ` set (ld_pages s) \<Longrightarrow> page_flags delta segs va \<noteq> None"
    using pages flags by fastforce
  moreover have "va \<notin> pe_vaddr ` set (ld_pages s) \<Longrightarrow> page_flags delta segs va = None"
    using vis_unseen(2) [of va "visits delta segs"] by (simp add: seen flags)
  ultimately show ?thesis by argo
qed

lemma visits_unmapped:
  assumes inv: "vis_inv ctx C0 V C data delta (visits delta segs) s"
    and ok: "\<forall>ph\<in>set segs. load_ok n delta ph" and none: "page_flags delta segs va = None"
  shows "C (ld_m s) va = C0 va"
proof -
  have "va \<notin> snd ` set (visits delta segs)"
    using visits_seen [OF inv ok, of va] none inv by (simp add: vis_inv_def)
  then show ?thesis using inv by (simp add: vis_inv_def)
qed

lemma visits_mapped:
  assumes inv: "vis_inv ctx C0 V C data delta (visits delta segs) s"
    and ok: "\<forall>ph\<in>set segs. load_ok n delta ph" and fl: "page_flags delta segs va = Some fl"
  shows "\<exists>i<length (ld_pages s). find_page va (ld_pages s) = Some i \<and> pe_vaddr (ld_pages s ! i) = va \<and>
    C (ld_m s) va = Some (pe_frame_cap (ld_pages s ! i), fl) \<and>
    (\<forall>k<4096. V (ld_m s) (pe_frame_cap (ld_pages s ! i)) k = image_byte data delta segs (unat va + k))"
proof -
  obtain i where "find_page va (ld_pages s) = Some i"
    using fl visits_seen [OF inv ok, of va] find_page_None [of va "ld_pages s"]
    by (cases "find_page va (ld_pages s)") auto
  then have i: "find_page va (ld_pages s) = Some i" "i < length (ld_pages s)" "pe_vaddr (ld_pages s ! i) = va"
    using find_page_Some [of va "ld_pages s" i] by auto
  have "C (ld_m s) va = Some (pe_frame_cap (ld_pages s ! i), pe_flags (ld_pages s ! i)) \<and>
      vis_flags (visits delta segs) va = Some (pe_flags (ld_pages s ! i)) \<and>
      (\<forall>k<4096. V (ld_m s) (pe_frame_cap (ld_pages s ! i)) k = vis_byte data delta (visits delta segs) va k)"
    using inv nth_mem [OF i(2)] i(3) by (auto simp: vis_inv_def)
  then show ?thesis
    using i fl vis_flags_visits [OF ok, of va] vis_byte_visits [OF ok page_flags_aligned [OF fl]] by auto
qed

section \<open>Properties\<close>

text \<open>C2: Loading an image is correct.  For an image without a dynamic section whose
  segments touch between 1 and 256 pages in all, and on a kernel that grants every request of the loader,
  \<open>elf_load\<close> returns \<open>ELF_OK\<close>, and afterwards the child maps exactly
  the pages of the loadable segments: each with the permissions of the segments
  on it and to a frame whose bytes are those of the file, zero behind the file
  part of a segment; every other address of the child maps what it mapped before,
  and no frame serves two pages.
\<close>

theorem elf_load_image:
  assumes "image_ok data n" "64 \<le> n" "elf_check_header arch (ehdr data) = ELF_OK"
    and "\<forall>ph\<in>set (phdr_table data n (ehdr data)). p_type ph \<noteq> PT_DYNAMIC"
    and "segs = load_segments data n" "delta = load_delta data n base"
      "\<forall>ph\<in>set segs. load_ok n delta ph"
      "0 < (\<Sum>ph\<leftarrow>segs. seg_page_count delta ph)" "(\<Sum>ph\<leftarrow>segs. seg_page_count delta ph) \<le> 256"
    and "load_env K poke ctx V S C"
  shows "\<exists>s frame. elf_load K poke arch data n base ctx hint m =
      Some (ELF_OK, Some \<lparr>lr_entry = e_entry (ehdr data) + delta, lr_base = base, lr_brk = image_brk delta segs 0\<rparr>, s) \<and>
    (\<forall>va. case page_flags delta segs va of
       None \<Rightarrow> C (ld_m s) va = C m va
     | Some fl \<Rightarrow> C (ld_m s) va = Some (frame va, fl) \<and>
         (\<forall>k<4096. V (ld_m s) (frame va) k = image_byte data delta segs (unat va + k))) \<and>
    inj_on frame {va. page_flags delta segs va \<noteq> None}"
proof -
  obtain s where s: "elf_load K poke arch data n base ctx hint m =
      Some (ELF_OK, Some \<lparr>lr_entry = e_entry (ehdr data) + delta, lr_base = base, lr_brk = image_brk delta segs 0\<rparr>, s)"
      "vis_inv ctx (C m) V C data delta (visits delta segs) s"
    using elf_load_run [OF assms] by blast
  define frame where "frame va = pe_frame_cap (ld_pages s ! the (find_page va (ld_pages s)))" for va
  have "case page_flags delta segs va of
       None \<Rightarrow> C (ld_m s) va = C m va
     | Some fl \<Rightarrow> C (ld_m s) va = Some (frame va, fl) \<and>
         (\<forall>k<4096. V (ld_m s) (frame va) k = image_byte data delta segs (unat va + k))" for va
    using visits_unmapped [OF s(2) assms(7), of va] visits_mapped [OF s(2) assms(7), of va]
    by (auto simp: frame_def split: option.split)
  moreover have "inj_on frame {va. page_flags delta segs va \<noteq> None}"
  proof (rule frames_inj [OF s(2) assms(10)])
    show "length (visits delta segs) \<le> 256" using assms(9) by (simp only: visits_length)
  next
    fix va assume "va \<in> {va. page_flags delta segs va \<noteq> None}"
    then obtain fl where "page_flags delta segs va = Some fl" by auto
    from visits_mapped [OF s(2) assms(7) this]
    show "\<exists>i<length (ld_pages s). pe_vaddr (ld_pages s ! i) = va \<and> frame va = pe_frame_cap (ld_pages s ! i)"
      by (auto simp: frame_def)
  qed
  ultimately show ?thesis using s(1) by (intro exI [of _ s] exI [of _ frame]) simp
qed

theorem elf_load_image_witness:
  "\<exists>s f. elf_load vm_kernel vm_poke X86_64 sample_exec 130 0 vm_ctx 16 vm_start =
      Some (ELF_OK, Some \<lparr>lr_entry = 0x400078, lr_base = 0, lr_brk = 0x402000\<rparr>, s) \<and>
    vm_child (kern (ld_m s)) 0x400000 = Some (f, 6) \<and> vm_frames (kern (ld_m s)) f 0 = 0x7F \<and>
    vm_frames (kern (ld_m s)) f 200 = 0"
proof -
  let ?ph = "plain_phdr PT_LOAD 5 0 0x400000 130 5000" and ?e = "plain_ehdr ET_EXEC 0x400078 64 1"
  have segs: "load_segments sample_exec 130 = [?ph]" and eh: "ehdr sample_exec = ?e"
    and img: "image_ok sample_exec 130" and dyn: "\<forall>ph\<in>set (phdr_table sample_exec 130 (ehdr sample_exec)). p_type ph \<noteq> PT_DYNAMIC"
    by (simp_all add: sample_exec_image load_segments_def) (simp_all add: plain_phdr_def)
  have delta: "load_delta sample_exec 130 0 = 0" by (simp add: load_delta_def eh plain_ehdr_def)
  have lo: "seg_lo 0 ?ph = 4194304" by (simp add: seg_lo_def plain_phdr_def)
  have ok: "load_ok 130 0 ?ph" and cnt: "seg_page_count 0 ?ph = 2"
    by (simp_all add: load_ok_def seg_page_count_def lo) (simp_all add: plain_phdr_def)
  have hdr: "elf_check_header X86_64 ?e = 0"
    by (simp add: elf_check_header_def plain_ehdr_def is_elf_def elf_machine_def)
  have env: "load_env vm_kernel vm_poke vm_ctx (\<lambda>m. vm_frames (kern m)) (\<lambda>m. vm_scratch (kern m)) (\<lambda>m. vm_child (kern m))"
    by (simp add: load_env_def elf_kernel_def vm_laws vm_poke_at vm_ctx_fields)
  have fl: "page_flags 0 [?ph] 0x400000 = Some 6"
    by (simp add: page_flags_def in_seg_def lo add_flags_def phdr_to_flags_def) (simp add: plain_phdr_def)
  have brk: "image_brk 0 [?ph] 0 = 0x402000"
    by (simp add: image_brk_def elf_page_align_up_def plain_phdr_def)
  have b0: "image_byte sample_exec 0 [?ph] 4194304 = 0x7F" "image_byte sample_exec 0 [?ph] (4194304 + 200) = 0"
    by (simp_all add: image_byte_def seg_byte_def lo)
      (simp_all add: plain_phdr_def sample_exec_def enc_image_def enc_ehdr_def plain_ehdr_def)
  show ?thesis
  proof -
    have p: "64 \<le> (130 :: u64)" "elf_check_header X86_64 (ehdr sample_exec) = 0"
      "\<forall>ph\<in>set (load_segments sample_exec 130). load_ok 130 (load_delta sample_exec 130 0) ph"
      "0 < (\<Sum>ph\<leftarrow>load_segments sample_exec 130. seg_page_count (load_delta sample_exec 130 0) ph)"
      "(\<Sum>ph\<leftarrow>load_segments sample_exec 130. seg_page_count (load_delta sample_exec 130 0) ph) \<le> 256"
      by (simp_all add: segs delta eh hdr ok cnt)
    obtain s frame where s: "elf_load vm_kernel vm_poke X86_64 sample_exec 130 0 vm_ctx 16 vm_start =
        Some (ELF_OK, Some \<lparr>lr_entry = e_entry (ehdr sample_exec) + 0, lr_base = 0, lr_brk = 0x402000\<rparr>, s)"
      and c: "\<And>va. case page_flags 0 [?ph] va of
         None \<Rightarrow> vm_child (kern (ld_m s)) va = vm_child (kern vm_start) va
       | Some fl \<Rightarrow> vm_child (kern (ld_m s)) va = Some (frame va, fl) \<and>
           (\<forall>k<4096. vm_frames (kern (ld_m s)) (frame va) k = image_byte sample_exec 0 [?ph] (unat va + k))"
      using elf_load_image [OF img p(1,2) dyn refl refl p(3-5) env, of 16 vm_start]
      unfolding segs delta brk by blast
    have "vm_child (kern (ld_m s)) 0x400000 = Some (frame 0x400000, 6)"
      "\<forall>k<4096. vm_frames (kern (ld_m s)) (frame 0x400000) k = image_byte sample_exec 0 [?ph] (4194304 + k)"
      using c [of "0x400000"] fl by simp_all
    with s b0 show ?thesis
      by (intro exI [of _ s] exI [of _ "frame 0x400000"]) (simp add: eh plain_ehdr_def)
  qed
qed

end
