(* ===== verification/Casefold.thy ===== *)
theory Casefold
  imports Casefold_Table Memory
begin

text \<open>
  \<^verbatim>\<open>substrate/casefold.rs\<close>: case folding of code points by binary search, of UTF-8
  strings into a buffer, and the comparison of names that the file systems share.
  UTF-8 itself is the Rust library's: \<open>encode_utf8\<close> and \<open>decode_utf8\<close> stand for
  \<^verbatim>\<open>char::encode_utf8\<close> and for \<^verbatim>\<open>str::from_utf8\<close> followed by \<^verbatim>\<open>chars\<close>.
\<close>

section \<open>UTF-8\<close>

text \<open>\<open>char::from_u32\<close> accepts the Unicode scalar values.\<close>

definition is_char :: "u32 \<Rightarrow> bool" where
  "is_char c \<longleftrightarrow> c < 0x110000 \<and> \<not> (0xD800 \<le> c \<and> c < 0xE000)"

definition char_from_u32 :: "u32 \<Rightarrow> u32 option" where
  "char_from_u32 c = (if is_char c then Some c else None)"

definition encode_utf8 :: "u32 \<Rightarrow> u8 list" where
  "encode_utf8 c =
     (let n = unat c
      in if n < 0x80 then [of_nat n]
         else if n < 0x800 then [of_nat (0xC0 + n div 64), of_nat (0x80 + n mod 64)]
         else if n < 0x10000
              then [of_nat (0xE0 + n div 4096), of_nat (0x80 + n div 64 mod 64), of_nat (0x80 + n mod 64)]
         else [of_nat (0xF0 + n div 262144), of_nat (0x80 + n div 4096 mod 64),
               of_nat (0x80 + n div 64 mod 64), of_nat (0x80 + n mod 64)])"

definition utf8_cont :: "u8 \<Rightarrow> bool" where
  "utf8_cont b \<longleftrightarrow> 0x80 \<le> unat b \<and> unat b < 0xC0"

text \<open>One character: its length from the first byte, no overlong form and no surrogate.\<close>

definition utf8_next :: "u8 list \<Rightarrow> (u32 \<times> u8 list) option" where
  "utf8_next bs =
     (case bs of
        [] \<Rightarrow> None
      | b # r \<Rightarrow>
          let h = unat b
          in if h < 0x80 then Some (of_nat h, r)
             else if 0xC0 \<le> h \<and> h < 0xE0
             then (case r of
                     b1 # r' \<Rightarrow>
                       let n = (h - 0xC0) * 64 + (unat b1 - 0x80)
                       in if utf8_cont b1 \<and> 0x80 \<le> n then Some (of_nat n, r') else None
                   | _ \<Rightarrow> None)
             else if 0xE0 \<le> h \<and> h < 0xF0
             then (case r of
                     b1 # b2 # r' \<Rightarrow>
                       let n = (h - 0xE0) * 4096 + (unat b1 - 0x80) * 64 + (unat b2 - 0x80)
                       in if utf8_cont b1 \<and> utf8_cont b2 \<and> 0x800 \<le> n \<and> is_char (of_nat n)
                          then Some (of_nat n, r') else None
                   | _ \<Rightarrow> None)
             else if 0xF0 \<le> h \<and> h < 0xF8
             then (case r of
                     b1 # b2 # b3 # r' \<Rightarrow>
                       let n = (h - 0xF0) * 262144 + (unat b1 - 0x80) * 4096 + (unat b2 - 0x80) * 64 +
                               (unat b3 - 0x80)
                       in if utf8_cont b1 \<and> utf8_cont b2 \<and> utf8_cont b3 \<and> 0x10000 \<le> n \<and> n < 0x110000
                          then Some (of_nat n, r') else None
                   | _ \<Rightarrow> None)
             else None)"

function decode_utf8 :: "u8 list \<Rightarrow> u32 list option" where
  "decode_utf8 bs =
     (if bs = [] then Some []
      else case utf8_next bs of
             None \<Rightarrow> None
           | Some (c, r) \<Rightarrow> map_option ((#) c) (decode_utf8 r))"
  by auto
termination
  by (relation "measure length") (auto simp: utf8_next_def Let_def split: list.splits if_splits)

declare decode_utf8.simps [simp del]

section \<open>Folding\<close>

text \<open>
  The binary search.  Indices are within the table: \<open>hi\<close> starts at its length
  and \<open>mid < hi\<close> in every round.
\<close>

function fold_search :: "(u32 \<times> u32) list \<Rightarrow> u32 \<Rightarrow> nat \<Rightarrow> nat \<Rightarrow> u32" where
  "fold_search table cp lo hi =
     (if lo < hi
      then let mid = lo + (hi - lo) div 2; (k, v) = table ! mid
           in if k = cp then v
              else if k < cp then fold_search table cp (mid + 1) hi
              else fold_search table cp lo mid
      else cp)"
  by auto
termination
  by (relation "measure (\<lambda>(table, cp, lo, hi). hi - lo)") auto

declare fold_search.simps [simp del]

definition fold_codepoint :: "u32 \<Rightarrow> u32" where
  "fold_codepoint cp =
     (if cp < 0x80 then (if 0x41 \<le> cp \<and> cp \<le> 0x5A then cp + 32 else cp)
      else fold_search CASEFOLD_TABLE cp 0 (length CASEFOLD_TABLE))"

text \<open>The loop of \<open>fold_utf8\<close> over the characters; \<open>dst\<close> is returned as it was left.\<close>

fun fold_chars :: "u32 list \<Rightarrow> nat \<Rightarrow> u8 list \<Rightarrow> nat option \<times> u8 list" where
  "fold_chars [] pos dst = (Some pos, dst)"
| "fold_chars (c # cs) pos dst =
     (case char_from_u32 (fold_codepoint c) of
        None \<Rightarrow> (None, dst)
      | Some folded_char \<Rightarrow>
          let buf = encode_utf8 folded_char; enc_len = length buf
          in if length dst < pos + enc_len then (None, dst)
             else fold_chars cs (pos + enc_len) (put_slice dst pos buf))"

definition fold_utf8 :: "u8 list \<Rightarrow> u8 list \<Rightarrow> nat option \<times> u8 list" where
  "fold_utf8 src dst =
     (case decode_utf8 src of
        None \<Rightarrow> (None, dst)
      | Some cs \<Rightarrow> fold_chars cs 0 dst)"

abbreviation (input) FOLD_BUF_MAX :: nat where "FOLD_BUF_MAX \<equiv> 256"

definition casefold_equal :: "u8 list \<Rightarrow> u8 list \<Rightarrow> bool" where
  "casefold_equal a b =
     (let (ra, ba) = fold_utf8 a (replicate FOLD_BUF_MAX 0);
          (rb, bb) = fold_utf8 b (replicate FOLD_BUF_MAX 0)
      in case (ra, rb) of
           (Some la, Some lb) \<Rightarrow> if la \<noteq> lb then False else take la ba = take lb bb
         | _ \<Rightarrow> a = b)"

text \<open>The bytes of a folded string.\<close>

definition folded_bytes :: "u32 list \<Rightarrow> u8 list" where
  "folded_bytes cs = concat (map (\<lambda>c. encode_utf8 (fold_codepoint c)) cs)"

text \<open>What a name is compared by: its folded bytes if they fit into the buffer, itself otherwise.\<close>

definition name_key :: "u8 list \<Rightarrow> u8 list + u8 list" where
  "name_key a =
     (case decode_utf8 a of
        Some cs \<Rightarrow> if length (folded_bytes cs) \<le> FOLD_BUF_MAX then Inr (folded_bytes cs) else Inl a
      | None \<Rightarrow> Inl a)"

text \<open>86 capital letters A with stroke, and the same name with the last one small.\<close>

definition long_name :: "u8 list" where
  "long_name = concat (map encode_utf8 (replicate 86 0x23A))"

definition long_variant :: "u8 list" where
  "long_variant = concat (map encode_utf8 (replicate 85 0x23A @ [0x2C65]))"

section \<open>UTF-8 round trip\<close>

lemma is_char_nat: "is_char c \<longleftrightarrow> unat c < 0x110000 \<and> \<not> (0xD800 \<le> unat c \<and> unat c < 0xE000)"
  by (simp add: is_char_def word_less_nat_alt word_le_nat_alt)

lemma unat_of_nat_u8: "n < 256 \<Longrightarrow> unat (of_nat n :: u8) = n"
  by (simp add: unat_of_nat)

lemma base64_digits:
  fixes n :: nat
  shows "n div 64 * 64 + n mod 64 = n"
    and "n div 4096 * 4096 + n div 64 mod 64 * 64 + n mod 64 = n"
    and "n div 262144 * 262144 + n div 4096 mod 64 * 4096 + n div 64 mod 64 * 64 + n mod 64 = n"
proof -
  have d: "n div 4096 = n div 64 div 64" "n div 262144 = n div 4096 div 64"
    by (simp_all add: div_mult2_eq [symmetric])
  show 1: "n div 64 * 64 + n mod 64 = n" by simp
  have "n div 4096 * 64 + n div 64 mod 64 = n div 64" unfolding d(1) by simp
  with 1 show 2: "n div 4096 * 4096 + n div 64 mod 64 * 64 + n mod 64 = n" by linarith
  have "n div 262144 * 64 + n div 4096 mod 64 = n div 4096" unfolding d(2) by simp
  with 2 show "n div 262144 * 262144 + n div 4096 mod 64 * 4096 + n div 64 mod 64 * 64 + n mod 64 = n"
    by linarith
qed

lemma utf8_next_encode:
  assumes "is_char c"
  shows "utf8_next (encode_utf8 c @ r) = Some (c, r)"
proof -
  define n where "n = unat c"
  have c: "of_nat n = c" and lt: "n < 0x110000" and sur: "\<not> (0xD800 \<le> n \<and> n < 0xE000)"
    using assms by (simp_all add: n_def is_char_nat)
  have bytes: "unat (of_nat (0x80 + k mod 64) :: u8) = 0x80 + k mod 64" for k
    by (rule unat_of_nat_u8) (use mod_less_divisor [of 64 k] in linarith)
  have high: "n < 0x80 \<Longrightarrow> unat (of_nat n :: u8) = n"
    "n < 0x800 \<Longrightarrow> unat (of_nat (0xC0 + n div 64) :: u8) = 0xC0 + n div 64 \<and> n div 64 < 0x20"
    "n < 0x10000 \<Longrightarrow> unat (of_nat (0xE0 + n div 4096) :: u8) = 0xE0 + n div 4096 \<and> n div 4096 < 0x10"
    "unat (of_nat (0xF0 + n div 262144) :: u8) = 0xF0 + n div 262144 \<and> n div 262144 < 8"
    using lt by (auto intro!: unat_of_nat_u8 simp: div_less_iff_less_mult simp del: of_nat_add)
  note enc = encode_utf8_def [of c, unfolded Let_def, folded n_def]
  consider "n < 0x80" | "0x80 \<le> n" "n < 0x800" | "0x800 \<le> n" "n < 0x10000" | "0x10000 \<le> n" by linarith
  then show ?thesis
  proof cases
    case 1
    then show ?thesis using high(1) by (simp add: enc utf8_next_def c)
  next
    case 2
    then show ?thesis using high(2) bytes [of n] base64_digits(1) [of n]
      by (simp add: enc utf8_next_def Let_def utf8_cont_def c assms del: of_nat_add)
  next
    case 3
    then show ?thesis using high(3) bytes [of n] bytes [of "n div 64"] base64_digits(2) [of n]
      by (simp add: enc utf8_next_def Let_def utf8_cont_def c assms del: of_nat_add)
  next
    case 4
    then show ?thesis
      using high(4) bytes [of n] bytes [of "n div 64"] bytes [of "n div 4096"] base64_digits(3) [of n] lt
      by (simp add: enc utf8_next_def Let_def utf8_cont_def c assms del: of_nat_add)
  qed
qed

lemma base64_parts:
  fixes x y z w :: nat
  assumes "y < 64" "z < 64" "w < 64"
  shows "(x * 64 + y) div 64 = x" "(x * 64 + y) mod 64 = y"
    and "(x * 4096 + y * 64 + z) div 4096 = x" "(x * 4096 + y * 64 + z) div 64 mod 64 = y"
      "(x * 4096 + y * 64 + z) mod 64 = z"
    and "(x * 262144 + y * 4096 + z * 64 + w) div 262144 = x"
      "(x * 262144 + y * 4096 + z * 64 + w) div 4096 mod 64 = y"
      "(x * 262144 + y * 4096 + z * 64 + w) div 64 mod 64 = z"
      "(x * 262144 + y * 4096 + z * 64 + w) mod 64 = w"
proof -
  have d: "(x * 64 + y) div 64 = x" "(x * 64 + y) mod 64 = y" if "y < 64" for x y :: nat
    using that by (simp_all add: div_add1_eq mod_add_eq [symmetric])
  have e: "x * 4096 + y * 64 + z = (x * 64 + y) * 64 + z"
    and f: "x * 262144 + y * 4096 + z * 64 + w = ((x * 64 + y) * 64 + z) * 64 + w" by simp_all
  have q: "n div 4096 = n div 64 div 64" "n div 262144 = n div 64 div 64 div 64" for n :: nat
    by (simp_all add: div_mult2_eq [symmetric])
  show "(x * 64 + y) div 64 = x" "(x * 64 + y) mod 64 = y" using d assms by simp_all
  show "(x * 4096 + y * 64 + z) div 4096 = x" "(x * 4096 + y * 64 + z) div 64 mod 64 = y"
      "(x * 4096 + y * 64 + z) mod 64 = z"
    unfolding e q using assms by (simp_all only: d)
  show "(x * 262144 + y * 4096 + z * 64 + w) div 262144 = x"
      "(x * 262144 + y * 4096 + z * 64 + w) div 4096 mod 64 = y"
      "(x * 262144 + y * 4096 + z * 64 + w) div 64 mod 64 = z"
      "(x * 262144 + y * 4096 + z * 64 + w) mod 64 = w"
    unfolding f q using assms by (simp_all only: d)
qed

lemma utf8_contE:
  assumes "utf8_cont b"
  obtains y where "y < 64" "unat b = 0x80 + y" "b = of_nat (0x80 + y)"
proof
  have "0x80 \<le> unat b" "unat b < 0xC0" using assms by (simp_all add: utf8_cont_def)
  then show "unat b - 0x80 < 64" and eq: "unat b = 0x80 + (unat b - 0x80)" by linarith+
  have "b = of_nat (unat b)" by simp
  then show "b = of_nat (0x80 + (unat b - 0x80))" by (subst eq [symmetric])
qed

lemma utf8_next_decode:
  assumes "utf8_next bs = Some (c, r)"
  shows "is_char c \<and> bs = encode_utf8 c @ r"
proof -
  obtain b r0 where bs: "bs = b # r0" using assms by (cases bs) (simp_all add: utf8_next_def)
  define h where "h = unat b"
  have hb: "b = of_nat h" "h < 256" using unsigned_less [of b] by (simp_all add: h_def)
  have u: "n < 0x110000 \<Longrightarrow> unat (of_nat n :: u32) = n" for n by (simp add: unat_of_nat_lt32)
  note nx = assms [unfolded bs utf8_next_def list.case Let_def, folded h_def]
  consider "h < 0x80" | "0xC0 \<le> h" "h < 0xE0" | "0xE0 \<le> h" "h < 0xF0" | "0xF0 \<le> h" "h < 0xF8"
    | "0x80 \<le> h" "h < 0xC0 \<or> 0xF8 \<le> h" by linarith
  then show ?thesis
  proof cases
    case 1
    then show ?thesis using nx by (auto simp: bs encode_utf8_def u is_char_nat hb(1))
  next
    case 2
    define x where "x = h - 0xC0"
    have x: "h = 0xC0 + x" "x < 0x20" using 2 unfolding x_def by linarith+
    with nx obtain b1 where r0: "r0 = b1 # r" and c1: "utf8_cont b1" 
      and n: "0x80 \<le> x * 64 + (unat b1 - 0x80)" "c = of_nat (x * 64 + (unat b1 - 0x80))"
      by (auto split: list.splits if_splits)
    from c1 obtain y where y: "y < 64" "unat b1 = 0x80 + y" "b1 = of_nat (0x80 + y)" by (rule utf8_contE)
    have "x * 64 + y < 0x800" using x y by simp
    with y n show ?thesis
      by (simp add: bs r0 encode_utf8_def u is_char_nat hb(1) x(1) base64_parts Let_def del: of_nat_add of_nat_mult)
  next
    case 3
    define x where "x = h - 0xE0"
    have x: "h = 0xE0 + x" "x < 0x10" using 3 unfolding x_def by linarith+
    with nx obtain b1 b2 where r0: "r0 = b1 # b2 # r" and c1: "utf8_cont b1" and c2: "utf8_cont b2"
      and n: "0x800 \<le> x * 4096 + (unat b1 - 0x80) * 64 + (unat b2 - 0x80)" "is_char c"
        "c = of_nat (x * 4096 + (unat b1 - 0x80) * 64 + (unat b2 - 0x80))"
      by (auto split: list.splits if_splits)
    from c1 obtain y where y: "y < 64" "unat b1 = 0x80 + y" "b1 = of_nat (0x80 + y)" by (rule utf8_contE)
    from c2 obtain z where z: "z < 64" "unat b2 = 0x80 + z" "b2 = of_nat (0x80 + z)" by (rule utf8_contE)
    have "x * 4096 + y * 64 + z < 0x10000" using x y z by simp
    with y z n show ?thesis
      by (simp add: bs r0 encode_utf8_def u hb(1) x(1) base64_parts Let_def del: of_nat_add of_nat_mult)
  next
    case 4
    define x where "x = h - 0xF0"
    have x: "h = 0xF0 + x" using 4 unfolding x_def by linarith
    with nx 4 obtain b1 b2 b3 where r0: "r0 = b1 # b2 # b3 # r"
      and cs: "utf8_cont b1" "utf8_cont b2" "utf8_cont b3"
      and n: "0x10000 \<le> x * 262144 + (unat b1 - 0x80) * 4096 + (unat b2 - 0x80) * 64 + (unat b3 - 0x80)"
        "x * 262144 + (unat b1 - 0x80) * 4096 + (unat b2 - 0x80) * 64 + (unat b3 - 0x80) < 0x110000"
        "c = of_nat (x * 262144 + (unat b1 - 0x80) * 4096 + (unat b2 - 0x80) * 64 + (unat b3 - 0x80))"
      by (auto split: list.splits if_splits)
    from cs(1) obtain y where y: "y < 64" "unat b1 = 0x80 + y" "b1 = of_nat (0x80 + y)" by (rule utf8_contE)
    from cs(2) obtain z where z: "z < 64" "unat b2 = 0x80 + z" "b2 = of_nat (0x80 + z)" by (rule utf8_contE)
    from cs(3) obtain w where w: "w < 64" "unat b3 = 0x80 + w" "b3 = of_nat (0x80 + w)" by (rule utf8_contE)
    from y z w n show ?thesis
      by (simp add: bs r0 encode_utf8_def u is_char_nat hb(1) x base64_parts Let_def del: of_nat_add of_nat_mult)
  next
    case 5
    then show ?thesis using nx by auto
  qed
qed

lemma decode_utf8_Some:
  "decode_utf8 bs = Some cs \<longleftrightarrow> (\<forall>c\<in>set cs. is_char c) \<and> bs = concat (map encode_utf8 cs)"
proof (induction cs arbitrary: bs)
  case Nil
  show ?case by (subst decode_utf8.simps) (auto split: option.splits)
next
  case (Cons c cs)
  have ne: "encode_utf8 c \<noteq> []" by (simp add: encode_utf8_def Let_def)
  show ?case
  proof
    assume "decode_utf8 bs = Some (c # cs)"
    then obtain r where r: "utf8_next bs = Some (c, r)" "decode_utf8 r = Some cs"
      by (subst (asm) decode_utf8.simps) (auto split: if_splits option.splits)
    then show "(\<forall>x\<in>set (c # cs). is_char x) \<and> bs = concat (map encode_utf8 (c # cs))"
      using utf8_next_decode [OF r(1)] Cons by simp
  next
    assume *: "(\<forall>x\<in>set (c # cs). is_char x) \<and> bs = concat (map encode_utf8 (c # cs))"
    then have "utf8_next bs = Some (c, concat (map encode_utf8 cs))" by (simp add: utf8_next_encode)
    with * ne Cons show "decode_utf8 bs = Some (c # cs)" by (subst decode_utf8.simps) auto
  qed
qed

section \<open>The search\<close>

lemma map_of_nth:
  assumes "sorted_wrt (<) (map fst table)" "i < length table" "table ! i = (k, v)"
  shows "map_of table (k :: u32) = Some v"
proof -
  have "distinct (map fst table)" using assms(1) by (simp add: strict_sorted_iff)
  moreover have "(k, v) \<in> set table" using assms(2,3) by (metis nth_mem)
  ultimately show ?thesis by simp
qed

lemma map_of_outside:
  assumes "\<forall>i<length table. fst (table ! i) \<noteq> k"
  shows "map_of table k = None"
  using assms by (metis in_set_conv_nth list.set_map image_iff map_of_eq_None_iff)

lemma fold_search_spec:
  assumes srt: "sorted_wrt (<) (map fst table)" and "hi \<le> length table"
    and "\<forall>i<lo. i < length table \<longrightarrow> fst (table ! i) < cp" "\<forall>i<length table. hi \<le> i \<longrightarrow> cp < fst (table ! i)"
  shows "fold_search table cp lo hi = (case map_of table cp of Some v \<Rightarrow> v | None \<Rightarrow> cp)"
  using assms(2-)
proof (induction "hi - lo" arbitrary: lo hi rule: less_induct)
  case less
  have less_nth: "fst (table ! i) < fst (table ! j)" if "i < j" "j < length table" for i j
    using sorted_wrt_nth_less [OF srt, of i j] that by simp
  show ?case
  proof (cases "lo < hi")
    case False
    then have "fst (table ! i) \<noteq> cp" if "i < length table" for i
      using less.prems that by (cases "i < lo") auto
    with False show ?thesis by (subst fold_search.simps) (simp add: map_of_outside)
  next
    case True
    define mid where "mid = lo + (hi - lo) div 2"
    obtain k v where kv: "table ! mid = (k, v)" by (cases "table ! mid")
    have mid: "lo \<le> mid" "mid < hi" "mid < length table" using True less.prems(1) by (auto simp: mid_def)
    have step: "fold_search table cp lo hi =
        (if k = cp then v else if k < cp then fold_search table cp (mid + 1) hi else fold_search table cp lo mid)"
      using True by (subst fold_search.simps) (simp add: Let_def mid_def [symmetric] kv)
    consider "k = cp" | "k < cp" | "cp < k" by (rule linorder_cases)
    then show ?thesis
    proof cases
      case 1
      then show ?thesis using step map_of_nth [OF srt mid(3) kv] by simp
    next
      case 2
      have "fst (table ! i) < cp" if "i < mid + 1" "i < length table" for i
        using less_nth [of i mid] mid 2 that by (cases "i = mid") (auto simp: kv)
      then show ?thesis using 2 mid step less.prems less.hyps [of hi "mid + 1"] by auto
    next
      case 3
      have "cp < fst (table ! i)" if "mid \<le> i" "i < length table" for i
        using less_nth [of mid i] 3 that by (cases "i = mid") (auto simp: kv)
      then show ?thesis using 3 mid step less.prems less.hyps [of mid lo] by auto
    qed
  qed
qed

section \<open>The table\<close>

lemma scalar_value_u32:
  assumes "scalar_value k"
  shows "uint (of_int k :: u32) = k" "is_char (of_int k)"
proof -
  have "0 \<le> k" "k < 0x110000" using assms by (simp_all add: scalar_value_def)
  then show u: "uint (of_int k :: u32) = k" by (simp add: uint_word_of_int take_bit_int_eq_self)
  show "is_char (of_int k)" using assms by (simp add: is_char_def scalar_value_def word_less_def word_le_def u)
qed

lemma table_scalar:
  assumes "(k, v) \<in> set CASEFOLD_TABLE"
  obtains k' v' where "(k', v') \<in> set casefold_pairs" "k = of_int k'" "v = of_int v'"
    "scalar_value k'" "scalar_value v'"
  using assms casefold_pairs_ok by (auto simp: CASEFOLD_TABLE_def part_ok_iff)

lemma table_sorted: "sorted_wrt (<) (map fst CASEFOLD_TABLE)"
proof -
  have "sorted_wrt (\<lambda>p q. fst p < fst q) casefold_pairs"
    using casefold_pairs_ok by (simp add: part_ok_iff sorted_wrt_map)
  then have "sorted_wrt (\<lambda>p q. (of_int (fst p) :: u32) < of_int (fst q)) casefold_pairs"
  proof (rule sorted_wrt_mono_rel [rotated])
    fix p q assume "p \<in> set casefold_pairs" "q \<in> set casefold_pairs" and lt: "fst p < fst q"
    then have "scalar_value (fst p)" "scalar_value (fst q)"
      using casefold_pairs_ok by (auto simp: part_ok_iff)
    then show "(of_int (fst p) :: u32) < of_int (fst q)" using lt by (simp add: word_less_def scalar_value_u32)
  qed
  then show ?thesis by (simp add: CASEFOLD_TABLE_def sorted_wrt_map case_prod_beta)
qed

lemma table_disjoint:
  assumes "(k, v) \<in> set CASEFOLD_TABLE"
  shows "map_of CASEFOLD_TABLE v = None"
proof -
  have "v \<notin> fst ` set CASEFOLD_TABLE"
  proof
    assume "v \<in> fst ` set CASEFOLD_TABLE"
    then obtain w where "(v, w) \<in> set CASEFOLD_TABLE" by auto
    then obtain a b where a: "(a, b) \<in> set casefold_pairs" "v = of_int a" "scalar_value a" by (rule table_scalar)
    from assms obtain c d where c: "(c, d) \<in> set casefold_pairs" "v = of_int d" "scalar_value d" by (rule table_scalar)
    have "a = d" using a c scalar_value_u32(1) by metis
    then show False using a(1) c(1) casefold_pairs_disjoint by force
  qed
  then show ?thesis by (simp add: map_of_eq_None_iff)
qed

text \<open>The ASCII entries of the table.\<close>

lemma part_ok_high: "part_ok lo ps hi \<Longrightarrow> 0x7F \<le> lo \<Longrightarrow> filter (\<lambda>p. fst p < 0x80) ps = []"
  by (auto simp: part_ok_iff filter_empty_conv)

lemma table_ascii: "filter (\<lambda>p. fst p < 0x80) casefold_pairs = map (\<lambda>n. (n, n + 32)) [0x41..0x5A]"
proof -
  have "filter (\<lambda>p. fst p < 0x80) casefold_pairs = filter (\<lambda>p. fst p < 0x80) casefold_part_0"
    unfolding casefold_pairs_def by (simp add: parts_ok(2-) [THEN part_ok_high])
  also have "\<dots> = map (\<lambda>n. (n, n + 32)) [0x41..0x5A]"
    by code_simp
  finally show ?thesis .
qed

lemma ascii_entry:
  assumes "cp < 0x80"
  shows "map_of CASEFOLD_TABLE cp = (if 0x41 \<le> cp \<and> cp \<le> 0x5A then Some (cp + 32) else None)"
proof -
  have u: "0 \<le> uint cp" "uint cp < 0x80" using assms by (simp_all add: word_less_def)
  have mem: "(k, v) \<in> set casefold_pairs \<longleftrightarrow> 0x41 \<le> k \<and> k \<le> 0x5A \<and> v = k + 32" if "k < 0x80" for k v
  proof -
    have "(k, v) \<in> set casefold_pairs \<longleftrightarrow> (k, v) \<in> set (filter (\<lambda>p. fst p < 0x80) casefold_pairs)"
      using that by simp
    also have "\<dots> \<longleftrightarrow> 0x41 \<le> k \<and> k \<le> 0x5A \<and> v = k + 32" unfolding table_ascii set_map set_upto by auto
    finally show ?thesis .
  qed
  show ?thesis
  proof (cases "0x41 \<le> cp \<and> cp \<le> 0x5A")
    case True
    then have "(uint cp, uint cp + 32) \<in> set casefold_pairs" using mem [of "uint cp"] u by (simp add: word_le_def)
    then have "(cp, cp + 32) \<in> set CASEFOLD_TABLE" by (force simp: CASEFOLD_TABLE_def)
    then show ?thesis using True table_sorted by (simp add: strict_sorted_iff)
  next
    case False
    have "cp \<notin> fst ` set CASEFOLD_TABLE"
    proof
      assume "cp \<in> fst ` set CASEFOLD_TABLE"
      then obtain v where "(cp, v) \<in> set CASEFOLD_TABLE" by auto
      then obtain k v' where k: "(k, v') \<in> set casefold_pairs" "cp = of_int k" "scalar_value k" by (rule table_scalar)
      then show False using mem [of k v'] False u scalar_value_u32(1) [OF k(3)] by (simp add: word_le_def)
    qed
    then show ?thesis using False by (auto simp: map_of_eq_None_iff)
  qed
qed

lemma fold_codepoint_map_of:
  "fold_codepoint cp = (case map_of CASEFOLD_TABLE cp of Some v \<Rightarrow> v | None \<Rightarrow> cp)"
  using fold_search_spec [OF table_sorted, of "length CASEFOLD_TABLE" 0 cp] ascii_entry [of cp]
  by (simp add: fold_codepoint_def)

lemma fold_codepoint_idem: "fold_codepoint (fold_codepoint cp) = fold_codepoint cp"
  using table_disjoint [OF map_of_SomeD, of cp] by (simp add: fold_codepoint_map_of split: option.splits)

lemma fold_codepoint_char: "is_char c \<Longrightarrow> is_char (fold_codepoint c)"
  by (auto simp: fold_codepoint_map_of scalar_value_u32 dest!: map_of_SomeD elim!: table_scalar split: option.splits)

section \<open>Folding strings\<close>

lemma put_slice_at:
  assumes "pos + length bs \<le> length dst"
  shows "length (put_slice dst pos bs) = length dst"
    and "take (pos + length bs) (put_slice dst pos bs) = take pos dst @ bs"
    and "drop (pos + length bs) (put_slice dst pos bs) = drop (pos + length bs) dst"
  using assms by (simp_all add: put_slice_def)

lemma fold_chars_eq:
  assumes "\<forall>c\<in>set cs. is_char c" "pos \<le> length dst"
  shows "if pos + length (folded_bytes cs) \<le> length dst
    then fold_chars cs pos dst = (Some (pos + length (folded_bytes cs)),
      take pos dst @ folded_bytes cs @ drop (pos + length (folded_bytes cs)) dst)
    else fst (fold_chars cs pos dst) = None"
  using assms
proof (induction cs arbitrary: pos dst)
  case Nil
  then show ?case by (simp add: folded_bytes_def)
next
  case (Cons c cs)
  let ?b = "encode_utf8 (fold_codepoint c)"
  have ch: "char_from_u32 (fold_codepoint c) = Some (fold_codepoint c)"
    using Cons.prems fold_codepoint_char by (simp add: char_from_u32_def)
  have fb: "folded_bytes (c # cs) = ?b @ folded_bytes cs" by (simp add: folded_bytes_def)
  show ?case
  proof (cases "pos + length ?b \<le> length dst")
    case True
    note ps = put_slice_at [OF True]
    have "drop n (put_slice dst pos ?b) = drop n dst" if "pos + length ?b \<le> n" for n
      using that True by (simp add: put_slice_def)
    then show ?thesis
      using True Cons.IH [of "pos + length ?b" "put_slice dst pos ?b"] Cons.prems ps
      by (simp add: ch fb add.assoc Let_def split: if_splits)
  next
    case False
    then show ?thesis by (simp add: ch fb)
  qed
qed

lemma fold_utf8_eq:
  assumes "decode_utf8 src = Some cs"
  shows "if length (folded_bytes cs) \<le> length dst
    then fold_utf8 src dst = (Some (length (folded_bytes cs)), folded_bytes cs @ drop (length (folded_bytes cs)) dst)
    else fst (fold_utf8 src dst) = None"
proof -
  have "\<forall>c\<in>set cs. is_char c" using assms by (simp add: decode_utf8_Some)
  from fold_chars_eq [OF this, of 0 dst] show ?thesis by (simp add: fold_utf8_def assms)
qed

lemma decode_folded:
  assumes "decode_utf8 src = Some cs"
  shows "decode_utf8 (folded_bytes cs) = Some (map fold_codepoint cs)"
  using assms fold_codepoint_char by (auto simp: decode_utf8_Some folded_bytes_def comp_def)

lemma folded_bytes_inj:
  assumes "decode_utf8 a = Some cs" "decode_utf8 b = Some ds"
  shows "folded_bytes cs = folded_bytes ds \<longleftrightarrow> map fold_codepoint cs = map fold_codepoint ds"
proof
  assume "folded_bytes cs = folded_bytes ds"
  then show "map fold_codepoint cs = map fold_codepoint ds" using assms [THEN decode_folded] by simp
next
  assume "map fold_codepoint cs = map fold_codepoint ds"
  then have "map encode_utf8 (map fold_codepoint cs) = map encode_utf8 (map fold_codepoint ds)" by simp
  then show "folded_bytes cs = folded_bytes ds" by (simp add: folded_bytes_def comp_def)
qed

lemma casefold_equal_key: "casefold_equal a b \<longleftrightarrow> name_key a = name_key b"
proof -
  have key: "name_key a = (case fold_utf8 a (replicate 256 0) of (None, _) \<Rightarrow> Inl a | (Some n, buf) \<Rightarrow> Inr (take n buf))" for a
    using fold_utf8_eq [of a _ "replicate 256 0"]
    by (auto simp: name_key_def fold_utf8_def split: option.splits prod.splits if_splits)
  have len: "fold_utf8 a (replicate 256 0) = (Some n, buf) \<Longrightarrow> n \<le> length buf" for a n buf
    using fold_utf8_eq [of a _ "replicate 256 0"]
    by (auto simp: fold_utf8_def split: option.splits if_splits)
  show ?thesis
    using len [of a] len [of b]
    by (auto simp: casefold_equal_def key split: prod.splits option.splits)
       (metis length_take min.absorb2)+
qed

section \<open>Properties\<close>

text \<open>C25: The binary search computes the table: a code point is folded to its entry
  if it has one and to itself otherwise, for ASCII letters also without the search;
  and folding twice is folding once.
\<close>

theorem fold_codepoint_simple:
  "fold_codepoint cp = (case map_of CASEFOLD_TABLE cp of Some v \<Rightarrow> v | None \<Rightarrow> cp) \<and>
   fold_codepoint (fold_codepoint cp) = fold_codepoint cp"
  using fold_codepoint_map_of fold_codepoint_idem by blast

text \<open>C26: Folding a string: input that is not UTF-8 is refused and leaves the buffer
  alone; otherwise the folded characters are written as UTF-8 at the start of the
  buffer, or the result is \<open>None\<close> if and only if they do not fit.
\<close>

theorem fold_utf8_correct:
  "case decode_utf8 src of
     None \<Rightarrow> fold_utf8 src dst = (None, dst)
   | Some cs \<Rightarrow>
       decode_utf8 (folded_bytes cs) = Some (map fold_codepoint cs) \<and>
       (if length (folded_bytes cs) \<le> length dst
        then fold_utf8 src dst = (Some (length (folded_bytes cs)), folded_bytes cs @ drop (length (folded_bytes cs)) dst)
        else fst (fold_utf8 src dst) = None)"
proof (cases "decode_utf8 src")
  case None
  then show ?thesis by (simp add: fold_utf8_def)
next
  case (Some cs)
  with fold_utf8_eq [OF Some, of dst] decode_folded [OF Some] show ?thesis by simp
qed

text \<open>C27: Comparing names is an equivalence relation, and on names whose folded form
  fits into the buffer it is equality of the folded characters.
\<close>

theorem casefold_equal_names:
  "equivp casefold_equal \<and>
   (decode_utf8 a = Some cs \<and> decode_utf8 b = Some ds \<and>
    length (folded_bytes cs) \<le> 256 \<and> length (folded_bytes ds) \<le> 256 \<longrightarrow>
    (casefold_equal a b \<longleftrightarrow> map fold_codepoint cs = map fold_codepoint ds))"
proof
  show "equivp casefold_equal"
    by (rule equivpI) (auto simp: reflp_def symp_def transp_def casefold_equal_key)
qed (auto simp: casefold_equal_key name_key_def folded_bytes_inj)

theorem casefold_equal_names_witness:
  "casefold_equal [0x4D, 0x61, 0x6B, 0x45] [0x6D, 0x41, 0x4B, 0x65] \<and> \<not> casefold_equal [0x41] [0x42]"
proof -
  let ?a = "[0x4D, 0x61, 0x6B, 0x45]" and ?b = "[0x6D, 0x41, 0x4B, 0x65]"
  have dec: "decode_utf8 ?a = Some ?a" "decode_utf8 ?b = Some ?b" "decode_utf8 [0x41] = Some [0x41]"
    "decode_utf8 [0x42] = Some [0x42]"
    by (simp_all add: decode_utf8_Some is_char_def encode_utf8_def)
  note eq = casefold_equal_names [where a = ?a and b = ?b and cs = ?a and ds = ?b]
    casefold_equal_names [where a = "[0x41]" and b = "[0x42]" and cs = "[0x41]" and ds = "[0x42]"]
  have len: "length (folded_bytes ?a) = 4" "length (folded_bytes ?b) = 4" "length (folded_bytes [0x41]) = 1"
    "length (folded_bytes [0x42]) = 1"
    by (simp_all add: folded_bytes_def fold_codepoint_def encode_utf8_def)
  show ?thesis using eq unfolding dec len by (simp add: fold_codepoint_def)
qed

text \<open>C40: A buffer of 256 bytes is not enough for every file name: a name of 172 bytes
  can fold to 258, and then two names that differ only in case are unequal.
\<close>

theorem casefold_equal_long:
  "\<exists>cs ds. decode_utf8 long_name = Some cs \<and> decode_utf8 long_variant = Some ds \<and>
     length long_name = 172 \<and> length long_variant = 173 \<and>
     map fold_codepoint cs = map fold_codepoint ds \<and> \<not> casefold_equal long_name long_variant"
proof -
  have "(0x23A, 0x2C65) \<in> set casefold_part_1" by (simp add: casefold_part_1_def)
  then have "(0x23A, 0x2C65) \<in> set casefold_pairs" by (simp add: casefold_pairs_def)
  then have "(0x23A, 0x2C65) \<in> set CASEFOLD_TABLE" by (force simp: CASEFOLD_TABLE_def)
  then have f: "fold_codepoint 0x23A = 0x2C65"
    using table_sorted by (simp add: fold_codepoint_map_of strict_sorted_iff)
  then have f': "fold_codepoint 0x2C65 = 0x2C65" using fold_codepoint_idem [of "0x23A"] by simp
  let ?cs = "replicate 86 (0x23A :: u32)" and ?ds = "replicate 85 (0x23A :: u32) @ [0x2C65]"
  have dec: "decode_utf8 long_name = Some ?cs" "decode_utf8 long_variant = Some ?ds"
    by (simp_all add: decode_utf8_Some is_char_def long_name_def long_variant_def)
  have enc: "length (encode_utf8 0x23A) = 2" "length (encode_utf8 0x2C65) = 3"
    by (simp_all add: encode_utf8_def)
  have len: "length long_name = 172" "length long_variant = 173"
    by (simp_all add: long_name_def long_variant_def length_concat sum_list_replicate enc)
  have "length (folded_bytes ?cs) = 258" "length (folded_bytes ?ds) = 258"
    by (simp_all add: folded_bytes_def length_concat sum_list_replicate enc f f')
  then have "\<not> casefold_equal long_name long_variant"
    using len by (auto simp: casefold_equal_key name_key_def dec)
  moreover have "map fold_codepoint ?cs = map fold_codepoint ?ds"
    by (simp add: f f' map_replicate replicate_append_same)
      (simp add: numeral_eq_Suc)
  ultimately show ?thesis using dec len by blast
qed

end
