(* ===== verification/Returns.thy ===== *)
theory Returns
  imports Memory
begin

text \<open>
  Total correctness in the option monad: \<open>returns x Q\<close> says that the computation
  \<open>x\<close> has a value, reads only inside its memory and ends, and that \<open>Q\<close> holds of
  the value.  The rules follow the structure of a program, so a proof is an
  introduction over the program text followed by the arithmetic of its guards.
\<close>

definition returns :: "'a option \<Rightarrow> ('a \<Rightarrow> bool) \<Rightarrow> bool" where
  "returns x Q \<longleftrightarrow> (\<exists>v. x = Some v \<and> Q v)"

named_theorems returns_intros \<open>total correctness, by the structure of the program\<close>

lemma returns_Some [returns_intros]: "Q v \<Longrightarrow> returns (Some v) Q"
  by (simp add: returns_def)

lemma returns_bindT [returns_intros]:
  "returns x (\<lambda>_. True) \<Longrightarrow> (\<And>v. x = Some v \<Longrightarrow> returns (f v) Q) \<Longrightarrow> returns (Option.bind x f) Q"
  by (auto simp: returns_def)

lemma returns_bind:
  "returns x P \<Longrightarrow> (\<And>v. x = Some v \<Longrightarrow> P v \<Longrightarrow> returns (f v) Q) \<Longrightarrow> returns (Option.bind x f) Q"
  by (auto simp: returns_def)

lemma returns_if [returns_intros]:
  "(b \<Longrightarrow> returns x Q) \<Longrightarrow> (\<not> b \<Longrightarrow> returns y Q) \<Longrightarrow> returns (if b then x else y) Q"
  by simp

lemma returns_map_option [returns_intros]:
  "returns x (\<lambda>v. Q (f v)) \<Longrightarrow> returns (map_option f x) Q"
  by (auto simp: returns_def)

lemma returns_case_option [returns_intros]:
  "(x = None \<Longrightarrow> returns a Q) \<Longrightarrow> (\<And>v. x = Some v \<Longrightarrow> returns (f v) Q) \<Longrightarrow>
   returns (case x of None \<Rightarrow> a | Some v \<Rightarrow> f v) Q"
  by (cases x) simp_all

lemma returns_case_sum [returns_intros]:
  "(\<And>v. x = Inl v \<Longrightarrow> returns (f v) Q) \<Longrightarrow> (\<And>v. x = Inr v \<Longrightarrow> returns (g v) Q) \<Longrightarrow>
   returns (case x of Inl v \<Rightarrow> f v | Inr v \<Rightarrow> g v) Q"
  by (cases x) simp_all

lemma returns_case_prod [returns_intros]:
  "(\<And>a b. x = (a, b) \<Longrightarrow> returns (f a b) Q) \<Longrightarrow> returns (case x of (a, b) \<Rightarrow> f a b) Q"
  by (cases x) simp

lemma returns_mono: "returns x P \<Longrightarrow> (\<And>v. x = Some v \<Longrightarrow> P v \<Longrightarrow> Q v) \<Longrightarrow> returns x Q"
  by (auto simp: returns_def)

lemma returns_True: "returns x Q \<Longrightarrow> returns x (\<lambda>_. True)"
  by (auto simp: returns_def)

lemma returns_not_None: "returns x Q \<Longrightarrow> x \<noteq> None"
  by (auto simp: returns_def)

lemma returnsE: "returns x Q \<Longrightarrow> (\<And>v. x = Some v \<Longrightarrow> Q v \<Longrightarrow> R) \<Longrightarrow> R"
  by (auto simp: returns_def)

lemma returnsD: "returns x Q \<Longrightarrow> x = Some v \<Longrightarrow> Q v"
  by (simp add: returns_def)

lemma returns_read_bytes: "a + k \<le> length m \<Longrightarrow> returns (read_bytes m a k) (\<lambda>bs. length bs = k)"
  by (simp add: returns_def read_bytes_def)

lemma returns_read_u8: "a < length m \<Longrightarrow> returns (read_u8 m a) (\<lambda>b. b = m ! a)"
  by (simp add: returns_def read_u8_def)

lemma returns_read_word:
  "a + 2 \<le> length m \<Longrightarrow> returns (read_u16 m a) (\<lambda>_. True)"
  "a + 4 \<le> length m \<Longrightarrow> returns (read_u32 m a) (\<lambda>_. True)"
  "a + 8 \<le> length m \<Longrightarrow> returns (read_u64 m a) (\<lambda>_. True)"
  by (auto simp: returns_def read_u16_def read_u32_def read_u64_def read_bytes_def)

section \<open>Partial correctness\<close>

text \<open>\<open>yields x Q\<close>: if the computation has a value then \<open>Q\<close> holds of it.\<close>

definition yields :: "'a option \<Rightarrow> ('a \<Rightarrow> bool) \<Rightarrow> bool" where
  "yields x Q \<longleftrightarrow> (\<forall>v. x = Some v \<longrightarrow> Q v)"

named_theorems yields_intros \<open>partial correctness, by the structure of the program\<close>

lemma returns_yields: "returns x Q \<Longrightarrow> yields x Q"
  by (auto simp: returns_def yields_def)

lemma yields_Some [yields_intros]: "Q v \<Longrightarrow> yields (Some v) Q"
  by (simp add: yields_def)

lemma yields_bind: "yields x P \<Longrightarrow> (\<And>v. x = Some v \<Longrightarrow> P v \<Longrightarrow> yields (f v) Q) \<Longrightarrow> yields (Option.bind x f) Q"
  by (auto simp: yields_def bind_eq_Some_conv)

lemma yields_bindT [yields_intros]: "(\<And>v. x = Some v \<Longrightarrow> yields (f v) Q) \<Longrightarrow> yields (Option.bind x f) Q"
  by (auto simp: yields_def bind_eq_Some_conv)

lemma yields_if [yields_intros]:
  "(b \<Longrightarrow> yields x Q) \<Longrightarrow> (\<not> b \<Longrightarrow> yields y Q) \<Longrightarrow> yields (if b then x else y) Q"
  by simp

lemma yields_case_option [yields_intros]:
  "(x = None \<Longrightarrow> yields a Q) \<Longrightarrow> (\<And>v. x = Some v \<Longrightarrow> yields (f v) Q) \<Longrightarrow>
   yields (case x of None \<Rightarrow> a | Some v \<Rightarrow> f v) Q"
  by (cases x) simp_all

lemma yields_case_sum [yields_intros]:
  "(\<And>v. x = Inl v \<Longrightarrow> yields (f v) Q) \<Longrightarrow> (\<And>v. x = Inr v \<Longrightarrow> yields (g v) Q) \<Longrightarrow>
   yields (case x of Inl v \<Rightarrow> f v | Inr v \<Rightarrow> g v) Q"
  by (cases x) simp_all

lemma yields_case_prod [yields_intros]:
  "(\<And>a b. x = (a, b) \<Longrightarrow> yields (f a b) Q) \<Longrightarrow> yields (case x of (a, b) \<Rightarrow> f a b) Q"
  by (cases x) simp

lemma yieldsD: "yields x Q \<Longrightarrow> x = Some v \<Longrightarrow> Q v"
  by (simp add: yields_def)

end
