(* ===== verification/Pe_Image.thy ===== *)
theory Pe_Image
  imports Elf_Loader Returns
begin

text \<open>
  PE images: the structures of \<^verbatim>\<open>uapi/types/pe.rs\<close> and the functions of
  \<^verbatim>\<open>loader/pe_loader.rs\<close> that inspect an image without loading it: validation,
  data directories, translation of relative addresses and the list of imported
  libraries.  The image is raw memory, and every read outside it is \<^const>\<open>None\<close>.
\<close>

abbreviation (input) PE_PAGE_SIZE :: u64 where "PE_PAGE_SIZE \<equiv> 4096"
abbreviation (input) PE_DOS_MAGIC :: u16 where "PE_DOS_MAGIC \<equiv> 0x5A4D"
abbreviation (input) PE_SIGNATURE :: u32 where "PE_SIGNATURE \<equiv> 0x4550"
abbreviation (input) PE_OPT_MAGIC_PE32PLUS :: u16 where "PE_OPT_MAGIC_PE32PLUS \<equiv> 0x20B"
abbreviation (input) IMAGE_SCN_MEM_EXECUTE :: u32 where "IMAGE_SCN_MEM_EXECUTE \<equiv> 0x20000000"
abbreviation (input) IMAGE_SCN_MEM_WRITE :: u32 where "IMAGE_SCN_MEM_WRITE \<equiv> 0x80000000"
abbreviation (input) IMAGE_SCN_MEM_DISCARDABLE :: u32 where "IMAGE_SCN_MEM_DISCARDABLE \<equiv> 0x02000000"
abbreviation (input) IMAGE_DIRECTORY_ENTRY_IMPORT :: nat where "IMAGE_DIRECTORY_ENTRY_IMPORT \<equiv> 1"
abbreviation (input) IMAGE_DIRECTORY_ENTRY_BASERELOC :: nat where "IMAGE_DIRECTORY_ENTRY_BASERELOC \<equiv> 5"
abbreviation (input) IMAGE_REL_BASED_ABSOLUTE :: u16 where "IMAGE_REL_BASED_ABSOLUTE \<equiv> 0"
abbreviation (input) IMAGE_REL_BASED_DIR64 :: u16 where "IMAGE_REL_BASED_DIR64 \<equiv> 10"
abbreviation (input) PE_OK :: int where "PE_OK \<equiv> 0"
abbreviation (input) PE_NOT_PE :: int where "PE_NOT_PE \<equiv> 20"
abbreviation (input) PE_NOT_64BIT :: int where "PE_NOT_64BIT \<equiv> 21"
abbreviation (input) PE_BAD_ARCH :: int where "PE_BAD_ARCH \<equiv> 22"
abbreviation (input) PE_NO_SECTIONS :: int where "PE_NO_SECTIONS \<equiv> 23"
abbreviation (input) PE_RELOC_FAILED :: int where "PE_RELOC_FAILED \<equiv> 24"
abbreviation (input) PE_OUT_OF_MEMORY :: int where "PE_OUT_OF_MEMORY \<equiv> 25"
abbreviation (input) PE_TOO_SMALL :: int where "PE_TOO_SMALL \<equiv> 26"
abbreviation (input) PE_MAP_FAILED :: int where "PE_MAP_FAILED \<equiv> 27"
abbreviation (input) PE_BAD_IMPORT :: int where "PE_BAD_IMPORT \<equiv> 28"
abbreviation (input) MAX_PE_PAGES :: nat where "MAX_PE_PAGES \<equiv> 512"
abbreviation (input) MAX_PE_SECTIONS :: nat where "MAX_PE_SECTIONS \<equiv> 32"
abbreviation (input) MAX_PE_IMPORTS :: nat where "MAX_PE_IMPORTS \<equiv> 16"
abbreviation (input) MAX_PE_IMPORT_NAME :: nat where "MAX_PE_IMPORT_NAME \<equiv> 32"

definition pe_machine :: "target_arch \<Rightarrow> u16" where
  "pe_machine a = (case a of X86_64 \<Rightarrow> 0x8664 | Aarch64 \<Rightarrow> 0xAA64)"

section \<open>Structures\<close>

text \<open>The 64 bytes of the DOS header, of which the first and the last field are used.\<close>

record DosHeader =
  dos_e_magic :: u16
  dos_e_cblp :: u16
  dos_e_cp :: u16
  dos_e_crlc :: u16
  dos_e_cparhdr :: u16
  dos_e_minalloc :: u16
  dos_e_maxalloc :: u16
  dos_e_ss :: u16
  dos_e_sp :: u16
  dos_e_csum :: u16
  dos_e_ip :: u16
  dos_e_cs :: u16
  dos_e_lfarlc :: u16
  dos_e_ovno :: u16
  dos_e_res :: "u16 list"
  dos_e_oemid :: u16
  dos_e_oeminfo :: u16
  dos_e_res2 :: "u16 list"
  dos_e_lfanew :: u32

record CoffHeader =
  co_machine :: u16
  co_number_of_sections :: u16
  co_time_date_stamp :: u32
  co_pointer_to_symbol_table :: u32
  co_number_of_symbols :: u32
  co_size_of_optional_header :: u16
  co_characteristics :: u16

record DataDirectory =
  dd_virtual_address :: u32
  dd_size :: u32

definition DataDirectory_zeroed :: DataDirectory where
  "DataDirectory_zeroed = \<lparr>dd_virtual_address = 0, dd_size = 0\<rparr>"

record OptionalHeader64 =
  oh_magic :: u16
  oh_major_linker_version :: u8
  oh_minor_linker_version :: u8
  oh_size_of_code :: u32
  oh_size_of_initialized_data :: u32
  oh_size_of_uninitialized_data :: u32
  oh_address_of_entry_point :: u32
  oh_base_of_code :: u32
  oh_image_base :: u64
  oh_section_alignment :: u32
  oh_file_alignment :: u32
  oh_versions :: "u16 list"
  oh_win32_version_value :: u32
  oh_size_of_image :: u32
  oh_size_of_headers :: u32
  oh_checksum :: u32
  oh_subsystem :: u16
  oh_dll_characteristics :: u16
  oh_size_of_stack_reserve :: u64
  oh_size_of_stack_commit :: u64
  oh_size_of_heap_reserve :: u64
  oh_size_of_heap_commit :: u64
  oh_loader_flags :: u32
  oh_number_of_rva_and_sizes :: u32

record SectionHeader =
  sh_name :: "u8 list"
  sh_virtual_size :: u32
  sh_virtual_address :: u32
  sh_size_of_raw_data :: u32
  sh_pointer_to_raw_data :: u32
  sh_pointer_to_relocations :: u32
  sh_pointer_to_linenumbers :: u32
  sh_number_of_relocations :: u16
  sh_number_of_linenumbers :: u16
  sh_characteristics :: u32

record ImportDescriptor =
  im_original_first_thunk :: u32
  im_time_date_stamp :: u32
  im_forwarder_chain :: u32
  im_name_rva :: u32
  im_first_thunk :: u32

definition is_null :: "ImportDescriptor \<Rightarrow> bool" where
  "is_null d \<longleftrightarrow> im_original_first_thunk d = 0 \<and> im_name_rva d = 0 \<and> im_first_thunk d = 0"

record BaseRelocation =
  br_virtual_address :: u32
  br_size_of_block :: u32

record PeLoadResult =
  pr_entry :: u64
  pr_base :: u64
  pr_image_end :: u64

record PeInfo =
  pi_coff_offset :: u64
  pi_machine :: u16
  pi_number_of_sections :: u16
  pi_size_of_optional_header :: u16
  pi_characteristics :: u16
  pi_entry_point_rva :: u32
  pi_image_base :: u64
  pi_section_alignment :: u32
  pi_file_alignment :: u32
  pi_size_of_image :: u32
  pi_size_of_headers :: u32
  pi_number_of_rva_and_sizes :: u32
  pi_section_headers_offset :: u64
  pi_data_dir_offset :: u64

record PeImports =
  px_count :: nat
  px_names :: "u8 list list"
  px_name_lens :: "nat list"

definition PeImports_new :: PeImports where
  "PeImports_new =
     \<lparr>px_count = 0, px_names = replicate MAX_PE_IMPORTS (replicate MAX_PE_IMPORT_NAME 0),
      px_name_lens = replicate MAX_PE_IMPORTS 0\<rparr>"

text \<open>References to structures in the image.\<close>

definition flds :: "u8 list \<Rightarrow> nat \<Rightarrow> nat \<Rightarrow> u16 list" where
  "flds bs off n = map (\<lambda>i. fld bs (off + 2 * i) 2) [0..<n]"

definition read_dos :: "mem \<Rightarrow> nat \<Rightarrow> DosHeader option" where
  "read_dos m a = map_option (\<lambda>bs.
     \<lparr>dos_e_magic = fld bs 0 2, dos_e_cblp = fld bs 2 2, dos_e_cp = fld bs 4 2, dos_e_crlc = fld bs 6 2,
      dos_e_cparhdr = fld bs 8 2, dos_e_minalloc = fld bs 10 2, dos_e_maxalloc = fld bs 12 2,
      dos_e_ss = fld bs 14 2, dos_e_sp = fld bs 16 2, dos_e_csum = fld bs 18 2, dos_e_ip = fld bs 20 2,
      dos_e_cs = fld bs 22 2, dos_e_lfarlc = fld bs 24 2, dos_e_ovno = fld bs 26 2, dos_e_res = flds bs 28 4,
      dos_e_oemid = fld bs 36 2, dos_e_oeminfo = fld bs 38 2, dos_e_res2 = flds bs 40 10,
      dos_e_lfanew = fld bs 60 4\<rparr>) (read_bytes m a 64)"

definition read_coff :: "mem \<Rightarrow> nat \<Rightarrow> CoffHeader option" where
  "read_coff m a = map_option (\<lambda>bs.
     \<lparr>co_machine = fld bs 0 2, co_number_of_sections = fld bs 2 2, co_time_date_stamp = fld bs 4 4,
      co_pointer_to_symbol_table = fld bs 8 4, co_number_of_symbols = fld bs 12 4,
      co_size_of_optional_header = fld bs 16 2, co_characteristics = fld bs 18 2\<rparr>) (read_bytes m a 20)"

definition read_opt :: "mem \<Rightarrow> nat \<Rightarrow> OptionalHeader64 option" where
  "read_opt m a = map_option (\<lambda>bs.
     \<lparr>oh_magic = fld bs 0 2, oh_major_linker_version = fld bs 2 1, oh_minor_linker_version = fld bs 3 1,
      oh_size_of_code = fld bs 4 4, oh_size_of_initialized_data = fld bs 8 4,
      oh_size_of_uninitialized_data = fld bs 12 4, oh_address_of_entry_point = fld bs 16 4,
      oh_base_of_code = fld bs 20 4, oh_image_base = fld bs 24 8, oh_section_alignment = fld bs 32 4,
      oh_file_alignment = fld bs 36 4, oh_versions = flds bs 40 6, oh_win32_version_value = fld bs 52 4,
      oh_size_of_image = fld bs 56 4, oh_size_of_headers = fld bs 60 4, oh_checksum = fld bs 64 4,
      oh_subsystem = fld bs 68 2, oh_dll_characteristics = fld bs 70 2, oh_size_of_stack_reserve = fld bs 72 8,
      oh_size_of_stack_commit = fld bs 80 8, oh_size_of_heap_reserve = fld bs 88 8,
      oh_size_of_heap_commit = fld bs 96 8, oh_loader_flags = fld bs 104 4,
      oh_number_of_rva_and_sizes = fld bs 108 4\<rparr>) (read_bytes m a 112)"

definition read_section :: "mem \<Rightarrow> nat \<Rightarrow> SectionHeader option" where
  "read_section m a = map_option (\<lambda>bs.
     \<lparr>sh_name = take 8 bs, sh_virtual_size = fld bs 8 4, sh_virtual_address = fld bs 12 4,
      sh_size_of_raw_data = fld bs 16 4, sh_pointer_to_raw_data = fld bs 20 4,
      sh_pointer_to_relocations = fld bs 24 4, sh_pointer_to_linenumbers = fld bs 28 4,
      sh_number_of_relocations = fld bs 32 2, sh_number_of_linenumbers = fld bs 34 2,
      sh_characteristics = fld bs 36 4\<rparr>) (read_bytes m a 40)"

definition read_import :: "mem \<Rightarrow> nat \<Rightarrow> ImportDescriptor option" where
  "read_import m a = map_option (\<lambda>bs.
     \<lparr>im_original_first_thunk = fld bs 0 4, im_time_date_stamp = fld bs 4 4, im_forwarder_chain = fld bs 8 4,
      im_name_rva = fld bs 12 4, im_first_thunk = fld bs 16 4\<rparr>) (read_bytes m a 20)"

definition read_block :: "mem \<Rightarrow> nat \<Rightarrow> BaseRelocation option" where
  "read_block m a = map_option (\<lambda>bs. \<lparr>br_virtual_address = fld bs 0 4, br_size_of_block = fld bs 4 4\<rparr>) (read_bytes m a 8)"

section \<open>Inspection\<close>

text \<open>The result of \<open>pe_validate\<close> is the error code or the filled \<open>*info\<close>.\<close>

definition pe_validate :: "target_arch \<Rightarrow> mem \<Rightarrow> u64 \<Rightarrow> (int + PeInfo) option" where
  "pe_validate arch data data_len =
     (if data_len < 64 then Some (Inl PE_TOO_SMALL)
      else do {
        dos \<leftarrow> read_dos data 0;
        if dos_e_magic dos \<noteq> PE_DOS_MAGIC then Some (Inl PE_NOT_PE)
        else let pe_offset = ucast (dos_e_lfanew dos) :: u64
        in if data_len < pe_offset + 4 + 20 then Some (Inl PE_TOO_SMALL)
        else do {
          pe_sig \<leftarrow> read_u32 data (unat pe_offset);
          if pe_sig \<noteq> PE_SIGNATURE then Some (Inl PE_NOT_PE)
          else let coff_offset = pe_offset + 4
          in do {
            coff \<leftarrow> read_coff data (unat coff_offset);
            if co_machine coff \<noteq> pe_machine arch then Some (Inl PE_BAD_ARCH)
            else if co_number_of_sections coff = 0 then Some (Inl PE_NO_SECTIONS)
            else let opt_offset = coff_offset + 20
            in if data_len < opt_offset + 112 then Some (Inl PE_TOO_SMALL)
            else do {
              opt \<leftarrow> read_opt data (unat opt_offset);
              if oh_magic opt \<noteq> PE_OPT_MAGIC_PE32PLUS then Some (Inl PE_NOT_64BIT)
              else let data_dir_offset = opt_offset + 112;
                       section_headers_offset = opt_offset + ucast (co_size_of_optional_header coff);
                       section_headers_end = section_headers_offset + ucast (co_number_of_sections coff) * 40
              in if data_len < section_headers_end then Some (Inl PE_TOO_SMALL)
              else Some (Inr
                \<lparr>pi_coff_offset = coff_offset, pi_machine = co_machine coff,
                 pi_number_of_sections = co_number_of_sections coff,
                 pi_size_of_optional_header = co_size_of_optional_header coff,
                 pi_characteristics = co_characteristics coff,
                 pi_entry_point_rva = oh_address_of_entry_point opt, pi_image_base = oh_image_base opt,
                 pi_section_alignment = oh_section_alignment opt, pi_file_alignment = oh_file_alignment opt,
                 pi_size_of_image = oh_size_of_image opt, pi_size_of_headers = oh_size_of_headers opt,
                 pi_number_of_rva_and_sizes = oh_number_of_rva_and_sizes opt,
                 pi_section_headers_offset = section_headers_offset,
                 pi_data_dir_offset = data_dir_offset\<rparr>) } } } })"

definition read_data_dir :: "mem \<Rightarrow> u64 \<Rightarrow> PeInfo \<Rightarrow> nat \<Rightarrow> DataDirectory option" where
  "read_data_dir data data_len info index =
     (if unat (pi_number_of_rva_and_sizes info) \<le> index then Some DataDirectory_zeroed
      else let entry_offset = pi_data_dir_offset info + of_nat index * 8
           in if data_len < entry_offset + 8 then Some DataDirectory_zeroed
              else map_option (\<lambda>bs. \<lparr>dd_virtual_address = fld bs 0 4, dd_size = fld bs 4 4\<rparr>)
                     (read_bytes data (unat entry_offset) 8))"

definition section_to_vspace_flags :: "u32 \<Rightarrow> u64" where
  "section_to_vspace_flags characteristics =
     (let w = (characteristics AND IMAGE_SCN_MEM_WRITE \<noteq> 0);
          x = (characteristics AND IMAGE_SCN_MEM_EXECUTE \<noteq> 0)
      in if w then VSPACE_FLAG_USER OR VSPACE_FLAG_WRITABLE
         else if x then VSPACE_FLAG_USER OR VSPACE_FLAG_EXECUTABLE
         else VSPACE_FLAG_USER)"

definition pe_count_load_pages :: "target_arch \<Rightarrow> mem \<Rightarrow> u64 \<Rightarrow> u64 option" where
  "pe_count_load_pages arch data data_len =
     do { r \<leftarrow> pe_validate arch data data_len;
          Some (case r of Inl _ \<Rightarrow> 0 | Inr info \<Rightarrow> elf_page_align_up (ucast (pi_size_of_image info)) div PE_PAGE_SIZE) }"

definition pe_compute_load_span :: "target_arch \<Rightarrow> mem \<Rightarrow> u64 \<Rightarrow> u64 option" where
  "pe_compute_load_span arch data data_len =
     do { r \<leftarrow> pe_validate arch data data_len;
          Some (case r of Inl _ \<Rightarrow> 0 | Inr info \<Rightarrow> elf_page_align_up (ucast (pi_size_of_image info))) }"

definition pe_is_pe :: "mem \<Rightarrow> u64 \<Rightarrow> bool option" where
  "pe_is_pe data data_len =
     (if data_len < 2 then Some False
      else map_option (\<lambda>magic. magic = PE_DOS_MAGIC) (read_u16 data 0))"

text \<open>The loop over the section table that \<open>pe_load\<close> and \<open>rva_to_file_offset\<close> share.\<close>

fun section_for ::
  "mem \<Rightarrow> u64 \<Rightarrow> PeInfo \<Rightarrow> (SectionHeader \<Rightarrow> 's \<Rightarrow> ('s + 'r) option) \<Rightarrow> nat list \<Rightarrow> 's \<Rightarrow> ('s + 'r) option"
where
  "section_for data data_len info f [] s = Some (Inl s)"
| "section_for data data_len info f (i # is) s =
     (let sec_offset = of_nat i * 40
      in if data_len < pi_section_headers_offset info + sec_offset + 40 then Some (Inl s)
         else do {
           sec \<leftarrow> read_section data (unat (pi_section_headers_offset info) + unat (sec_offset :: u64));
           r \<leftarrow> f sec s;
           case r of Inl s' \<Rightarrow> section_for data data_len info f is s' | Inr x \<Rightarrow> Some (Inr x) })"

definition section_indices :: "PeInfo \<Rightarrow> nat list" where
  "section_indices info = [0..<unat (pi_number_of_sections info)]"

definition rva_in_section :: "u64 \<Rightarrow> u32 \<Rightarrow> SectionHeader \<Rightarrow> unit + u64 option" where
  "rva_in_section data_len rva sec =
     (let sec_va = sh_virtual_address sec;
          sec_vsize = (if 0 < sh_virtual_size sec then sh_virtual_size sec else sh_size_of_raw_data sec)
      in if sec_va \<le> rva \<and> rva < sec_va + sec_vsize
         then let offset_within = rva - sec_va;
                  file_off = ucast (sh_pointer_to_raw_data sec) + ucast offset_within
              in Inr (if offset_within < sh_size_of_raw_data sec \<and> file_off < data_len then Some file_off else None)
         else Inl ())"

definition rva_to_file_offset :: "mem \<Rightarrow> u64 \<Rightarrow> PeInfo \<Rightarrow> u32 \<Rightarrow> u64 option option" where
  "rva_to_file_offset data data_len info rva =
     (if rva < pi_size_of_headers info then Some (Some (ucast rva))
      else map_option (\<lambda>r. case r of Inl _ \<Rightarrow> None | Inr off \<Rightarrow> off)
             (section_for data data_len info (\<lambda>sec _. Some (rva_in_section data_len rva sec))
                (section_indices info) ()))"

text \<open>The length of a name that starts at \<open>off\<close>, cut at \<open>limit\<close> when there is one.\<close>

partial_function (option) import_name_len :: "mem \<Rightarrow> u64 \<Rightarrow> u64 \<Rightarrow> u64 option \<Rightarrow> u64 \<Rightarrow> u64 option" where
  "import_name_len data data_len off limit len =
     (if \<not> off + len < data_len then Some len
      else do {
        b \<leftarrow> read_u8 data (unat off + unat len);
        if b \<noteq> 0 \<and> (case limit of None \<Rightarrow> True | Some l \<Rightarrow> len < l)
        then import_name_len data data_len off limit (len + 1)
        else Some len })"

definition imports_push :: "PeImports \<Rightarrow> u8 list \<Rightarrow> PeImports" where
  "imports_push r name =
     (let idx = px_count r
      in \<lparr>px_count = idx + 1,
          px_names = (px_names r)[idx := fold (\<lambda>j row. row[j := name ! j]) [0..<length name] (px_names r ! idx)],
          px_name_lens = (px_name_lens r)[idx := length name]\<rparr>)"

text \<open>The name that one descriptor adds, if its address is in the file.\<close>

definition import_entry :: "mem \<Rightarrow> u64 \<Rightarrow> u64 option \<Rightarrow> PeImports \<Rightarrow> PeImports option" where
  "import_entry data data_len name_off r =
     (case name_off of
        None \<Rightarrow> Some r
      | Some off \<Rightarrow> do {
          len \<leftarrow> import_name_len data data_len off (Some 32) 0;
          if 0 < len
          then do { name \<leftarrow> read_bytes data (unat off) (unat len); Some (imports_push r name) }
          else Some r })"

partial_function (option) imports_loop :: "mem \<Rightarrow> u64 \<Rightarrow> PeInfo \<Rightarrow> u64 \<Rightarrow> PeImports \<Rightarrow> PeImports option" where
  "imports_loop data data_len info pos r =
     (if data_len < pos + 20 then Some r
      else do {
        desc \<leftarrow> read_import data (unat pos);
        if is_null desc \<or> MAX_PE_IMPORTS \<le> px_count r then Some r
        else do {
          name_off \<leftarrow> rva_to_file_offset data data_len info (im_name_rva desc);
          r' \<leftarrow> import_entry data data_len name_off r;
          imports_loop data data_len info (pos + 20) r' } })"

definition pe_get_imports :: "mem \<Rightarrow> u64 \<Rightarrow> PeInfo \<Rightarrow> PeImports option" where
  "pe_get_imports data data_len info =
     do { import_dir \<leftarrow> read_data_dir data data_len info IMAGE_DIRECTORY_ENTRY_IMPORT;
          if dd_virtual_address import_dir = 0 \<or> dd_size import_dir = 0 then Some PeImports_new
          else do {
            off \<leftarrow> rva_to_file_offset data data_len info (dd_virtual_address import_dir);
            case off of
              None \<Rightarrow> Some PeImports_new
            | Some import_file_off \<Rightarrow> imports_loop data data_len info import_file_off PeImports_new } }"

text \<open>
  An image that the functions can be used on: the array has the announced length
  and is smaller than \<open>2 ^ 62\<close> bytes.  What \<open>pe_validate\<close> establishes for the
  positions in the information it returns.
\<close>

definition pe_buffer :: "mem \<Rightarrow> u64 \<Rightarrow> bool" where
  "pe_buffer data n \<longleftrightarrow> unat n \<le> length data \<and> n < 0x4000000000000000"

definition pe_info_ok :: "u64 \<Rightarrow> PeInfo \<Rightarrow> bool" where
  "pe_info_ok n info \<longleftrightarrow>
     unat (pi_section_headers_offset info) + unat (pi_number_of_sections info) * 40 \<le> unat n \<and>
     unat (pi_data_dir_offset info) < 2 ^ 33"

definition imports_wf :: "PeImports \<Rightarrow> bool" where
  "imports_wf r \<longleftrightarrow> px_count r \<le> MAX_PE_IMPORTS \<and> length (px_names r) = MAX_PE_IMPORTS \<and>
     length (px_name_lens r) = MAX_PE_IMPORTS \<and> (\<forall>row\<in>set (px_names r). length row = MAX_PE_IMPORT_NAME) \<and>
     (\<forall>i<px_count r. 0 < px_name_lens r ! i \<and> px_name_lens r ! i \<le> MAX_PE_IMPORT_NAME)"

section \<open>Inspection stays inside the image\<close>

lemma pe_buffer_lt: "pe_buffer data n \<Longrightarrow> unat n \<le> length data \<and> unat n < 0x4000000000000000"
  by (simp add: pe_buffer_def word_less_nat_alt)

lemma unat_ucast_32_64 [simp]: "unat (ucast (w :: u32) :: u64) = unat w"
  using less_trans [OF unat_lt32 [of w], of "2 ^ 64"] by (simp add: unsigned_ucast_eq take_bit_nat_eq_self)

lemma returns_structs:
  "a + 64 \<le> length m \<Longrightarrow> returns (read_dos m a) (\<lambda>_. True)"
  "a + 20 \<le> length m \<Longrightarrow> returns (read_coff m a) (\<lambda>_. True)"
  "a + 112 \<le> length m \<Longrightarrow> returns (read_opt m a) (\<lambda>_. True)"
  "a + 40 \<le> length m \<Longrightarrow> returns (read_section m a) (\<lambda>_. True)"
  "a + 20 \<le> length m \<Longrightarrow> returns (read_import m a) (\<lambda>_. True)"
  "a + 8 \<le> length m \<Longrightarrow> returns (read_block m a) (\<lambda>_. True)"
  by (simp_all add: returns_def read_bytes_def read_dos_def read_coff_def read_opt_def read_section_def
      read_import_def read_block_def)

lemma pe_offsets:
  fixes w :: u32 and c k :: u16
  shows "unat (ucast w + 4 :: u64) = unat w + 4" "unat (ucast w + 24 :: u64) = unat w + 24"
    "unat (ucast w + 136 :: u64) = unat w + 136"
    "unat (ucast w + 24 + ucast c :: u64) = unat w + 24 + unat c"
    "unat (ucast w + 24 + ucast c + ucast k * 40 :: u64) = unat w + 24 + unat c + unat k * 40"
proof -
  have w: "unat w < 4294967296" "unat c < 65536" "unat k < 65536"
    using unsigned_less [of w] unsigned_less [of c] unsigned_less [of k] by simp_all
  then have "unat k * 40 < 18446744073709551616" by linarith
  then have k: "unat (ucast k * 40 :: u64) = unat k * 40" by (simp add: unat_word_ariths)
  show "unat (ucast w + 4 :: u64) = unat w + 4" "unat (ucast w + 24 :: u64) = unat w + 24"
    "unat (ucast w + 136 :: u64) = unat w + 136"
    "unat (ucast w + 24 + ucast c :: u64) = unat w + 24 + unat c"
    "unat (ucast w + 24 + ucast c + ucast k * 40 :: u64) = unat w + 24 + unat c + unat k * 40"
    using w by (simp_all add: unat_add_le k del: unat_lt32 unat_lt16)
qed

lemma pe_validate_returns:
  assumes "pe_buffer data n"
  shows "returns (pe_validate arch data n) (\<lambda>v. v \<noteq> Inl PE_OK \<and> (\<forall>info. v = Inr info \<longrightarrow> pe_info_ok n info))"
proof -
  have sums: "(w :: u64) + 4 + 20 = w + 24" "w + 24 + 112 = w + 136" for w by simp_all
  have lt: "unat (w :: u32) + 136 < 8589934592" for w using unat_lt32 [of w] by linarith
  show ?thesis
    unfolding pe_validate_def Let_def sums
    using pe_buffer_lt [OF assms]
    by (intro returns_intros returns_structs returns_read_word(2))
      (simp_all only: word_less_nat_alt pe_offsets unat_ucast_32_64, auto simp: pe_info_ok_def pe_offsets lt)
qed

lemma read_data_dir_returns:
  assumes b: "pe_buffer data n" and info: "pe_info_ok n info" and "i < 16"
  shows "returns (read_data_dir data n info i) (\<lambda>_. True)"
proof -
  have "unat (of_nat i * 8 :: u64) = i * 8"
    using assms(3) by (simp add: unat_word_ariths unat_of_nat)
  moreover have "unat (pi_data_dir_offset info) < 8589934592" using info by (simp add: pe_info_ok_def)
  ultimately have off: "unat (pi_data_dir_offset info + of_nat i * 8) = unat (pi_data_dir_offset info) + i * 8"
    "unat (pi_data_dir_offset info + of_nat i * 8 + 8) = unat (pi_data_dir_offset info) + i * 8 + 8"
    using assms(3) by (simp_all add: unat_add_le)
  show ?thesis
    unfolding read_data_dir_def Let_def
    by (intro returns_intros returns_True [OF returns_read_bytes] TrueI)
      (use pe_buffer_lt [OF b] in \<open>simp add: word_less_nat_alt off\<close>)
qed

text \<open>The loop over the sections: what every round keeps holds at the end.\<close>

lemma section_for_returns:
  assumes b: "pe_buffer data n" and info: "pe_info_ok n info"
    and "\<forall>i\<in>set is. i < unat (pi_number_of_sections info)"
    and step: "\<And>sec s. J s \<Longrightarrow> returns (f sec s) (\<lambda>r. case r of Inl s' \<Rightarrow> J s' | Inr x \<Rightarrow> Q x)"
    and "J s"
  shows "returns (section_for data n info f is s) (\<lambda>r. case r of Inl s' \<Rightarrow> J s' | Inr x \<Rightarrow> Q x)"
  using assms(3,5)
proof (induction "is" arbitrary: s)
  case Nil
  then show ?case by (simp add: returns_def)
next
  case (Cons i "is")
  have "i < unat (pi_number_of_sections info)" using Cons.prems by simp
  moreover have lt: "unat (pi_number_of_sections info) < 65536" using unsigned_less [of "pi_number_of_sections info"] by simp
  ultimately have i: "i * 40 + 40 \<le> unat (pi_number_of_sections info) * 40" "i < 65536" by linarith+
  have so: "unat (of_nat i * 40 :: u64) = i * 40"
    using i(2) by (simp add: unat_word_ariths unat_of_nat)
  have off: "unat (pi_section_headers_offset info) + i * 40 + 40 \<le> unat n"
    using info i(1) by (simp add: pe_info_ok_def)
  show ?case
    unfolding section_for.simps Let_def
  proof (intro returns_intros returns_structs)
    show "unat (pi_section_headers_offset info) + unat (of_nat i * 40 :: u64) + 40 \<le> length data"
      using off pe_buffer_lt [OF b] by (simp add: so)
    show "returns (f sec s) (\<lambda>_. True)" for sec
      using Cons.prems by (intro returns_True [OF step]) simp
  next
    fix sec r s'
    assume "f sec s = Some r" "r = Inl s'"
    then have "J s'" using returnsD [OF step] Cons.prems by fastforce
    then show "returns (section_for data n info f is s') (\<lambda>r. case r of Inl s' \<Rightarrow> J s' | Inr x \<Rightarrow> Q x)"
      using Cons by simp
  next
    fix sec r x
    assume "f sec s = Some r" "r = Inr x"
    then show "case (Inr x) of Inl s' \<Rightarrow> J s' | Inr x \<Rightarrow> Q x"
      using returnsD [OF step] Cons.prems by fastforce
  qed (use Cons.prems in simp)
qed

lemma section_indices_lt: "\<forall>i\<in>set (section_indices info). i < unat (pi_number_of_sections info)"
  by (simp add: section_indices_def)

lemma rva_returns:
  assumes "pe_buffer data n" "pe_info_ok n info"
  shows "returns (rva_to_file_offset data n info rva)
    (\<lambda>off. \<forall>a. off = Some a \<longrightarrow> unat a < 0x4000000000000000)"
proof -
  have "unat a < 0x4000000000000000" if "rva_in_section n rva sec = Inr (Some a)" for sec a
    using that pe_buffer_lt [OF assms(1)] by (auto simp: rva_in_section_def Let_def word_less_nat_alt split: if_splits)
  then have "returns (Some (rva_in_section n rva sec))
      (\<lambda>r. case r of Inl s' \<Rightarrow> True | Inr x \<Rightarrow> \<forall>a. x = Some a \<longrightarrow> unat a < 0x4000000000000000)" for sec
    by (auto simp: returns_def split: sum.splits)
  note loop = section_for_returns [OF assms section_indices_lt, where J = "\<lambda>_ :: unit. True"
      and Q = "\<lambda>x. \<forall>a. x = Some a \<longrightarrow> unat a < 0x4000000000000000", OF this TrueI]
  have "returns (section_for data n info (\<lambda>sec _. Some (rva_in_section n rva sec)) (section_indices info) ())
      (\<lambda>r. case r of Inl s' \<Rightarrow> True | Inr x \<Rightarrow> \<forall>a. x = Some a \<longrightarrow> unat a < 0x4000000000000000)" by (rule loop)
  then show ?thesis
    unfolding rva_to_file_offset_def
    by (intro returns_if returns_Some returns_map_option)
      (auto intro!: less_trans [OF unat_lt32] elim!: returns_mono split: sum.splits)
qed

lemma import_name_len_returns:
  assumes b: "pe_buffer data n" and off: "unat off < 0x4000000000000000"
    and "unat len \<le> unat n" "len = 0 \<or> unat off + unat len \<le> unat n"
    and "case limit of None \<Rightarrow> True | Some l \<Rightarrow> len \<le> l"
  shows "returns (import_name_len data n off limit len)
    (\<lambda>r. (r = 0 \<or> unat off + unat r \<le> unat n) \<and> (case limit of None \<Rightarrow> True | Some l \<Rightarrow> r \<le> l))"
  using assms(3-)
proof (induction "unat n - unat len" arbitrary: len rule: less_induct)
  case less
  note n = pe_buffer_lt [OF b]
  have sum: "unat (off + len) = unat off + unat len"
    using off n less.prems(1) by (intro unat_add_le) simp
  show ?case
  proof (cases "off + len < n")
    case False
    then show ?thesis using less.prems by (subst import_name_len.simps) (simp add: returns_def)
  next
    case True
    then have lt: "unat off + unat len < unat n" by (simp add: word_less_nat_alt sum)
    have suc: "unat (len + 1) = unat len + 1" using lt n by (subst unat_add_le) simp_all
    have rd: "read_u8 data (unat off + unat len) = Some (data ! (unat off + unat len))"
      using lt n by (simp add: read_u8_def)
    show ?thesis
    proof (cases "data ! (unat off + unat len) \<noteq> 0 \<and> (case limit of None \<Rightarrow> True | Some l \<Rightarrow> len < l)")
      case go: True
      have "returns (import_name_len data n off limit (len + 1))
        (\<lambda>r. (r = 0 \<or> unat off + unat r \<le> unat n) \<and> (case limit of None \<Rightarrow> True | Some l \<Rightarrow> r \<le> l))"
        using go lt suc by (intro less.hyps) (auto split: option.splits intro: inc_le)
      with go True rd show ?thesis by (subst import_name_len.simps) simp
    next
      case False
      with True rd less.prems show ?thesis by (subst import_name_len.simps) (auto simp: returns_def)
    qed
  qed
qed

lemma imports_push_wf:
  assumes "imports_wf r" "px_count r < MAX_PE_IMPORTS" "name \<noteq> []" "length name \<le> MAX_PE_IMPORT_NAME"
  shows "imports_wf (imports_push r name)"
proof -
  have "length (fold (\<lambda>j row. row[j := name ! j]) js row) = length row" for js and row :: "u8 list"
    by (induction js arbitrary: row) simp_all
  then show ?thesis
    using assms by (auto simp: imports_wf_def imports_push_def Let_def nth_list_update less_Suc_eq dest!: set_update_mem)
qed

lemma import_entry_returns:
  assumes b: "pe_buffer data n" and off: "\<forall>a. off = Some a \<longrightarrow> unat a < 0x4000000000000000"
    and r: "imports_wf r" "px_count r < MAX_PE_IMPORTS"
  shows "returns (import_entry data n off r) imports_wf"
proof (cases off)
  case None
  then show ?thesis using r by (simp add: returns_def import_entry_def)
next
  case (Some a)
  have len: "returns (import_name_len data n a (Some 32) 0) (\<lambda>l. (l = 0 \<or> unat a + unat l \<le> unat n) \<and> l \<le> 32)"
    using import_name_len_returns [OF b, of a 0 "Some 32"] off Some by simp
  show ?thesis
    unfolding import_entry_def Some option.case
  proof (rule returns_bind [OF len], intro returns_if returns_Some r(1))
    fix l :: u64
    assume "(l = 0 \<or> unat a + unat l \<le> unat n) \<and> l \<le> 32" "0 < l"
    then have "unat a + unat l \<le> length data" "0 < unat l" "unat l \<le> 32"
      using pe_buffer_lt [OF b] by (auto simp: word_le_nat_alt word_less_nat_alt)
    then show "returns (do { name \<leftarrow> read_bytes data (unat a) (unat l); Some (imports_push r name) }) imports_wf"
      by (intro returns_bind [OF returns_read_bytes] returns_Some imports_push_wf r) auto
  qed
qed

lemma imports_loop_returns:
  assumes b: "pe_buffer data n" and info: "pe_info_ok n info"
    and "unat pos < 0x4000000000000014" "imports_wf r"
  shows "returns (imports_loop data n info pos r) imports_wf"
  using assms(3-)
proof (induction "0x4000000000000014 - unat pos" arbitrary: pos r rule: less_induct)
  case less
  note n = pe_buffer_lt [OF b]
  have sum: "unat (pos + 20) = unat pos + 20" using less.prems by (subst unat_add_le) simp_all
  show ?case
  proof (cases "n < pos + 20")
    case True
    with less.prems show ?thesis by (subst imports_loop.simps) (simp add: returns_def)
  next
    case False
    then have pos: "unat pos + 20 \<le> unat n" by (simp add: word_less_nat_alt sum)
    have rest: "returns (imports_loop data n info (pos + 20) r') imports_wf" if "imports_wf r'" for r'
    proof (rule less.hyps [OF _ _ that])
      show "0x4000000000000014 - unat (pos + 20) < 0x4000000000000014 - unat pos" "unat (pos + 20) < 0x4000000000000014"
        unfolding sum using pos n by linarith+
    qed
    have "unat pos + 20 \<le> length data" using pos n by simp
    then show ?thesis
      by (subst imports_loop.simps, simp only: False if_False)
        (intro returns_bindT [OF returns_structs(5)] returns_if returns_Some less.prems(2)
          returns_bind [OF rva_returns [OF b info]] returns_bind [OF import_entry_returns [OF b]] rest, simp_all)
  qed
qed

lemma pe_get_imports_returns:
  assumes "pe_buffer data n" "pe_info_ok n info"
  shows "returns (pe_get_imports data n info) imports_wf"
proof -
  have new: "imports_wf PeImports_new" by (simp add: imports_wf_def PeImports_new_def)
  show ?thesis
    unfolding pe_get_imports_def
  proof (intro returns_intros read_data_dir_returns [OF assms] returns_True [OF rva_returns [OF assms]]
      imports_loop_returns [OF assms] new)
    fix d off a
    assume "rva_to_file_offset data n info (dd_virtual_address d) = Some off" "off = Some a"
    then show "unat a < 0x4000000000000014" using returnsD [OF rva_returns [OF assms]] by fastforce
  qed simp
qed

section \<open>Properties\<close>

text \<open>C16: Inspecting a file never reads outside it, whatever its bytes are: validation, page
  count, span, the translation of addresses and the list of imports all return,
  and the imports are at most 16 names of 1 to 32 bytes.
\<close>

theorem pe_inspection_safe:
  assumes "pe_buffer data n"
  shows "pe_is_pe data n \<noteq> None \<and> pe_count_load_pages arch data n \<noteq> None \<and>
    pe_compute_load_span arch data n \<noteq> None \<and>
    (\<exists>v. pe_validate arch data n = Some v \<and>
       (case v of
          Inl err \<Rightarrow> err \<noteq> PE_OK
        | Inr info \<Rightarrow>
            (\<forall>rva. rva_to_file_offset data n info rva \<noteq> None) \<and>
            (\<exists>r. pe_get_imports data n info = Some r \<and> px_count r \<le> 16 \<and>
               (\<forall>i<px_count r. 0 < px_name_lens r ! i \<and> px_name_lens r ! i \<le> 32))))"
proof -
  obtain v where v: "pe_validate arch data n = Some v" "\<forall>info. v = Inr info \<longrightarrow> pe_info_ok n info" "v \<noteq> Inl 0"
    using pe_validate_returns [OF assms, of arch] by (auto elim: returnsE)
  have "rva_to_file_offset data n info rva \<noteq> None" if "v = Inr info" for info rva
    using rva_returns [OF assms, of info rva] v(2) that by (auto dest: returns_not_None)
  moreover have "\<exists>r. pe_get_imports data n info = Some r \<and> imports_wf r" if "v = Inr info" for info
    using pe_get_imports_returns [OF assms, of info] v(2) that by (simp add: returns_def)
  moreover have "pe_is_pe data n \<noteq> None"
    using pe_buffer_lt [OF assms] by (auto simp: pe_is_pe_def read_u16_def read_bytes_def word_less_nat_alt)
  ultimately show ?thesis
    using v(1,3) by (cases v) (auto simp: pe_count_load_pages_def pe_compute_load_span_def imports_wf_def)
qed

theorem pe_inspection_safe_witness:
  "pe_buffer (replicate 70 0) 70 \<and> pe_validate X86_64 (replicate 70 0) 70 \<noteq> None"
proof -
  have b: "pe_buffer (replicate 70 0) 70" by (simp add: pe_buffer_def)
  show ?thesis using pe_inspection_safe [OF b, of X86_64] b by auto
qed

end
