(* ===== verification/Pe_Loader.thy ===== *)
theory Pe_Loader
  imports Pe_Image
begin

text \<open>
  The PE loader of \<^verbatim>\<open>loader/pe_loader.rs\<close>.  It works with the context of the ELF
  loader and through the same scratch mapping, so the model reuses the record
  \<open>loader\<close> and the definitions for frames and copies of \<open>Elf_Loader\<close>; a load
  through the scratch mapping is the parameter \<open>peek\<close>.  \<open>PePageEntry\<close> has the
  fields of \<open>ElfPageEntry\<close>.
\<close>

type_synonym PePageEntry = ElfPageEntry
type_synonym 'k peek = "u64 \<Rightarrow> 'k machine \<Rightarrow> u8"

section \<open>Pages\<close>

definition try_retype_frame :: "'k kernel \<Rightarrow> cap \<Rightarrow> 'k loader \<Rightarrow> int \<times> 'k loader" where
  "try_retype_frame K frame_slot s =
     (case untyped_retype K (ec_untyped (ld_ctx s)) OBJ_FRAME 0 frame_slot (ld_m s) of
        (err, m) \<Rightarrow> (err, s\<lparr>ld_m := m\<rparr>))"

text \<open>A page that is already mapped: its data is added and its permissions are merged.\<close>

definition map_pe_existing ::
  "'k kernel \<Rightarrow> 'k poke \<Rightarrow> mem \<Rightarrow> u64 \<Rightarrow> u64 \<Rightarrow> u64 \<times> u64 \<times> u64 \<Rightarrow> u64 \<Rightarrow> nat \<Rightarrow> 'k loader \<Rightarrow>
   ('k loader + int \<times> 'k loader) option" where
  "map_pe_existing K poke data data_len page_vaddr c flags idx s =
     (let ctx = ld_ctx s; p = ld_pages s ! idx
      in do {
        m1 \<leftarrow> (case c of (src_file_off, dst_page_off, copy_len) \<Rightarrow>
                if 0 < copy_len \<and> src_file_off + copy_len \<le> data_len
                then case map_scratch K ctx (pe_frame_cap p) (ld_m s) of
                       (err, m) \<Rightarrow>
                         if err = 0
                         then do { m' \<leftarrow> copy_file poke data data_len ctx c m; Some (unmap_scratch K ctx m') }
                         else Some m
                else Some (ld_m s));
        let merged = merge_flags (pe_flags p) flags
        in Some (if merged \<noteq> pe_flags p
                 then let m2 = snd (vspace_unmap K (ec_child_vspace ctx) page_vaddr m1)
                      in case vspace_map K (ec_child_vspace ctx) (pe_frame_cap p) page_vaddr merged m2 of
                           (err, m3) \<Rightarrow>
                             if err \<noteq> 0 then Inr (PE_MAP_FAILED, s\<lparr>ld_m := m3\<rparr>)
                             else Inl (s\<lparr>ld_m := m3, ld_pages := (ld_pages s)[idx := p\<lparr>pe_flags := merged\<rparr>]\<rparr>)
                 else Inl (s\<lparr>ld_m := m1\<rparr>)) })"

definition fill_pe_new ::
  "'k kernel \<Rightarrow> 'k poke \<Rightarrow> mem \<Rightarrow> u64 \<Rightarrow> u64 \<Rightarrow> u64 \<times> u64 \<times> u64 \<Rightarrow> u64 \<Rightarrow> cap \<Rightarrow> 'k loader \<Rightarrow>
   ('k loader + int \<times> 'k loader) option" where
  "fill_pe_new K poke data data_len page_vaddr c flags frame_slot s =
     (let ctx = ld_ctx s
      in case map_scratch K ctx frame_slot (ld_m s) of
           (err, m1) \<Rightarrow>
             if err \<noteq> 0 then Some (Inr (PE_MAP_FAILED, s\<lparr>ld_m := m1\<rparr>))
             else do {
               m2 \<leftarrow> copy_file poke data data_len ctx c
                       (pokes poke (ec_scratch_vaddr ctx) (replicate 4096 0) m1);
               let m3 = unmap_scratch K ctx m2
               in case vspace_map K (ec_child_vspace ctx) frame_slot page_vaddr flags m3 of
                    (err, m4) \<Rightarrow>
                      if err \<noteq> 0 then Some (Inr (PE_MAP_FAILED, s\<lparr>ld_m := m4\<rparr>))
                      else case record_page_map ctx page_vaddr frame_slot flags m4 of
                             (r, m5) \<Rightarrow>
                               let s' = s\<lparr>ld_m := m5,
                                          ld_pages := ld_pages s @
                                            [\<lparr>pe_vaddr = page_vaddr, pe_frame_cap = frame_slot, pe_flags = flags\<rparr>]\<rparr>
                               in Some (if r \<noteq> 0 then Inr (PE_OUT_OF_MEMORY, s') else Inl s') })"

definition map_pe_page_raw ::
  "'k kernel \<Rightarrow> 'k poke \<Rightarrow> mem \<Rightarrow> u64 \<Rightarrow> u64 \<Rightarrow> u64 \<times> u64 \<times> u64 \<Rightarrow> u64 \<Rightarrow> 'k loader \<Rightarrow>
   ('k loader + int \<times> 'k loader) option" where
  "map_pe_page_raw K poke data data_len page_vaddr c flags s =
     (case find_page page_vaddr (ld_pages s) of
        Some idx \<Rightarrow> map_pe_existing K poke data data_len page_vaddr c flags idx s
      | None \<Rightarrow>
          if MAX_PE_PAGES \<le> length (ld_pages s) then Some (Inr (PE_OUT_OF_MEMORY, s))
          else case next_frame_slot s of
                 (frame_slot, s1) \<Rightarrow>
                   if frame_slot = - 1 \<or> frame_slot = 0 then Some (Inr (PE_OUT_OF_MEMORY, s1))
                   else case (if ec_untyped (ld_ctx s1) \<noteq> 0 then try_retype_frame K frame_slot s1 else (0, s1)) of
                          (err, s2) \<Rightarrow>
                            if err \<noteq> 0 then Some (Inr (PE_OUT_OF_MEMORY, s2))
                            else fill_pe_new K poke data data_len page_vaddr c flags frame_slot s2)"

definition map_pe_page ::
  "'k kernel \<Rightarrow> 'k poke \<Rightarrow> mem \<Rightarrow> u64 \<Rightarrow> u64 \<Rightarrow> u64 \<Rightarrow> u64 \<Rightarrow> u64 \<Rightarrow> 'k loader \<Rightarrow>
   ('k loader + int \<times> 'k loader) option" where
  "map_pe_page K poke data data_len page_vaddr file_offset max_copy flags s =
     (let copy_len = (if file_offset < data_len
                      then let avail = data_len - file_offset;
                               clamped = (if avail < max_copy then avail else max_copy)
                           in if PE_PAGE_SIZE < clamped then PE_PAGE_SIZE else clamped
                      else 0)
      in map_pe_page_raw K poke data data_len page_vaddr (file_offset, 0, copy_len) flags s)"

section \<open>Headers and sections\<close>

partial_function (option) load_pe_headers ::
  "'k kernel \<Rightarrow> 'k poke \<Rightarrow> mem \<Rightarrow> u64 \<Rightarrow> u64 \<Rightarrow> u64 \<Rightarrow> u64 \<Rightarrow> 'k loader \<Rightarrow> ('k loader + int \<times> 'k loader) option"
where
  "load_pe_headers K poke data data_len load_base headers_end page_vaddr s =
     (if page_vaddr < load_base + headers_end
      then do { r \<leftarrow> map_pe_page K poke data data_len page_vaddr (page_vaddr - load_base) PE_PAGE_SIZE
                       VSPACE_FLAG_USER s;
                case r of
                  Inl s' \<Rightarrow> load_pe_headers K poke data data_len load_base headers_end (page_vaddr + PE_PAGE_SIZE) s'
                | Inr x \<Rightarrow> Some (Inr x) }
      else Some (Inl s))"

text \<open>What a page of a section takes from the file.\<close>

definition section_copy :: "u64 \<Rightarrow> SectionHeader \<Rightarrow> u64 \<Rightarrow> u64 \<times> u64 \<times> u64" where
  "section_copy load_base sec pv =
     (let sec_rva = ucast (sh_virtual_address sec);
          file_data_start = ucast (sh_pointer_to_raw_data sec);
          file_data_size = ucast (sh_size_of_raw_data sec);
          page_rva = pv - load_base;
          page_end_rva = page_rva + PE_PAGE_SIZE;
          file_copy_start_rva = (if sec_rva < page_rva then page_rva else sec_rva);
          file_data_end_rva = sec_rva + file_data_size;
          file_copy_end_rva = (if page_end_rva < file_data_end_rva then page_end_rva else file_data_end_rva)
      in if file_copy_start_rva < file_copy_end_rva
         then let rva_within_sec = file_copy_start_rva - sec_rva
              in (file_data_start + rva_within_sec, file_copy_start_rva - page_rva,
                  file_copy_end_rva - file_copy_start_rva)
         else (0, 0, 0))"

partial_function (option) load_section_pages ::
  "'k kernel \<Rightarrow> 'k poke \<Rightarrow> mem \<Rightarrow> u64 \<Rightarrow> u64 \<Rightarrow> SectionHeader \<Rightarrow> u64 \<Rightarrow> u64 \<Rightarrow> 'k loader \<Rightarrow>
   ('k loader + int \<times> 'k loader) option"
where
  "load_section_pages K poke data data_len load_base sec sec_page_end pv s =
     (if pv < sec_page_end
      then do { r \<leftarrow> map_pe_page_raw K poke data data_len pv (section_copy load_base sec pv)
                       (section_to_vspace_flags (sh_characteristics sec)) s;
                case r of
                  Inl s' \<Rightarrow> load_section_pages K poke data data_len load_base sec sec_page_end (pv + PE_PAGE_SIZE) s'
                | Inr x \<Rightarrow> Some (Inr x) }
      else Some (Inl s))"

definition load_section ::
  "'k kernel \<Rightarrow> 'k poke \<Rightarrow> mem \<Rightarrow> u64 \<Rightarrow> u64 \<Rightarrow> SectionHeader \<Rightarrow> 'k loader \<Rightarrow>
   ('k loader + int \<times> 'k loader) option" where
  "load_section K poke data data_len load_base sec s =
     (if sh_characteristics sec AND IMAGE_SCN_MEM_DISCARDABLE \<noteq> 0 then Some (Inl s)
      else let sec_vsize = (if 0 < sh_virtual_size sec then ucast (sh_virtual_size sec)
                            else ucast (sh_size_of_raw_data sec)) :: u64
           in if sec_vsize = 0 then Some (Inl s)
              else let sec_vaddr_start = load_base + ucast (sh_virtual_address sec);
                       sec_page_start = elf_page_align_down sec_vaddr_start;
                       sec_page_end = elf_page_align_up (sec_vaddr_start + sec_vsize)
                   in load_section_pages K poke data data_len load_base sec sec_page_end sec_page_start s)"

section \<open>Relocations\<close>

definition write_u64_to_page ::
  "'k kernel \<Rightarrow> 'k poke \<Rightarrow> 'k peek \<Rightarrow> 'k ElfLoaderCtx \<Rightarrow> cap \<Rightarrow> u64 \<Rightarrow> u64 \<Rightarrow> bool \<Rightarrow> 'k machine \<Rightarrow>
   int \<times> 'k machine" where
  "write_u64_to_page K poke peek ctx frame_cap page_offset val additive m =
     (case map_scratch K ctx frame_cap m of
        (err, m1) \<Rightarrow>
          if err \<noteq> 0 then (err, m1)
          else let ptr = ec_scratch_vaddr ctx + page_offset;
                   old = le_word (map (\<lambda>i. peek (ptr + of_nat i) m1) [0..<8]);
                   new = (if additive then old + val else val)
               in (0, unmap_scratch K ctx (pokes poke ptr (le_bytes 8 new) m1)))"

text \<open>The store into the page that holds \<open>vaddr\<close>; \<open>err\<close> is the error of the caller.\<close>

definition patch_page ::
  "'k kernel \<Rightarrow> 'k poke \<Rightarrow> 'k peek \<Rightarrow> 'k ElfLoaderCtx \<Rightarrow> PePageEntry list \<Rightarrow> u64 \<Rightarrow> u64 \<Rightarrow> bool \<Rightarrow> int \<Rightarrow>
   'k machine \<Rightarrow> int \<times> 'k machine" where
  "patch_page K poke peek ctx pages vaddr val additive fail m =
     (let page = elf_page_align_down vaddr; page_offset = vaddr - page
      in case find_page page pages of
           None \<Rightarrow> (fail, m)
         | Some i \<Rightarrow>
             (case write_u64_to_page K poke peek ctx (pe_frame_cap (pages ! i)) page_offset val additive m of
                (e, m') \<Rightarrow> (if e \<noteq> 0 then fail else 0, m')))"

fun reloc_entries ::
  "'k kernel \<Rightarrow> 'k poke \<Rightarrow> 'k peek \<Rightarrow> mem \<Rightarrow> u64 \<Rightarrow> u64 \<Rightarrow> PePageEntry list \<Rightarrow> 'k ElfLoaderCtx \<Rightarrow>
   nat \<Rightarrow> u64 \<Rightarrow> nat list \<Rightarrow> 'k machine \<Rightarrow> (int \<times> 'k machine) option"
where
  "reloc_entries K poke peek data delta load_base pages ctx entries block_page_rva [] m = Some (0, m)"
| "reloc_entries K poke peek data delta load_base pages ctx entries block_page_rva (i # is) m =
     do {
       entry \<leftarrow> read_u16 data (entries + 2 * i);
       let reloc_type = drop_bit 12 entry; offset = ucast (entry AND 0x0FFF)
       in if reloc_type = IMAGE_REL_BASED_DIR64
          then case patch_page K poke peek ctx pages (load_base + (block_page_rva + offset)) delta True
                      PE_RELOC_FAILED m of
                 (err, m') \<Rightarrow>
                   if err \<noteq> 0 then Some (err, m')
                   else reloc_entries K poke peek data delta load_base pages ctx entries block_page_rva is m'
          else reloc_entries K poke peek data delta load_base pages ctx entries block_page_rva is m }"

partial_function (option) reloc_blocks ::
  "'k kernel \<Rightarrow> 'k poke \<Rightarrow> 'k peek \<Rightarrow> mem \<Rightarrow> u64 \<Rightarrow> u64 \<Rightarrow> PePageEntry list \<Rightarrow> 'k ElfLoaderCtx \<Rightarrow>
   u64 \<Rightarrow> u64 \<Rightarrow> 'k machine \<Rightarrow> (int \<times> 'k machine) option"
where
  "reloc_blocks K poke peek data delta load_base pages ctx reloc_end pos m =
     (if pos + 8 \<le> reloc_end
      then do {
        block \<leftarrow> read_block data (unat pos);
        if br_size_of_block block = 0 then Some (PE_OK, m)
        else if br_size_of_block block < 8 then Some (PE_RELOC_FAILED, m)
        else do {
          r \<leftarrow> reloc_entries K poke peek data delta load_base pages ctx (unat pos + 8)
                  (ucast (br_virtual_address block)) [0..<(unat (br_size_of_block block) - 8) div 2] m;
          case r of (err, m') \<Rightarrow>
            if err \<noteq> 0 then Some (err, m')
            else reloc_blocks K poke peek data delta load_base pages ctx reloc_end
                   ((pos + ucast (br_size_of_block block) + 3) AND NOT 3) m' } }
      else Some (PE_OK, m))"

definition pe_relocate ::
  "'k kernel \<Rightarrow> 'k poke \<Rightarrow> 'k peek \<Rightarrow> mem \<Rightarrow> u64 \<Rightarrow> PeInfo \<Rightarrow> u64 \<Rightarrow> u64 \<Rightarrow> PePageEntry list \<Rightarrow>
   'k ElfLoaderCtx \<Rightarrow> 'k machine \<Rightarrow> (int \<times> 'k machine) option" where
  "pe_relocate K poke peek data data_len info delta load_base pages ctx m =
     do {
       reloc_dir \<leftarrow> read_data_dir data data_len info IMAGE_DIRECTORY_ENTRY_BASERELOC;
       if dd_virtual_address reloc_dir = 0 \<or> dd_size reloc_dir = 0 then Some (PE_OK, m)
       else do {
         off \<leftarrow> rva_to_file_offset data data_len info (dd_virtual_address reloc_dir);
         case off of
           None \<Rightarrow> Some (PE_RELOC_FAILED, m)
         | Some reloc_file_off \<Rightarrow>
             let reloc_end = reloc_file_off + ucast (dd_size reloc_dir)
             in if data_len < reloc_end then Some (PE_RELOC_FAILED, m)
                else reloc_blocks K poke peek data delta load_base pages ctx reloc_end reloc_file_off m } }"

section \<open>Loading\<close>

definition pe_load ::
  "'k kernel \<Rightarrow> 'k poke \<Rightarrow> 'k peek \<Rightarrow> target_arch \<Rightarrow> mem \<Rightarrow> u64 \<Rightarrow> u64 \<Rightarrow> 'k ElfLoaderCtx \<Rightarrow> cap \<Rightarrow> 'k machine \<Rightarrow>
   (int \<times> PeLoadResult option \<times> 'k loader) option" where
  "pe_load K poke peek arch data data_len load_base ctx hint m =
     (let s0 = \<lparr>ld_ctx = ctx, ld_hint = hint, ld_m = m, ld_pages = [], ld_brk = 0\<rparr>
      in do {
        v \<leftarrow> pe_validate arch data data_len;
        case v of
          Inl err \<Rightarrow> Some (err, None, s0)
        | Inr info \<Rightarrow>
            if MAX_PE_SECTIONS < unat (pi_number_of_sections info) then Some (PE_NO_SECTIONS, None, s0)
            else let delta = load_base - pi_image_base info;
                     image_end = load_base + elf_page_align_up (ucast (pi_size_of_image info));
                     headers_end = elf_page_align_up (ucast (pi_size_of_headers info))
            in do {
              h \<leftarrow> load_pe_headers K poke data data_len load_base headers_end load_base s0;
              case h of
                Inr (err, s) \<Rightarrow> Some (err, None, s)
              | Inl s1 \<Rightarrow> do {
                  r \<leftarrow> section_for data data_len info (load_section K poke data data_len load_base)
                         (section_indices info) s1;
                  case r of
                    Inr (err, s) \<Rightarrow> Some (err, None, s)
                  | Inl s2 \<Rightarrow> do {
                      q \<leftarrow> (if delta \<noteq> 0
                             then pe_relocate K poke peek data data_len info delta load_base (ld_pages s2)
                                    (ld_ctx s2) (ld_m s2)
                             else Some (0, ld_m s2));
                      case q of (err, m') \<Rightarrow>
                        let s3 = s2\<lparr>ld_m := m'\<rparr>
                        in if err \<noteq> 0 then Some (err, None, s3)
                           else Some (PE_OK, Some \<lparr>pr_entry = load_base + ucast (pi_entry_point_rva info),
                                                   pr_base = load_base, pr_image_end = image_end\<rparr>, s3) } } } })"

section \<open>Imports\<close>

text \<open>
  The callback: addresses and lengths of the names of the library and of the
  function, \<^const>\<open>None\<close> for the null pointer, and the ordinal.
\<close>

type_synonym 'k resolver = "u64 \<times> u64 \<Rightarrow> u64 option \<times> u64 \<Rightarrow> u16 \<Rightarrow> 'k machine \<Rightarrow> u64 \<times> 'k machine"

definition import_symbol :: "mem \<Rightarrow> u64 \<Rightarrow> PeInfo \<Rightarrow> u64 \<Rightarrow> (u64 option \<times> u64 \<times> u16) option" where
  "import_symbol data data_len info ilt_entry =
     (if bit ilt_entry 63 then Some (None, 0, ucast (ilt_entry AND 0xFFFF))
      else do {
        h \<leftarrow> rva_to_file_offset data data_len info (ucast (ilt_entry AND 0x7FFFFFFF));
        case h of
          None \<Rightarrow> Some (None, 0, 0)
        | Some hint_off \<Rightarrow>
            let name_start = hint_off + 2
            in if name_start < data_len
               then do { fnl \<leftarrow> import_name_len data data_len name_start None 0;
                         Some (Some name_start, fnl, 0) }
               else Some (None, 0, 0) })"

text \<open>The table that says what to import, which older linkers leave out.\<close>

definition ilt_rva :: "ImportDescriptor \<Rightarrow> u32" where
  "ilt_rva desc = (if im_original_first_thunk desc \<noteq> 0 then im_original_first_thunk desc else im_first_thunk desc)"

partial_function (option) resolve_entries ::
  "'k kernel \<Rightarrow> 'k poke \<Rightarrow> 'k peek \<Rightarrow> 'k resolver \<Rightarrow> mem \<Rightarrow> u64 \<Rightarrow> PeInfo \<Rightarrow> u64 \<Rightarrow> PePageEntry list \<Rightarrow>
   'k ElfLoaderCtx \<Rightarrow> u64 \<times> u64 \<Rightarrow> u64 \<Rightarrow> u32 \<Rightarrow> u64 \<Rightarrow> 'k machine \<Rightarrow> (int \<times> 'k machine) option"
where
  "resolve_entries K poke peek resolve data data_len info load_base pages ctx dll ilt_file_off iat_rva entry_idx m =
     (let ilt_entry_off = ilt_file_off + entry_idx * 8
      in if data_len < ilt_entry_off + 8 then Some (0, m)
         else do {
           ilt_entry \<leftarrow> read_u64 data (unat ilt_entry_off);
           if ilt_entry = 0 then Some (0, m)
           else do {
             sym \<leftarrow> import_symbol data data_len info ilt_entry;
             case sym of (func, func_len, ordinal) \<Rightarrow>
             case resolve dll (func, func_len) ordinal m of (resolved_addr, m1) \<Rightarrow>
             case patch_page K poke peek ctx pages (load_base + (ucast iat_rva + entry_idx * 8)) resolved_addr
                    False PE_BAD_IMPORT m1 of
               (err, m2) \<Rightarrow>
                 if err \<noteq> 0 then Some (err, m2)
                 else resolve_entries K poke peek resolve data data_len info load_base pages ctx dll
                        ilt_file_off iat_rva (entry_idx + 1) m2 } })"

text \<open>One descriptor; one whose names or tables are nowhere in the file is passed over.\<close>

definition resolve_descriptor ::
  "'k kernel \<Rightarrow> 'k poke \<Rightarrow> 'k peek \<Rightarrow> 'k resolver \<Rightarrow> mem \<Rightarrow> u64 \<Rightarrow> PeInfo \<Rightarrow> u64 \<Rightarrow> PePageEntry list \<Rightarrow>
   'k ElfLoaderCtx \<Rightarrow> ImportDescriptor \<Rightarrow> 'k machine \<Rightarrow> (int \<times> 'k machine) option" where
  "resolve_descriptor K poke peek resolve data data_len info load_base pages ctx desc m =
     do {
       name \<leftarrow> rva_to_file_offset data data_len info (im_name_rva desc);
       case name of
         None \<Rightarrow> Some (0, m)
       | Some name_off \<Rightarrow> do {
           dll_name_len \<leftarrow> import_name_len data data_len name_off None 0;
           ilt \<leftarrow> rva_to_file_offset data data_len info (ilt_rva desc);
           case ilt of
             None \<Rightarrow> Some (0, m)
           | Some ilt_file_off \<Rightarrow>
               resolve_entries K poke peek resolve data data_len info load_base pages ctx
                 (name_off, dll_name_len) ilt_file_off (im_first_thunk desc) 0 m } }"

partial_function (option) resolve_loop ::
  "'k kernel \<Rightarrow> 'k poke \<Rightarrow> 'k peek \<Rightarrow> 'k resolver \<Rightarrow> mem \<Rightarrow> u64 \<Rightarrow> PeInfo \<Rightarrow> u64 \<Rightarrow> PePageEntry list \<Rightarrow>
   'k ElfLoaderCtx \<Rightarrow> u64 \<Rightarrow> 'k machine \<Rightarrow> (int \<times> 'k machine) option"
where
  "resolve_loop K poke peek resolve data data_len info load_base pages ctx pos m =
     (if data_len < pos + 20 then Some (PE_OK, m)
      else do {
        desc \<leftarrow> read_import data (unat pos);
        if is_null desc then Some (PE_OK, m)
        else do {
          r \<leftarrow> resolve_descriptor K poke peek resolve data data_len info load_base pages ctx desc m;
          case r of (err, m') \<Rightarrow>
            if err \<noteq> 0 then Some (err, m')
            else resolve_loop K poke peek resolve data data_len info load_base pages ctx (pos + 20) m' } })"

definition pe_resolve_imports ::
  "'k kernel \<Rightarrow> 'k poke \<Rightarrow> 'k peek \<Rightarrow> 'k resolver \<Rightarrow> mem \<Rightarrow> u64 \<Rightarrow> PeInfo \<Rightarrow> u64 \<Rightarrow> PePageEntry list \<Rightarrow>
   'k ElfLoaderCtx \<Rightarrow> 'k machine \<Rightarrow> (int \<times> 'k machine) option" where
  "pe_resolve_imports K poke peek resolve data data_len info load_base pages ctx m =
     do {
       import_dir \<leftarrow> read_data_dir data data_len info IMAGE_DIRECTORY_ENTRY_IMPORT;
       if dd_virtual_address import_dir = 0 \<or> dd_size import_dir = 0 then Some (PE_OK, m)
       else do {
         off \<leftarrow> rva_to_file_offset data data_len info (dd_virtual_address import_dir);
         case off of
           None \<Rightarrow> Some (PE_BAD_IMPORT, m)
         | Some import_file_off \<Rightarrow>
             resolve_loop K poke peek resolve data data_len info load_base pages ctx import_file_off m } }"

text \<open>A copy that stays inside a page and whose source does not wrap around.\<close>

definition copy_fits :: "u64 \<times> u64 \<times> u64 \<Rightarrow> bool" where
  "copy_fits c \<longleftrightarrow> (case c of (src, dst, len) \<Rightarrow>
     unat dst + unat len \<le> 4096 \<and> unat (src + len) = unat src + unat len)"

text \<open>The positions at which the relocation loop looks for a block.\<close>

inductive reloc_at :: "mem \<Rightarrow> u64 \<Rightarrow> u64 \<Rightarrow> u64 \<Rightarrow> bool" for data start reloc_end where
  reloc_start: "reloc_at data start reloc_end start"
| reloc_next: "reloc_at data start reloc_end pos \<Longrightarrow> pos + 8 \<le> reloc_end \<Longrightarrow>
    read_block data (unat pos) = Some block \<Longrightarrow> 8 \<le> br_size_of_block block \<Longrightarrow>
    reloc_at data start reloc_end ((pos + ucast (br_size_of_block block) + 3) AND NOT 3)"

text \<open>Relocation blocks that end inside the file.\<close>

definition relocs_inside :: "mem \<Rightarrow> u64 \<Rightarrow> PeInfo \<Rightarrow> bool" where
  "relocs_inside data n info \<longleftrightarrow>
     (\<forall>dir start pos block. read_data_dir data n info IMAGE_DIRECTORY_ENTRY_BASERELOC = Some dir \<and>
        rva_to_file_offset data n info (dd_virtual_address dir) = Some (Some start) \<and>
        reloc_at data start (start + ucast (dd_size dir)) pos \<and> read_block data (unat pos) = Some block \<longrightarrow>
        unat pos + unat (br_size_of_block block) \<le> unat n)"

text \<open>An image whose relocation block claims 4096 bytes at the end of the file.\<close>

definition bad_relocs :: mem where
  "bad_relocs =
     [0x4D, 0x5A] @ replicate 58 0 @
     [0x40, 0x00, 0x00, 0x00, 0x50, 0x45, 0x00, 0x00, 0x64, 0x86, 0x01] @ replicate 13 0 @
     [0xA0, 0x00, 0x22, 0x00, 0x0B, 0x02] @ replicate 24 0 @ [0x01] @ replicate 6 0 @
     [0x10, 0x00, 0x00, 0x00, 0x02] @ replicate 19 0 @ [0x20, 0x00, 0x00, 0x00, 0x10] @ replicate 46 0 @
     [0x06] @ replicate 43 0 @
     [0x20, 0x01, 0x00, 0x00, 0x08, 0x00, 0x00, 0x00, 0x2E, 0x72, 0x65, 0x6C, 0x6F, 0x63] @
     replicate 33 0 @ [0x42, 0x00, 0x00, 0x00, 0x00, 0x00, 0x10, 0x00, 0x00]"

definition bad_info :: PeInfo where
  "bad_info =
     \<lparr>pi_coff_offset = 68, pi_machine = 0x8664, pi_number_of_sections = 1, pi_size_of_optional_header = 160,
      pi_characteristics = 0x22, pi_entry_point_rva = 0, pi_image_base = 0x10000, pi_section_alignment = 4096,
      pi_file_alignment = 512, pi_size_of_image = 0x2000, pi_size_of_headers = 0x1000,
      pi_number_of_rva_and_sizes = 6, pi_section_headers_offset = 248, pi_data_dir_offset = 200\<rparr>"

section \<open>Pages stay inside the permitted operations\<close>

lemma section_flags_child: "section_to_vspace_flags ch \<in> child_flags"
  by (simp add: section_to_vspace_flags_def child_flags_eq Let_def)

lemma copy_file_returns_closed:
  assumes b: "pe_buffer data n" and c: "copy_fits c" and P: "elf_closed K poke ctx P" "P m"
  shows "returns (copy_file poke data n ctx c m) P"
proof -
  obtain src dst len where eq: "c = (src, dst, len)" by (cases c)
  have fit: "unat dst + unat len \<le> 4096" "unat (src + len) = unat src + unat len"
    using c by (simp_all add: copy_fits_def eq)
  have "P (pokes poke (ec_scratch_vaddr ctx + dst) bs m)" if "length bs = unat len" for bs
    using pokes_closed [OF P, of "unat dst" bs] fit(1) that by simp
  then show ?thesis
    unfolding copy_file_def eq prod.case
    by (intro returns_if returns_bind [OF returns_read_bytes] returns_Some P(2))
      (use pe_buffer_lt [OF b] fit(2) in \<open>auto simp: word_le_nat_alt\<close>)
qed

lemma map_pe_existing_returns:
  assumes b: "pe_buffer data n" and c: "copy_fits c" and inv: "ld_inv K poke P s"
    and pv: "4096 dvd unat pv" and idx: "idx < length (ld_pages s)" and fl: "flags \<in> child_flags"
  shows "returns (map_pe_existing K poke data n pv c flags idx s) (\<lambda>r. ld_inv K poke P (res_state r))"
proof -
  let ?ctx = "ld_ctx s" and ?p = "ld_pages s ! idx"
  let ?fl = "merge_flags (pe_flags ?p) flags"
  have P: "elf_closed K poke ?ctx P" "P (ld_m s)" using inv by (simp_all add: ld_inv_def)
  have mf: "?fl \<in> child_flags" using inv idx fl by (intro merge_flags_child) (auto simp: ld_inv_def)
  have copy: "returns (case c of (src, dst, len) \<Rightarrow>
      if 0 < len \<and> src + len \<le> n
      then case map_scratch K ?ctx (pe_frame_cap ?p) (ld_m s) of
             (err, m) \<Rightarrow> if err = 0 then do { m' \<leftarrow> copy_file poke data n ?ctx c m; Some (unmap_scratch K ?ctx m') }
                         else Some m
      else Some (ld_m s)) P"
    by (intro returns_case_prod returns_if returns_Some P(2) returns_bind [OF copy_file_returns_closed [OF b c P(1)]])
      (auto intro: elf_closedD(1) [OF P] elf_closedD(2) [OF P(1)])
  have rest: "ld_inv K poke P (res_state
      (if ?fl \<noteq> pe_flags ?p
       then case vspace_map K (ec_child_vspace ?ctx) (pe_frame_cap ?p) pv ?fl
                   (snd (vspace_unmap K (ec_child_vspace ?ctx) pv m1)) of
              (err, m3) \<Rightarrow> if err \<noteq> 0 then Inr (PE_MAP_FAILED, s\<lparr>ld_m := m3\<rparr>)
                else Inl (s\<lparr>ld_m := m3, ld_pages := (ld_pages s)[idx := ?p\<lparr>pe_flags := ?fl\<rparr>]\<rparr>)
       else Inl (s\<lparr>ld_m := m1\<rparr>)))" if m1: "P m1" for m1
  proof -
    obtain e m3 where v: "vspace_map K (ec_child_vspace ?ctx) (pe_frame_cap ?p) pv ?fl
        (snd (vspace_unmap K (ec_child_vspace ?ctx) pv m1)) = (e, m3)" by fastforce
    have "P m3" by (rule elf_closedD(4) [OF P(1) elf_closedD(5) [OF P(1) m1] pv mf v])
    then show ?thesis using inv m1 mf by (auto simp: v ld_inv_def res_state_def dest: set_update_mem)
  qed
  show ?thesis
    unfolding map_pe_existing_def Let_def by (rule returns_bind [OF copy]) (intro returns_Some rest)
qed

lemma fill_pe_new_returns:
  assumes b: "pe_buffer data n" and c: "copy_fits c" and inv: "ld_inv K poke P s"
    and pv: "4096 dvd unat pv" and fl: "flags \<in> child_flags"
  shows "returns (fill_pe_new K poke data n pv c flags slot s) (\<lambda>r. ld_inv K poke P (res_state r))"
proof -
  let ?ctx = "ld_ctx s"
  have P: "elf_closed K poke ?ctx P" "P (ld_m s)" using inv by (simp_all add: ld_inv_def)
  have zero: "P m \<Longrightarrow> P (pokes poke (ec_scratch_vaddr ?ctx) (replicate 4096 0) m)" for m
    using pokes_closed [OF P(1), of m 0 "replicate 4096 0"] by simp
  have rec: "P m5" if "record_page_map ?ctx pv slot flags m4 = (x, m5)" "P m4" for x m4 m5
    using record_closed [OF P(1) that(2), of pv slot flags] that(1) by simp
  show ?thesis
    unfolding fill_pe_new_def Let_def
    by (intro returns_case_prod returns_if returns_bind [OF copy_file_returns_closed [OF b c P(1) zero]] returns_Some)
      (auto simp: ld_inv_def res_state_def P fl
        dest: elf_closedD(1) [OF P] elf_closedD(4) [OF P(1) elf_closedD(2) [OF P(1)] pv fl] rec
        intro: inv [unfolded ld_inv_def, THEN conjunct2, THEN conjunct2, rule_format])
qed

lemma res_state_simps [simp]: "res_state (Inl s) = s" "res_state (Inr (e, s)) = s"
  by (simp_all add: res_state_def)

lemma try_retype_frame_inv:
  assumes "ld_inv K poke P s"
  shows "ld_inv K poke P (snd (try_retype_frame K slot s))"
proof -
  obtain e m where r: "untyped_retype K (ec_untyped (ld_ctx s)) OBJ_FRAME 0 slot (ld_m s) = (e, m)" by fastforce
  have "elf_closed K poke (ld_ctx s) P" "P (ld_m s)" using assms by (simp_all add: ld_inv_def)
  from elf_closedD(6) [OF this r] have "P m" .
  with assms show ?thesis by (simp add: try_retype_frame_def r ld_inv_def)
qed

lemma map_pe_page_raw_returns:
  assumes b: "pe_buffer data n" and c: "copy_fits c" and inv: "ld_inv K poke P s"
    and pv: "4096 dvd unat pv" and fl: "flags \<in> child_flags"
  shows "returns (map_pe_page_raw K poke data n pv c flags s) (\<lambda>r. ld_inv K poke P (res_state r))"
proof (cases "find_page pv (ld_pages s)")
  case (Some idx)
  then show ?thesis
    using map_pe_existing_returns [OF b c inv pv _ fl, of idx] find_page_Some [OF Some]
    by (simp add: map_pe_page_raw_def)
next
  case None
  obtain slot s1 where s1: "next_frame_slot s = (slot, s1)" by fastforce
  have i1: "ld_inv K poke P s1" using next_frame_inv [OF inv] s1 by simp
  obtain e s2 where s2: "(if ec_untyped (ld_ctx s1) \<noteq> 0 then try_retype_frame K slot s1 else (0, s1)) = (e, s2)"
    by fastforce
  have i2: "ld_inv K poke P s2" using try_retype_frame_inv [OF i1, of slot] i1 s2 by (auto split: if_splits)
  show ?thesis
    unfolding map_pe_page_raw_def None option.case s1 prod.case s2
    by (intro returns_if returns_Some fill_pe_new_returns [OF b c i2 pv fl]) (simp_all add: inv i1 i2)
qed

lemma section_copy_fits: "copy_fits (section_copy base sec pv)"
proof -
  define va where "va = (ucast (sh_virtual_address sec) :: u64)"
  define start where "start = (ucast (sh_pointer_to_raw_data sec) :: u64)"
  define sz where "sz = (ucast (sh_size_of_raw_data sec) :: u64)"
  have lt: "unat va < 4294967296" "unat start < 4294967296" "unat sz < 4294967296"
    by (simp_all add: va_def start_def sz_def)
  define r where "r = pv - base"
  define cs where "cs = (if va < r then r else va)"
  define ce where "ce = (if r + 4096 < va + sz then r + 4096 else va + sz)"
  have eq: "section_copy base sec pv = (if cs < ce then (start + (cs - va), cs - r, ce - cs) else (0, 0, 0))"
    by (simp add: section_copy_def Let_def va_def start_def sz_def r_def cs_def ce_def)
  show ?thesis
  proof (cases "cs < ce")
    case False
    then show ?thesis by (simp add: eq copy_fits_def)
  next
    case True
    have le: "r \<le> cs" "va \<le> cs" "ce \<le> r + 4096" "ce \<le> va + sz" by (auto simp: cs_def ce_def not_less)
    have vs: "unat (va + sz) = unat va + unat sz" using lt by (simp add: unat_add_le)
    have "r \<le> r + 4096" using le(1,3) True by (meson le_less_trans less_imp_le less_le_trans)
    then have r: "unat (r + 4096) = unat r + 4096" by (simp add: word_le_add_iff unat_add_le)
    have "unat (cs - r) = unat cs - unat r" "unat (ce - cs) = unat ce - unat cs" "unat (cs - va) = unat cs - unat va"
      using le True by (simp_all add: unat_sub_le less_imp_le)
    moreover have "unat r \<le> unat cs" "unat va \<le> unat cs" "unat ce \<le> unat r + 4096" "unat ce \<le> unat va + unat sz"
      "unat cs < unat ce"
      using le True by (simp_all add: word_le_nat_alt word_less_nat_alt r vs)
    moreover from calculation have "unat (start + (cs - va)) = unat start + (unat cs - unat va)"
      using lt by (subst unat_add_le) simp_all
    moreover from calculation have
      "unat (start + (cs - va) + (ce - cs)) = unat (start + (cs - va)) + unat (ce - cs)"
      using lt by (intro unat_add_le) simp
    ultimately show ?thesis
      using True unfolding eq copy_fits_def by (simp only: if_True prod.case) simp
  qed
qed

lemma load_pe_headers_returns:
  assumes b: "pe_buffer data n" and "4096 dvd unat base" "4096 dvd unat (base + he)"
    and "ld_inv K poke P s" "4096 dvd unat pv"
  shows "returns (load_pe_headers K poke data n base he pv s) (\<lambda>r. ld_inv K poke P (res_state r))"
  using assms(4,5)
proof (induction "unat (base + he) - unat pv" arbitrary: pv s rule: less_induct)
  case less
  show ?case
  proof (cases "pv < base + he")
    case False
    with less.prems show ?thesis by (subst load_pe_headers.simps) (simp add: returns_def)
  next
    case True
    note st = page_step [OF less.prems(2) assms(3) True]
    have page: "returns (map_pe_page K poke data n pv (pv - base) 4096 VSPACE_FLAG_USER s)
        (\<lambda>r. ld_inv K poke P (res_state r))"
      unfolding map_pe_page_def Let_def
    proof (rule map_pe_page_raw_returns [OF b _ less.prems])
      show "copy_fits (pv - base, 0, if pv - base < n
          then if 4096 < (if n - (pv - base) < 4096 then n - (pv - base) else 4096) then 4096
               else if n - (pv - base) < 4096 then n - (pv - base) else 4096
          else 0)"
        using pe_buffer_lt [OF b]
        by (auto simp: copy_fits_def word_less_nat_alt unat_sub_le word_le_nat_alt unat_add_le)
    qed (simp add: child_flags_eq)
    have "unat (base + he) - unat (pv + 4096) < unat (base + he) - unat pv" using st(1,2) by simp
    note step = less.hyps [OF this _ st(3)]
    show ?thesis
      by (subst load_pe_headers.simps, simp only: True if_True, rule returns_bind [OF page])
        (auto intro!: returns_case_sum returns_Some step)
  qed
qed

lemma load_section_pages_returns:
  assumes b: "pe_buffer data n" and "4096 dvd unat se" and "ld_inv K poke P s" "4096 dvd unat pv"
  shows "returns (load_section_pages K poke data n base sec se pv s) (\<lambda>r. ld_inv K poke P (res_state r))"
  using assms(3,4)
proof (induction "unat se - unat pv" arbitrary: pv s rule: less_induct)
  case less
  show ?case
  proof (cases "pv < se")
    case False
    with less.prems show ?thesis by (subst load_section_pages.simps) (simp add: returns_def)
  next
    case True
    note st = page_step [OF less.prems(2) assms(2) True]
    have "unat se - unat (pv + 4096) < unat se - unat pv" using st(1,2) by simp
    note step = less.hyps [OF this _ st(3)]
    show ?thesis
      by (subst load_section_pages.simps, simp only: True if_True,
          rule returns_bind [OF map_pe_page_raw_returns [OF b section_copy_fits less.prems section_flags_child]])
        (auto intro!: returns_case_sum returns_Some step)
  qed
qed

lemma load_section_returns:
  assumes "pe_buffer data n" "ld_inv K poke P s"
  shows "returns (load_section K poke data n base sec s) (\<lambda>r. ld_inv K poke P (res_state r))"
  unfolding load_section_def Let_def
  by (intro returns_if returns_Some load_section_pages_returns assms)
    (simp_all add: assms page_aligned)

section \<open>Relocations\<close>

lemma patch_page_closed:
  assumes c: "elf_closed K poke ctx P" "P m"
    and r: "patch_page K poke peek ctx pages v val add fail m = (e, m')"
  shows "P m'"
proof (cases "find_page (elf_page_align_down v) pages")
  case None
  with r c(2) show ?thesis by (simp add: patch_page_def Let_def)
next
  case (Some i)
  let ?f = "pe_frame_cap (pages ! i)" and ?off = "v - elf_page_align_down v"
  obtain e1 m1 where ms: "map_scratch K ctx ?f m = (e1, m1)" by fastforce
  have m1: "P m1" by (rule elf_closedD(1) [OF c ms])
  have "P (pokes poke (ec_scratch_vaddr ctx + of_nat (unat ?off)) (le_bytes 8 (w :: u64)) m1)" for w
    by (rule pokes_closed [OF c(1) m1]) (use page_offset_lt [of v] in simp)
  then have "P (unmap_scratch K ctx (pokes poke (ec_scratch_vaddr ctx + ?off) (le_bytes 8 (w :: u64)) m1))" for w
    using elf_closedD(2) [OF c(1)] by simp
  with r m1 Some show ?thesis
    by (auto simp: patch_page_def write_u64_to_page_def ms Let_def split: if_splits prod.splits)
qed

lemma reloc_entries_closed:
  assumes c: "elf_closed K poke ctx P" "P m"
    and r: "reloc_entries K poke peek data delta base pages ctx en rva is m = Some (e, m')"
  shows "P m'"
  using c(2) r
proof (induction "is" arbitrary: m)
  case (Cons i "is")
  from Cons.prems(2) obtain y where y: "read_u16 data (en + 2 * i) = Some y" by (auto simp: bind_eq_Some_conv)
  obtain e1 m1 where p: "patch_page K poke peek ctx pages (base + (rva + ucast (y AND 0xFFF))) delta True
      PE_RELOC_FAILED m = (e1, m1)" by fastforce
  have m1: "P m1" by (rule patch_page_closed [OF c(1) Cons.prems(1) p])
  show ?case
    using Cons.prems Cons.IH [OF m1] Cons.IH [OF Cons.prems(1)] m1
    by (auto simp: Let_def y p split: if_splits)
qed simp

lemma reloc_blocks_closed:
  assumes c: "elf_closed K poke ctx P"
    and r: "reloc_blocks K poke peek data delta base pages ctx re pos m = Some r" and "P m"
  shows "P (snd r)"
proof -
  have "elf_closed K poke ctx P \<and> P m \<longrightarrow> P (snd r)"
  proof (rule reloc_blocks.raw_induct
      [where P = "\<lambda>K poke _ _ _ _ _ ctx _ _ m r. elf_closed K poke ctx P \<and> P m \<longrightarrow> P (snd r)", OF _ r])
    fix f K poke peek data delta base pages ctx re pos m r
    assume IH: "\<And>K poke peek data delta base pages ctx re pos m r.
        f K poke peek data delta base pages ctx re pos m = Some r \<Longrightarrow> elf_closed K poke ctx P \<and> P m \<longrightarrow> P (snd r)"
      and step: "(if pos + 8 \<le> re
        then do {
          block \<leftarrow> read_block data (unat pos);
          if br_size_of_block block = 0 then Some (PE_OK, m)
          else if br_size_of_block block < 8 then Some (PE_RELOC_FAILED, m)
          else do {
            r \<leftarrow> reloc_entries K poke peek data delta base pages ctx (unat pos + 8)
                    (ucast (br_virtual_address block)) [0..<(unat (br_size_of_block block) - 8) div 2] m;
            case r of (err, m') \<Rightarrow>
              if err \<noteq> 0 then Some (err, m')
              else f K poke peek data delta base pages ctx re
                     ((pos + ucast (br_size_of_block block) + 3) AND NOT 3) m' } }
        else Some (PE_OK, m)) = Some r"
    show "elf_closed K poke ctx P \<and> P m \<longrightarrow> P (snd r)"
    proof
      assume P: "elf_closed K poke ctx P \<and> P m"
      have en: "reloc_entries K poke peek data delta base pages ctx a v is m = Some (e, m') \<Longrightarrow> P m'" for a v "is" e m'
        using P reloc_entries_closed by blast
      have go: "f K poke peek data delta base pages ctx re p m' = Some r' \<Longrightarrow> P m' \<Longrightarrow> P (snd r')" for p m' r'
        using P IH by blast
      show "P (snd r)"
        using step P by (auto simp: bind_eq_Some_conv dest!: en intro: go split: if_splits)
    qed
  qed
  with c assms(3) show ?thesis by simp
qed

lemma pe_relocate_closed:
  assumes c: "elf_closed K poke ctx P" "P m"
    and r: "pe_relocate K poke peek data n info delta base pages ctx m = Some (e, m')"
  shows "P m'"
  using r c(2) reloc_blocks_closed [OF c(1) _ c(2)]
  by (fastforce simp: pe_relocate_def Let_def bind_eq_Some_conv split: if_splits option.splits)

text \<open>The loop returns when every block it meets ends inside the file.\<close>

lemma reloc_entries_returns:
  assumes "\<forall>i\<in>set is. en + 2 * i + 2 \<le> length data"
  shows "returns (reloc_entries K poke peek data delta base pages ctx en rva is m) (\<lambda>_. True)"
  using assms
proof (induction "is" arbitrary: m)
  case Nil
  show ?case by (simp add: returns_def)
next
  case (Cons i "is")
  then show ?case
    unfolding reloc_entries.simps Let_def
    by (intro returns_intros returns_read_word(1) Cons.IH) auto
qed

lemma unat_align4_le: "unat (x AND NOT 3 :: u64) \<le> unat x" "unat x < unat (x AND NOT 3) + 4"
proof -
  have "(NOT 3 :: u64) = NOT (mask 2)" by (simp add: mask_eq_decr_exp)
  then have "unat (x AND NOT 3) = unat x div 4 * 4" using unat_and_not_mask [of x 2] by simp
  then show "unat (x AND NOT 3 :: u64) \<le> unat x" "unat x < unat (x AND NOT 3) + 4"
    using div_mult_mod_eq [of "unat x" 4] mod_less_divisor [of 4 "unat x"] by linarith+
qed

lemma reloc_blocks_returns:
  assumes b: "pe_buffer data n" and re: "unat re \<le> unat n"
    and ok: "\<And>pos block. reloc_at data start re pos \<Longrightarrow> read_block data (unat pos) = Some block \<Longrightarrow>
      unat pos + unat (br_size_of_block block) \<le> unat n"
    and "reloc_at data start re pos" "unat pos < 0x4000000000000008"
  shows "returns (reloc_blocks K poke peek data delta base pages ctx re pos m) (\<lambda>_. True)"
  using assms(4,5)
proof (induction "0x4000000000000008 - unat pos" arbitrary: pos m rule: less_induct)
  case less
  note n = pe_buffer_lt [OF b]
  have sum: "unat (pos + 8) = unat pos + 8" using less.prems(2) by (subst unat_add_le) simp_all
  show ?case
  proof (cases "pos + 8 \<le> re")
    case False
    then show ?thesis by (subst reloc_blocks.simps) (simp add: returns_def)
  next
    case True
    then have pos: "unat pos + 8 \<le> unat n" using re by (simp add: word_le_nat_alt sum)
    then have rd: "returns (read_block data (unat pos)) (\<lambda>_. True)" using n by (intro returns_structs(6)) simp
    have body: "returns (do {
        r \<leftarrow> reloc_entries K poke peek data delta base pages ctx (unat pos + 8)
                (ucast (br_virtual_address block)) [0..<(unat (br_size_of_block block) - 8) div 2] m;
        case r of (err, m') \<Rightarrow>
          if err \<noteq> 0 then Some (err, m')
          else reloc_blocks K poke peek data delta base pages ctx re
                 ((pos + ucast (br_size_of_block block) + 3) AND NOT 3) m' }) (\<lambda>_. True)"
      if block: "read_block data (unat pos) = Some block" and size: "\<not> br_size_of_block block < 8" for block
    proof -
      define sz where "sz = unat (br_size_of_block block)"
      let ?next = "(pos + ucast (br_size_of_block block) + 3) AND NOT 3"
      have sz: "8 \<le> sz" "unat pos + sz \<le> unat n"
        using size ok [OF less.prems(1) block] by (simp_all add: sz_def word_less_nat_alt)
      have "unat (pos + ucast (br_size_of_block block) + 3) = unat pos + sz + 3"
        using sz n by (subst unat_add_le, simp_all add: unat_add_le sz_def [symmetric])
      then have nx: "unat ?next \<le> unat pos + sz + 3" "unat pos + sz < unat ?next + 1"
        using unat_align4_le [of "pos + ucast (br_size_of_block block) + 3"] by simp_all
      have at: "reloc_at data start re ?next"
        using less.prems(1) True block size by (intro reloc_next) (simp_all add: not_less)
      have rest: "returns (reloc_blocks K poke peek data delta base pages ctx re ?next m') (\<lambda>_. True)" for m'
      proof (rule less.hyps [OF _ at])
        show "0x4000000000000008 - unat ?next < 0x4000000000000008 - unat pos" "unat ?next < 0x4000000000000008"
          using nx sz n pos by linarith+
      qed
      have "unat pos + 8 + 2 * i + 2 \<le> length data" if "i < (sz - 8) div 2" for i
        using that sz n by linarith
      then show ?thesis
        by (intro returns_bindT reloc_entries_returns returns_case_prod returns_if returns_Some rest TrueI)
          (simp add: sz_def [symmetric])
    qed
    show ?thesis
      by (subst reloc_blocks.simps, simp only: True if_True)
        (intro returns_bindT [OF rd] returns_if returns_Some TrueI body, assumption)
  qed
qed

lemma pe_relocate_returns:
  assumes b: "pe_buffer data n" and info: "pe_info_ok n info" and ok: "relocs_inside data n info"
  shows "returns (pe_relocate K poke peek data n info delta base pages ctx m) (\<lambda>_. True)"
  unfolding pe_relocate_def Let_def
proof (intro returns_intros read_data_dir_returns [OF b info] returns_True [OF rva_returns [OF b info]] TrueI)
  fix dir off start
  assume dir: "read_data_dir data n info 5 = Some dir"
    and off: "rva_to_file_offset data n info (dd_virtual_address dir) = Some off" "off = Some start"
    and le: "\<not> n < start + ucast (dd_size dir)"
  have "unat start < 0x4000000000000000" using returnsD [OF rva_returns [OF b info] off(1)] off(2) by simp
  then show "returns (reloc_blocks K poke peek data delta base pages ctx (start + ucast (dd_size dir)) start m) (\<lambda>_. True)"
    using ok dir off le
    by (intro reloc_blocks_returns [OF b _ _ reloc_start])
      (auto simp: relocs_inside_def word_less_nat_alt)
qed simp

lemma dvd_page_sum: "4096 dvd unat (a :: u64) \<Longrightarrow> 4096 dvd unat b \<Longrightarrow> 4096 dvd unat (a + b)"
  by (simp add: unat_word_ariths dvd_mod)

lemma pe_sections_returns:
  assumes b: "pe_buffer data n" and info: "pe_info_ok n info" and "ld_inv K poke P s"
  shows "returns (section_for data n info (load_section K poke data n base) (section_indices info) s)
    (\<lambda>r. ld_inv K poke P (res_state r))"
proof -
  have "returns (load_section K poke data n base sec s)
      (\<lambda>r. case r of Inl s' \<Rightarrow> ld_inv K poke P s' | Inr x \<Rightarrow> ld_inv K poke P (snd x))" if "ld_inv K poke P s" for sec s
    using load_section_returns [OF b that, of base sec] by (rule returns_mono) (auto split: sum.split)
  from section_for_returns [OF b info section_indices_lt, where J = "ld_inv K poke P"
      and Q = "\<lambda>x. ld_inv K poke P (snd x)", OF this assms(3)]
  show ?thesis by (rule returns_mono) (auto split: sum.splits)
qed

text \<open>The whole load, for both properties.\<close>

lemma pe_load_phases:
  assumes b: "pe_buffer data n" and base: "4096 dvd unat base" and inv: "ld_inv K poke P s"
    and info: "pe_info_ok n info"
  shows "returns (load_pe_headers K poke data n base (elf_page_align_up (ucast (pi_size_of_headers info))) base s)
      (\<lambda>r. ld_inv K poke P (res_state r))"
proof -
  have "4096 dvd unat (base + elf_page_align_up (ucast (pi_size_of_headers info)))"
    using base by (intro dvd_page_sum) simp_all
  from load_pe_headers_returns [OF b base this inv base] show ?thesis .
qed

lemma pe_load_yields:
  assumes b: "pe_buffer data n" and base: "4096 dvd unat base" and closed: "elf_closed K poke ctx P" and "P m"
  shows "yields (pe_load K poke peek arch data n base ctx hint m) (\<lambda>(err, res, s). P (ld_m s))"
proof -
  let ?s0 = "\<lparr>ld_ctx = ctx, ld_hint = hint, ld_m = m, ld_pages = [], ld_brk = 0\<rparr>"
  have inv0: "ld_inv K poke P ?s0" using assms by (simp add: ld_inv_def)
  note ok = returnsD [OF pe_validate_returns [OF b, of arch], THEN conjunct2, rule_format, OF _ refl]
  have h: "ld_inv K poke P (res_state x)"
    if "load_pe_headers K poke data n base (elf_page_align_up (ucast (pi_size_of_headers info))) base ?s0 = Some x"
      "pe_validate arch data n = Some (Inr info)" for info x
    using returnsD [OF pe_load_phases [OF b base inv0 ok [OF that(2)]] that(1)] .
  have sec: "ld_inv K poke P (res_state x)"
    if "section_for data n info (load_section K poke data n base) (section_indices info) s1 = Some x"
      "pe_validate arch data n = Some (Inr info)" "ld_inv K poke P s1" for info s1 x
    using returnsD [OF pe_sections_returns [OF b ok [OF that(2)] that(3)] that(1)] .
  have rel: "P m'"
    if "(if d then pe_relocate K poke peek data n info dl base (ld_pages s2) (ld_ctx s2) (ld_m s2) else Some (0, ld_m s2))
       = Some (e, m')" "ld_inv K poke P s2" for d dl info s2 e m'
    using that pe_relocate_closed [of K poke "ld_ctx s2" P "ld_m s2"] by (auto simp: ld_inv_def split: if_splits)
  have fin: "P (ld_m s)" if "ld_inv K poke P s" for s using that by (simp add: ld_inv_def)
  show ?thesis
    unfolding pe_load_def Let_def
    by (intro yields_intros) (use \<open>P m\<close> in \<open>auto dest!: h, auto dest!: sec rel intro: fin\<close>)
qed

lemma pe_load_total:
  assumes b: "pe_buffer data n" and base: "4096 dvd unat base"
    and rel: "\<forall>info. pe_validate arch data n = Some (Inr info) \<longrightarrow> pi_image_base info = base \<or> relocs_inside data n info"
  shows "returns (pe_load K poke peek arch data n base ctx hint m) (\<lambda>_. True)"
proof -
  let ?s0 = "\<lparr>ld_ctx = ctx, ld_hint = hint, ld_m = m, ld_pages = [], ld_brk = 0\<rparr>"
  have any: "elf_closed K poke ctx (\<lambda>_. True)" by (simp add: elf_closed_def)
  have inv0: "ld_inv K poke (\<lambda>_. True) ?s0" using any by (simp add: ld_inv_def)
  note ok = returnsD [OF pe_validate_returns [OF b, of arch], THEN conjunct2, rule_format, OF _ refl]
  note sections = returns_True [OF pe_sections_returns [OF b ok]]
  show ?thesis
    unfolding pe_load_def Let_def
  proof (intro returns_intros returns_True [OF pe_validate_returns [OF b]]
      returns_True [OF pe_load_phases [OF b base inv0 ok]] sections TrueI, simp, simp)
    show "ld_inv K poke (\<lambda>_. True) s1"
      if "load_pe_headers K poke data n base (elf_page_align_up (ucast (pi_size_of_headers info))) base ?s0 = Some h"
        "pe_validate arch data n = Some v" "v = Inr info" "h = Inl s1" for info h s1 v
      using returnsD [OF pe_load_phases [OF b base inv0 ok] that(1)] that by simp
  next
    show "returns (pe_relocate K poke peek data n info (base - pi_image_base info) base pages ctx' m') (\<lambda>_. True)"
      if "pe_validate arch data n = Some v" "v = Inr info" "base - pi_image_base info \<noteq> 0" for v info pages ctx' m'
      using that rel ok by (intro pe_relocate_returns [OF b]) auto
  qed
qed

lemma reloc_entries_stuck:
  assumes "read_u16 data en = None" "0 < k"
  shows "reloc_entries K poke peek data delta base pages ctx en rva [0..<k] m = None"
  using assms by (simp add: upt_conv_Cons)

lemma bad_relocs_facts:
  "length bad_relocs = 296" "pe_validate X86_64 bad_relocs 296 = Some (Inr bad_info)"
  "read_data_dir bad_relocs 296 bad_info 5 = Some \<lparr>dd_virtual_address = 288, dd_size = 8\<rparr>"
  "read_block bad_relocs 288 = Some \<lparr>br_virtual_address = 0, br_size_of_block = 4096\<rparr>"
  by code_simp+

section \<open>Properties\<close>

text \<open>C14: Whatever the image contains, a load at a page-aligned base that returns has performed only the
  operations that the context permits: it maps frames at the scratch address, stores there, maps
  pages of the child at page addresses with user access and never both writable
  and executable, retypes frames and calls the callbacks.
\<close>

theorem pe_load_confined:
  assumes "pe_buffer data n" "4096 dvd unat base" "elf_closed K poke ctx P" "P m"
    and "pe_load K poke peek arch data n base ctx hint m = Some (err, res, s)"
  shows "P (ld_m s)"
  using yieldsD [OF pe_load_yields [OF assms(1-4)] assms(5)] by simp

theorem pe_load_confined_witness:
  "\<exists>err res s. pe_load vm_kernel vm_poke (\<lambda>_ _. 0) X86_64 bad_relocs 296 0x10000 vm_ctx 16 vm_start = Some (err, res, s) \<and>
     (\<forall>va f fl. vm_child (kern (ld_m s)) va = Some (f, fl) \<longrightarrow> fl \<noteq> 7)"
proof -
  let ?P = "\<lambda>m. \<forall>va f fl. vm_child (kern m) va = Some (f, fl) \<longrightarrow> fl \<noteq> 7"
  have c: "elf_closed vm_kernel vm_poke vm_ctx ?P" "?P vm_start"
    unfolding elf_closed_def
    by (auto simp: vm_laws vm_poke_at child_flags_eq vm_ctx_fields vm_start_def split: if_splits option.splits)
  have b: "pe_buffer bad_relocs 296" "4096 dvd unat (0x10000 :: u64)"
    by (simp_all add: pe_buffer_def bad_relocs_facts(1))
  have "returns (pe_load vm_kernel vm_poke (\<lambda>_ _. 0) X86_64 bad_relocs 296 0x10000 vm_ctx 16 vm_start) (\<lambda>_. True)"
    by (rule pe_load_total [OF b]) (simp add: bad_relocs_facts(2) bad_info_def)
  then obtain err res s where "pe_load vm_kernel vm_poke (\<lambda>_ _. 0) X86_64 bad_relocs 296 0x10000 vm_ctx 16 vm_start =
      Some (err, res, s)" by (auto elim!: returnsE)
  with pe_load_confined [OF b c] show ?thesis by blast
qed

text \<open>C15: A load at a page-aligned base returns and reads only inside the file, on any kernel, when the
  image is loaded at its preferred base or its relocation blocks end inside the file.
\<close>

theorem pe_load_returns:
  assumes "pe_buffer data n" "4096 dvd unat base"
    and "\<forall>info. pe_validate arch data n = Some (Inr info) \<longrightarrow> pi_image_base info = base \<or> relocs_inside data n info"
  shows "\<exists>err res s. pe_load K poke peek arch data n base ctx hint m = Some (err, res, s)"
  using pe_load_total [OF assms, of K poke peek ctx hint m] by (auto elim: returnsE)

theorem pe_load_returns_witness:
  "\<exists>err res s. pe_load vm_kernel vm_poke (\<lambda>_ _. 0) X86_64 bad_relocs 296 0x10000 vm_ctx 16 vm_start = Some (err, res, s)"
  using pe_load_returns [of bad_relocs 296 "0x10000" X86_64 vm_kernel vm_poke "\<lambda>_ _. 0" vm_ctx 16 vm_start]
  by (simp add: pe_buffer_def bad_relocs_facts) (simp add: bad_info_def)

text \<open>C39: The size of a relocation block is not compared with the size of the directory:
  a valid image of 296 bytes makes the relocation read behind the file, whatever
  the kernel and the base address are.
\<close>

theorem pe_reloc_overread:
  "length bad_relocs = 296 \<and> pe_validate X86_64 bad_relocs 296 = Some (Inr bad_info) \<and>
   pe_relocate K poke peek bad_relocs 296 bad_info delta base pages ctx m = None"
proof -
  have "rva_to_file_offset bad_relocs 296 bad_info 288 = Some (Some 288)"
    by (simp add: rva_to_file_offset_def bad_info_def)
  moreover have "read_u16 bad_relocs 296 = None" by (simp add: read_u16_def read_bytes_def bad_relocs_facts(1))
  then have "reloc_entries K poke peek bad_relocs delta base pages ctx 296 rva [0..<k] m = None" if "0 < k" for rva k
    by (rule reloc_entries_stuck [OF _ that])
  then have "reloc_blocks K poke peek bad_relocs delta base pages ctx 296 288 m = None"
    by (subst reloc_blocks.simps) (simp add: bad_relocs_facts(4) del: upt_rec_numeral)
  ultimately show ?thesis by (simp add: pe_relocate_def bad_relocs_facts)
qed

end
