(* ===== verification/Spec2Isabelle.thy ===== *)
theory Spec2Isabelle
  imports Slot_Pool Invoke Pending Cap_Table Cpio Layout Ipc Mutex RwLock Semaphore Barrier Elf_Dynamic Elf_Contents Casefold Pe_Loader
begin

text \<open>
  A verification of trona, the user-space system library of SaltyOS, a
  capability-based microkernel system.  Paths are relative to \<^verbatim>\<open>src/\<close>.

  \<^bold>\<open>The program.\<close>  The crate \<^verbatim>\<open>substrate\<close> is the layer over the kernel: system calls and
  the IPC buffer page (\<^verbatim>\<open>syscall.rs\<close>, \<^verbatim>\<open>uapi/types/core.rs\<close>), message passing (\<^verbatim>\<open>ipc.rs\<close>),
  typed capability invocations (\<^verbatim>\<open>invoke.rs\<close>), the allocator of capability slots
  (\<^verbatim>\<open>slot_alloc.rs\<close>), the table of deferred requests of a server (\<^verbatim>\<open>pending.rs\<close>), the
  table with which a parent passes capabilities to a child (\<^verbatim>\<open>cap_table.rs\<close>), the planner
  of a child's address space and CSpace (\<^verbatim>\<open>layout.rs\<close>), futex-based synchronisation
  (\<^verbatim>\<open>sync.rs\<close>) and Unicode case folding (\<^verbatim>\<open>casefold.rs\<close>).  The crate \<^verbatim>\<open>loader\<close> reads the
  initial archive (\<^verbatim>\<open>cpio.rs\<close>) and loads ELF and PE images (\<^verbatim>\<open>elf_loader.rs\<close>,
  \<^verbatim>\<open>elf_dynamic.rs\<close>, \<^verbatim>\<open>pe_loader.rs\<close>).  To start a program, a parent finds the image in
  the archive, plans the child, loads the image page by page through invocations of
  the kernel, writes the capability table and starts the thread; the child
  installs the table and then allocates slots and exchanges messages.

  \<^bold>\<open>How the code is rendered.\<close>  Fixed-width integers are words, whose arithmetic wraps.
  A structure is a record, an enumeration a datatype; a status code is the
  integer of the source.  The kernel is not in the repository: it is the parameter \<open>K\<close> of
  \<^verbatim>\<open>Kernel_Abi\<close>, a function from the registers, the IPC buffer page and an opaque
  state to the result; a \<open>machine\<close> is the state of a thread, its IPC context and the kernel's state.
  What a theorem needs of the kernel is a named predicate on \<open>K\<close> (\<open>delivers\<close>,
  \<open>cnode_kernel\<close>, \<open>elf_kernel\<close>, \<open>elf_closed\<close>), and each is shown to hold of a concrete kernel by the witness of
  the theorem.  Code that works through raw pointers runs in the option monad over a list
  of bytes (\<^verbatim>\<open>Memory\<close>): \<^const>\<open>None\<close> is an access outside the bytes or a loop that does not end, so
  that a theorem which gives \<^const>\<open>Some\<close> states memory safety and termination at once.

  \<^bold>\<open>The theories.\<close>
  \<^item> \<^verbatim>\<open>Trona_Prelude\<close>, \<^verbatim>\<open>Memory\<close>, \<^verbatim>\<open>Returns\<close>: words, bitmaps, lists and first-match loops; bytes
    and little-endian values; total correctness in the option monad.
  \<^item> \<^verbatim>\<open>Kernel_Abi\<close>: constants, \<open>IpcBuffer\<close>, \<open>TronaMsg\<close>, \<open>syscall\<close>, the timed calls, \<open>invoke\<close>.
  \<^item> \<^verbatim>\<open>Slot_Alloc\<close> has the definitions of \<^verbatim>\<open>slot_alloc.rs\<close>, one for each function and one for each
    loop; \<^verbatim>\<open>Slot_Pool\<close> abstracts a state to the set of its slots and the set of allocated
    slots (\<open>pool\<close>, \<open>allocated\<close>, invariant \<open>slot_inv\<close>) and shows that every locked section
    refines an operation on these sets.  Its locale \<open>slot_pool\<close> is what clients
    rely on; it is interpreted by \<open>slot_alloc_no_expand\<close> and \<open>slot_free\<close>.  The relation
    \<open>slot_run\<close> has the locked sections of any number of threads as its steps: no slot is granted
    twice, allocation is exhaustive, freeing and consecutive allocation are exact, and the
    blocking allocation returns as long as the process manager answers.
  \<^item> \<^verbatim>\<open>Invoke\<close>: every wrapper of \<^verbatim>\<open>invoke.rs\<close>.  After an expansion of the CSpace the CNode
    operations reach the slots their arguments name; reading walk results stays in the page.
  \<^item> \<^verbatim>\<open>Ipc\<close>: every function of \<^verbatim>\<open>ipc.rs\<close>.  A message that is sent arrives; staged
    capabilities are sent once.
  \<^item> \<^verbatim>\<open>Pending\<close>: every operation of \<^verbatim>\<open>pending.rs\<close>, with the locale \<open>request_table\<close> of its contract.  A
    request is answered exactly once, until the identifiers wrap.
  \<^item> \<^verbatim>\<open>Cap_Table\<close>: builder, image, reader and installation; round trip and delivery to the child.
  \<^item> \<^verbatim>\<open>Layout\<close>: both planners; the regions are disjoint, as are the ranges of the CSpace.
  \<^item> \<^verbatim>\<open>Futex\<close>: threads that interleave at atomic operations and sleep on a word, the locale
    \<open>futex_invariant\<close> and executable schedules.  \<^verbatim>\<open>Mutex\<close>, \<^verbatim>\<open>RwLock\<close>, \<^verbatim>\<open>Semaphore\<close> (with \<open>Once\<close>)
    and \<^verbatim>\<open>Barrier\<close> interpret it with their programs: mutual exclusion, absence of
    lost wakeups where it holds and a run that loses one where it does not, conservation of
    permits, a single run of an initialiser, separation of rounds.
  \<^item> \<^verbatim>\<open>Cpio\<close>: every function of \<^verbatim>\<open>cpio.rs\<close>; safety on arbitrary bytes and the round trip with an
    encoder of the format.
  \<^item> \<^verbatim>\<open>Elf_Image\<close>, \<^verbatim>\<open>Elf_Dynamic\<close>, \<^verbatim>\<open>Elf_Loader\<close>, \<^verbatim>\<open>Elf_Contents\<close>: headers and inspection;
    interpreter, needed libraries and program headers; the loader with relocations, its
    confinement and termination; the contents of the child after a load.
  \<^item> \<^verbatim>\<open>Pe_Image\<close>, \<^verbatim>\<open>Pe_Loader\<close>: inspection of PE images and the loader with base relocations and
    imports; safety, confinement and termination.
  \<^item> \<^verbatim>\<open>Casefold_Table\<close>, \<^verbatim>\<open>Casefold\<close>: the table of 1457 pairs, binary search, folding of
    UTF-8 and comparison of names.

  \<^bold>\<open>Bounds.\<close>  Loops over arrays are structural on the list of indices.  Loops whose end depends on
  the data (archive entries, pages of a segment, dynamic entries, relocation blocks, the
  polling of a blocking allocation) are partial functions over the option type, without fuel, and
  their termination is part of the theorems; only for the resolution of PE imports, which calls
  a resolver of its caller, no theorem is stated.  Array sizes are those of the source: 16
  segments of 4096 slots, 32 capability table entries, 256 pages in a
  load, 12 needed libraries of 24 bytes, a fold buffer of 256 bytes.  Where a theorem
  has a numeric hypothesis (a slot range below the first expansion window, fewer than \<open>2 ^ 32 - 2\<close> requests,
  images below \<open>2 ^ 62\<close> bytes, sizes that sum to less than \<open>2 ^ 63\<close>, messages of up to 20 registers), it keeps the
  words that the code adds from wrapping, or is the documented capacity of the kernel interface.

  \<^bold>\<open>Not modelled.\<close>  Output of diagnostics is left out everywhere.  The spinlock of the slot
  allocator is rendered as atomicity of the sections it protects, and atomic operations are
  sequentially consistent.  Left out are the typed mutex and the condition variable, thread-local storage,
  thread creation and the worker pool (assembly and kernel scheduling), serial and framebuffer
  output, the crates \<^verbatim>\<open>posix\<close> and \<^verbatim>\<open>win32\<close>, which marshal calls for servers that are not
  in the repository, the run-time linkers in \<^verbatim>\<open>rtld\<close>, which are C and assembly, and build files.
\<close>

end
